(* ===== verification/Prelude.thy ===== *)
theory Prelude
  imports Main "HOL-Library.Word"
begin

text \<open>
  Shared vocabulary of the development.

  Rust code either returns \<open>Ok v\<close>, returns \<open>Err e\<close>, or panics; the workspace is built with
  \<open>overflow-checks = true\<close> and \<open>panic = "abort"\<close> (\<open>src/Cargo.toml\<close>), so an arithmetic overflow of a
  plain operator is a panic in every profile and never a silent wrap-around. The three possibilities are
  the constructors of \<open>outcome\<close>. The theory also holds the machine integers (\<open>u8\<close>, \<open>u64\<close>, \<open>i64\<close>),
  the checked and the panicking operators on them, little-endian byte strings, slices that panic out of
  range, and the generic list lemmas the components share.
\<close>

subsection \<open>Results and panics\<close>

datatype ('e, 'a) outcome = Ok 'a | Err 'e | Panic

fun and_then :: "('e, 'a) outcome \<Rightarrow> ('a \<Rightarrow> ('e, 'b) outcome) \<Rightarrow> ('e, 'b) outcome" where
  "and_then (Ok a) f = f a"
| "and_then (Err e) f = Err e"
| "and_then Panic f = Panic"

fun map_ok :: "('a \<Rightarrow> 'b) \<Rightarrow> ('e, 'a) outcome \<Rightarrow> ('e, 'b) outcome" where
  "map_ok f (Ok a) = Ok (f a)"
| "map_ok f (Err e) = Err e"
| "map_ok f Panic = Panic"

definition ok_or :: "'e \<Rightarrow> 'a option \<Rightarrow> ('e, 'a) outcome" where
  "ok_or e x = (case x of None \<Rightarrow> Err e | Some a \<Rightarrow> Ok a)"

definition or_panic :: "'a option \<Rightarrow> ('e, 'a) outcome" where
  "or_panic x = (case x of None \<Rightarrow> Panic | Some a \<Rightarrow> Ok a)"

named_theorems outcome_simps \<open>rewriting of results\<close>

lemma and_then_cong [fundef_cong]:
  "m = m' \<Longrightarrow> (\<And>a. m' = Ok a \<Longrightarrow> f a = g a) \<Longrightarrow> and_then m f = and_then m' g"
  by (cases m') auto

lemma and_then_eq_Ok [outcome_simps]:
  "and_then m f = Ok b \<longleftrightarrow> (\<exists>a. m = Ok a \<and> f a = Ok b)"
  by (cases m) auto

lemma and_then_eq_Panic [outcome_simps]:
  "and_then m f = Panic \<longleftrightarrow> m = Panic \<or> (\<exists>a. m = Ok a \<and> f a = Panic)"
  by (cases m) auto

lemma and_then_eq_Err [outcome_simps]:
  "and_then m f = Err e \<longleftrightarrow> m = Err e \<or> (\<exists>a. m = Ok a \<and> f a = Err e)"
  by (cases m) auto

lemma map_ok_eq_Ok [outcome_simps]: "map_ok f m = Ok b \<longleftrightarrow> (\<exists>a. m = Ok a \<and> b = f a)"
  by (cases m) auto

lemma map_ok_eq_Panic [outcome_simps]: "map_ok f m = Panic \<longleftrightarrow> m = Panic"
  by (cases m) auto

lemma map_ok_eq_Err [outcome_simps]: "map_ok f m = Err e \<longleftrightarrow> m = Err e"
  by (cases m) auto

lemma ok_or_eq_Ok [outcome_simps]: "ok_or e x = Ok a \<longleftrightarrow> x = Some a"
  by (cases x) (auto simp: ok_or_def)

lemma ok_or_eq_Panic [outcome_simps]: "ok_or e x \<noteq> Panic"
  by (cases x) (auto simp: ok_or_def)

lemma ok_or_eq_Err [outcome_simps]: "ok_or e x = Err e' \<longleftrightarrow> x = None \<and> e' = e"
  by (cases x) (auto simp: ok_or_def)

lemma ok_or_simps [simp]: "ok_or e None = Err e" "ok_or e (Some a) = Ok a"
  by (simp_all add: ok_or_def)

lemma or_panic_simps [simp]: "or_panic None = Panic" "or_panic (Some a) = Ok a"
  by (simp_all add: or_panic_def)

lemma or_panic_eq_Ok [outcome_simps]: "or_panic x = Ok a \<longleftrightarrow> x = Some a"
  by (cases x) auto

lemma or_panic_eq_Panic [outcome_simps]: "or_panic x = Panic \<longleftrightarrow> x = None"
  by (cases x) auto

lemma and_then_assoc: "and_then (and_then m f) g = and_then m (\<lambda>a. and_then (f a) g)"
  by (cases m) auto

subsection \<open>Computations that may not return\<close>

text \<open>\<open>None\<close> when the computation does not return.\<close>

fun run_then :: "('e, 'a) outcome option \<Rightarrow> ('a \<Rightarrow> ('e, 'b) outcome option) \<Rightarrow> ('e, 'b) outcome option" where
  "run_then None f = None"
| "run_then (Some (Ok a)) f = f a"
| "run_then (Some (Err e)) f = Some (Err e)"
| "run_then (Some Panic) f = Some Panic"

lemma run_then_eq_Ok: "run_then m f = Some (Ok b) \<longleftrightarrow> (\<exists>a. m = Some (Ok a) \<and> f a = Some (Ok b))"
proof (cases m)
  case (Some r)
  then show ?thesis by (cases r) auto
qed simp

subsection \<open>Machine integers\<close>

type_synonym u8 = "8 word"
type_synonym u64 = "64 word"
type_synonym i64 = "64 word"
type_synonym bytes = "u8 list"

text \<open>An \<open>i64\<close> is a 64-bit word read by \<open>sint\<close>; a \<open>u64\<close> is one read by \<open>unat\<close>.\<close>

definition in_i64 :: "int \<Rightarrow> bool" where
  "in_i64 z \<longleftrightarrow> - (2 ^ 63) \<le> z \<and> z < 2 ^ 63"

definition i64_of_int :: "int \<Rightarrow> i64 option" where
  "i64_of_int z = (if in_i64 z then Some (word_of_int z) else None)"

definition checked_add_i64 :: "i64 \<Rightarrow> i64 \<Rightarrow> i64 option" where
  "checked_add_i64 a b = i64_of_int (sint a + sint b)"

definition checked_sub_i64 :: "i64 \<Rightarrow> i64 \<Rightarrow> i64 option" where
  "checked_sub_i64 a b = i64_of_int (sint a - sint b)"

text \<open>\<open>i64::try_from\<close> on a \<open>u64\<close>, and \<open>u64::try_from\<close> on an \<open>i64\<close>.\<close>

definition u64_to_i64 :: "u64 \<Rightarrow> i64 option" where
  "u64_to_i64 w = (if uint w < 2 ^ 63 then Some w else None)"

definition i64_to_u64 :: "i64 \<Rightarrow> u64 option" where
  "i64_to_u64 w = (if 0 \<le> sint w then Some w else None)"

lemma sint_word_of_int_i64 [simp]:
  assumes "in_i64 z"
  shows "sint (word_of_int z :: i64) = z"
  using assms unfolding in_i64_def
  by (simp add: signed_of_int signed_take_bit_int_eq_self)

lemma in_i64_sint [simp]: "in_i64 (sint (w :: i64))"
  using sint_ge [of w] sint_lt [of w] by (simp add: in_i64_def)

lemma i64_of_int_Some: "i64_of_int z = Some w \<longleftrightarrow> in_i64 z \<and> sint w = z"
  by (auto simp: i64_of_int_def split: if_splits)

lemma i64_of_int_None: "i64_of_int z = None \<longleftrightarrow> \<not> in_i64 z"
  by (auto simp: i64_of_int_def)

lemma checked_add_i64_Some:
  "checked_add_i64 a b = Some c \<longleftrightarrow> in_i64 (sint a + sint b) \<and> sint c = sint a + sint b"
  by (simp add: checked_add_i64_def i64_of_int_Some)

lemma checked_sub_i64_Some:
  "checked_sub_i64 a b = Some c \<longleftrightarrow> in_i64 (sint a - sint b) \<and> sint c = sint a - sint b"
  by (simp add: checked_sub_i64_def i64_of_int_Some)

lemma checked_sub_i64_None: "checked_sub_i64 a b = None \<longleftrightarrow> \<not> in_i64 (sint a - sint b)"
  by (simp add: checked_sub_i64_def i64_of_int_None)

lemma sint_of_small_uint: "uint (w :: i64) < 2 ^ 63 \<Longrightarrow> sint w = uint w"
proof -
  assume "uint w < 2 ^ 63"
  moreover have "- (2 ^ 63) \<le> uint w"
    by (rule order_trans [OF _ uint_ge_0]) simp
  ultimately show "sint w = uint w"
    by (simp add: sint_uint signed_take_bit_int_eq_self)
qed

lemma u64_to_i64_Some: "u64_to_i64 w = Some v \<Longrightarrow> v = w \<and> sint v = uint w \<and> 0 \<le> sint v"
  by (auto simp: u64_to_i64_def sint_of_small_uint split: if_splits)

lemma i64_to_u64_Some: "i64_to_u64 w = Some v \<Longrightarrow> v = w \<and> 0 \<le> sint w"
  by (auto simp: i64_to_u64_def split: if_splits)

subsection \<open>Unsigned 64-bit arithmetic\<close>

text \<open>
  The \<open>checked_*\<close> methods of \<open>u64\<close> return an option; the plain operators panic where those return
  \<open>None\<close>, and the shift \<open>x >> i\<close> panics when \<open>i\<close> is not below the width.
\<close>

definition u64_of_nat :: "nat \<Rightarrow> u64 option" where
  "u64_of_nat n = (if n < 2 ^ 64 then Some (of_nat n) else None)"

definition checked_add_u64 :: "u64 \<Rightarrow> u64 \<Rightarrow> u64 option" where
  "checked_add_u64 a b = u64_of_nat (unat a + unat b)"

definition checked_sub_u64 :: "u64 \<Rightarrow> u64 \<Rightarrow> u64 option" where
  "checked_sub_u64 a b = (if b \<le> a then Some (a - b) else None)"

definition checked_mul_u64 :: "u64 \<Rightarrow> u64 \<Rightarrow> u64 option" where
  "checked_mul_u64 a b = u64_of_nat (unat a * unat b)"

definition checked_div_u64 :: "u64 \<Rightarrow> u64 \<Rightarrow> u64 option" where
  "checked_div_u64 a b = (if b = 0 then None else Some (a div b))"

definition add_u64 :: "u64 \<Rightarrow> u64 \<Rightarrow> ('e, u64) outcome" where
  "add_u64 a b = or_panic (checked_add_u64 a b)"

definition sub_u64 :: "u64 \<Rightarrow> u64 \<Rightarrow> ('e, u64) outcome" where
  "sub_u64 a b = or_panic (checked_sub_u64 a b)"

definition mul_u64 :: "u64 \<Rightarrow> u64 \<Rightarrow> ('e, u64) outcome" where
  "mul_u64 a b = or_panic (checked_mul_u64 a b)"

definition div_u64 :: "u64 \<Rightarrow> u64 \<Rightarrow> ('e, u64) outcome" where
  "div_u64 a b = or_panic (checked_div_u64 a b)"

definition shr_u64 :: "u64 \<Rightarrow> u64 \<Rightarrow> ('e, u64) outcome" where
  "shr_u64 a i = (if unat i < 64 then Ok (drop_bit (unat i) a) else Panic)"

named_theorems u64_simps \<open>unsigned 64-bit operators in terms of \<open>unat\<close>\<close>

lemma unat_less_u64: "unat (a :: u64) < 18446744073709551616"
  using unsigned_less [of a] by simp

lemma unat_le_u64_max: "unat (a :: u64) \<le> 18446744073709551615"
  using unat_less_u64 [of a] by linarith

lemma u64_of_nat_Some: "u64_of_nat n = Some c \<longleftrightarrow> unat c = n"
  using unat_less_u64 [of c] by (auto simp: u64_of_nat_def unat_of_nat word_unat_eq_iff)

lemma u64_of_nat_None: "u64_of_nat n = None \<longleftrightarrow> 2 ^ 64 \<le> n"
  by (auto simp: u64_of_nat_def)

lemma checked_add_u64_Some [u64_simps]: "checked_add_u64 a b = Some c \<longleftrightarrow> unat c = unat a + unat b"
  by (simp add: checked_add_u64_def u64_of_nat_Some)

lemma checked_add_u64_None [u64_simps]: "checked_add_u64 a b = None \<longleftrightarrow> 2 ^ 64 \<le> unat a + unat b"
  by (simp add: checked_add_u64_def u64_of_nat_None)

lemma checked_sub_u64_Some [u64_simps]: "checked_sub_u64 a b = Some c \<longleftrightarrow> unat a = unat c + unat b"
  by (auto simp: checked_sub_u64_def unat_sub word_le_nat_alt word_unat_eq_iff)

lemma checked_sub_u64_None [u64_simps]: "checked_sub_u64 a b = None \<longleftrightarrow> unat a < unat b"
  by (auto simp: checked_sub_u64_def word_le_nat_alt)

lemma checked_mul_u64_Some [u64_simps]: "checked_mul_u64 a b = Some c \<longleftrightarrow> unat c = unat a * unat b"
  by (simp add: checked_mul_u64_def u64_of_nat_Some)

lemma checked_mul_u64_None [u64_simps]: "checked_mul_u64 a b = None \<longleftrightarrow> 2 ^ 64 \<le> unat a * unat b"
  by (simp add: checked_mul_u64_def u64_of_nat_None)

lemma add_u64_eq [u64_simps]:
  "add_u64 a b = Ok c \<longleftrightarrow> unat c = unat a + unat b" "add_u64 a b = Panic \<longleftrightarrow> 2 ^ 64 \<le> unat a + unat b"
  by (simp_all add: add_u64_def or_panic_eq_Ok or_panic_eq_Panic checked_add_u64_Some checked_add_u64_None)

lemma sub_u64_eq [u64_simps]:
  "sub_u64 a b = Ok c \<longleftrightarrow> unat a = unat c + unat b" "sub_u64 a b = Panic \<longleftrightarrow> unat a < unat b"
  by (simp_all add: sub_u64_def or_panic_eq_Ok or_panic_eq_Panic checked_sub_u64_Some checked_sub_u64_None)

lemma mul_u64_eq [u64_simps]:
  "mul_u64 a b = Ok c \<longleftrightarrow> unat c = unat a * unat b" "mul_u64 a b = Panic \<longleftrightarrow> 2 ^ 64 \<le> unat a * unat b"
  by (simp_all add: mul_u64_def or_panic_eq_Ok or_panic_eq_Panic checked_mul_u64_Some checked_mul_u64_None)

lemma add_u64_ok: "unat a + unat b < 2 ^ 64 \<Longrightarrow> \<exists>c. add_u64 a b = Ok c \<and> unat c = unat a + unat b"
  by (cases "add_u64 a b :: ('e, u64) outcome")
    (auto simp: u64_simps add_u64_def or_panic_def split: option.splits)

lemma sub_u64_ok: "unat b \<le> unat a \<Longrightarrow> sub_u64 a b = Ok (a - b) \<and> unat (a - b) = unat a - unat b"
  by (simp add: sub_u64_def checked_sub_u64_def word_le_nat_alt unat_sub)

lemma shr_u64_ok: "unat i < 64 \<Longrightarrow> shr_u64 a i = Ok (drop_bit (unat i) a)"
  by (simp add: shr_u64_def)

lemma unat_drop_bit_u64: "unat (drop_bit n (a :: u64)) = unat a div 2 ^ n"
  by (simp only: unat_drop_bit_eq) (simp only: drop_bit_eq_div)

lemma shr_u64_eq [u64_simps]: "shr_u64 a i = Ok c \<longleftrightarrow> unat i < 64 \<and> unat c = unat a div 2 ^ unat i"
  by (auto simp: shr_u64_def unat_drop_bit_u64 word_unat_eq_iff)

lemma max_unat: "unat (max a b :: u64) = max (unat a) (unat b)"
  by (simp add: max_def word_le_nat_alt)

subsection \<open>Byte strings\<close>

text \<open>
  \<open>to_le_bytes\<close> and \<open>from_le_bytes\<close> of the fixed-width integers: \<open>n\<close> bytes, least significant first.
\<close>

fun le_bytes :: "nat \<Rightarrow> nat \<Rightarrow> bytes" where
  "le_bytes 0 v = []"
| "le_bytes (Suc n) v = of_nat (v mod 256) # le_bytes n (v div 256)"

fun le_value :: "bytes \<Rightarrow> nat" where
  "le_value [] = 0"
| "le_value (b # bs) = unat b + 256 * le_value bs"

lemma length_le_bytes [simp]: "length (le_bytes n v) = n"
  by (induction n arbitrary: v) auto

lemma unat_byte_mod [simp]: "unat (of_nat (v mod 256) :: u8) = v mod 256"
  by (simp add: unat_of_nat)

lemma le_value_le_bytes: "le_value (le_bytes n v) = v mod 256 ^ n"
  by (induction n arbitrary: v) (simp_all add: mod_mult2_eq)

lemma le_value_bound: "le_value bs < 256 ^ length bs"
proof (induction bs)
  case (Cons b bs)
  have "unat b < 256" using unsigned_less [of b] by simp
  with Cons.IH show ?case by simp
qed simp

lemma le_bytes_le_value: "length bs = n \<Longrightarrow> le_bytes n (le_value bs) = bs"
proof (induction bs arbitrary: n)
  case (Cons b bs)
  have b: "unat b < 256" using unsigned_less [of b] by simp
  from Cons.prems obtain m where n: "n = Suc m" "length bs = m" by auto
  have "le_value (b # bs) mod 256 = unat b" "le_value (b # bs) div 256 = le_value bs"
    using b by simp_all
  then have "le_bytes n (le_value (b # bs)) = of_nat (unat b) # le_bytes m (le_value bs)"
    using n(1) by (simp del: le_value.simps)
  with Cons.IH [OF n(2)] show ?case by simp
qed simp

definition le_bytes_64 :: "64 word \<Rightarrow> bytes" where
  "le_bytes_64 w = le_bytes 8 (unat w)"

definition le_value_64 :: "bytes \<Rightarrow> 64 word" where
  "le_value_64 bs = of_nat (le_value bs)"

lemma length_le_bytes_64 [simp]: "length (le_bytes_64 w) = 8"
  by (simp add: le_bytes_64_def)

lemma le_value_64_le_bytes_64 [simp]: "le_value_64 (le_bytes_64 w) = w"
proof -
  have "unat w < 256 ^ 8" using unsigned_less [of w] by simp
  then show ?thesis by (simp add: le_bytes_64_def le_value_64_def le_value_le_bytes)
qed

text \<open>The largest allocation in bytes.\<close>

definition ISIZE_MAX :: nat where
  "ISIZE_MAX = 2 ^ 63 - 1"

text \<open>A slice \<open>&xs[i..]\<close> panics when \<open>i\<close> is past the end.\<close>

definition slice_from :: "nat \<Rightarrow> 'a list \<Rightarrow> ('e, 'a list) outcome" where
  "slice_from i xs = (if i \<le> length xs then Ok (drop i xs) else Panic)"

lemma slice_from_append [simp]: "slice_from (length xs) (xs @ ys) = Ok ys"
  by (simp add: slice_from_def)

text \<open>\<open>Vec::pop\<close>: the last element and the rest, \<open>None\<close> on the empty vector.\<close>

definition vec_pop :: "'a list \<Rightarrow> ('a \<times> 'a list) option" where
  "vec_pop xs = (if xs = [] then None else Some (last xs, butlast xs))"

lemma vec_pop_Nil [simp]: "vec_pop [] = None"
  by (simp add: vec_pop_def)

lemma vec_pop_snoc [simp]: "vec_pop (xs @ [x]) = Some (x, xs)"
  by (simp add: vec_pop_def)

lemma vec_pop_Some: "vec_pop xs = Some (x, ys) \<longleftrightarrow> xs = ys @ [x]"
  by (cases xs rule: rev_cases) (auto simp: vec_pop_def)

lemma vec_pop_None [simp]: "vec_pop xs = None \<longleftrightarrow> xs = []"
  by (simp add: vec_pop_def)

text \<open>\<open>Vec::insert\<close> at a position.\<close>

definition insert_at :: "nat \<Rightarrow> 'a \<Rightarrow> 'a list \<Rightarrow> 'a list" where
  "insert_at i x xs = take i xs @ x # drop i xs"

lemma length_insert_at [simp]: "length (insert_at i x xs) = Suc (length xs)"
  by (simp add: insert_at_def)

lemma set_insert_at [simp]: "set (insert_at i x xs) = insert x (set xs)"
  by (auto simp: insert_at_def dest: in_set_takeD in_set_dropD)
    (metis Un_iff append_take_drop_id set_append)

end
