(* ===== verification/Crypto_Interface.thy ===== *)
theory Crypto_Interface
  imports Prelude
begin

text \<open>
  The third-party code TariScript calls, as one record of parameters: the Ristretto keys, the Pedersen
  commitments and the Schnorr signatures of \<open>tari_crypto\<close>, the digests of \<open>sha2\<close>, \<open>sha3\<close> and
  \<open>tari_crypto\<close>, and the variable-length integers of \<open>integer_encoding\<close>. The types of public keys,
  secret keys and commitments are type variables. A \<open>RistrettoSchnorr\<close> is the pair of its public nonce
  and its signature scalar, which is what its constructor takes and its two getters return.

  \<open>crypto_laws\<close> states what the library documents and the code relies on: the canonical encodings are 32
  bytes long and decode to what was encoded, digests are 32 bytes, a variable-length integer decodes from
  the front of the input, and a decoder never reports more bytes than it was given. No cryptographic
  strength is assumed anywhere. \<open>sample_crypto\<close> is a concrete instance that satisfies the laws.
\<close>

type_synonym ('pk, 'sk) schnorr = "'pk \<times> 'sk"

record ('pk, 'sk, 'com) crypto =
  pk_from_bytes :: "bytes \<Rightarrow> 'pk option"
  pk_as_bytes :: "'pk \<Rightarrow> bytes"
  pk_default :: 'pk
  pk_add :: "'pk \<Rightarrow> 'pk \<Rightarrow> 'pk"
  pk_from_secret_key :: "'sk \<Rightarrow> 'pk"
  sk_from_bytes :: "bytes \<Rightarrow> 'sk option"
  sk_as_bytes :: "'sk \<Rightarrow> bytes"
  com_from_bytes :: "bytes \<Rightarrow> 'com option"
  com_as_bytes :: "'com \<Rightarrow> bytes"
  com_add :: "'com \<Rightarrow> 'com \<Rightarrow> 'com"
  com_sub :: "'com \<Rightarrow> 'com \<Rightarrow> 'com"
  sig_add :: "('pk, 'sk) schnorr \<Rightarrow> ('pk, 'sk) schnorr \<Rightarrow> ('pk, 'sk) schnorr"
  verify_challenge :: "('pk, 'sk) schnorr \<Rightarrow> 'pk \<Rightarrow> bytes \<Rightarrow> bool"
  blake256 :: "bytes \<Rightarrow> bytes"
  sha256 :: "bytes \<Rightarrow> bytes"
  sha3_256 :: "bytes \<Rightarrow> bytes"
  u64_encode_var :: "u64 \<Rightarrow> bytes"
  u64_decode_var :: "bytes \<Rightarrow> (u64 \<times> nat) option"
  i64_encode_var :: "i64 \<Rightarrow> bytes"
  i64_decode_var :: "bytes \<Rightarrow> (i64 \<times> nat) option"
  usize_write_varint :: "nat \<Rightarrow> bytes"
  usize_read_varint :: "bytes \<Rightarrow> (nat \<times> bytes) option"

definition codec32 :: "('a \<Rightarrow> bytes) \<Rightarrow> (bytes \<Rightarrow> 'a option) \<Rightarrow> bool" where
  "codec32 enc dec \<longleftrightarrow> (\<forall>x. length (enc x) = 32 \<and> dec (enc x) = Some x)"

definition varint_codec :: "('n \<Rightarrow> bytes) \<Rightarrow> (bytes \<Rightarrow> ('n \<times> nat) option) \<Rightarrow> bool" where
  "varint_codec enc dec \<longleftrightarrow>
     (\<forall>n rest. dec (enc n @ rest) = Some (n, length (enc n))) \<and>
     (\<forall>bs n k. dec bs = Some (n, k) \<longrightarrow> k \<le> length bs)"

definition digest32 :: "(bytes \<Rightarrow> bytes) \<Rightarrow> bool" where
  "digest32 d \<longleftrightarrow> (\<forall>b. length (d b) = 32)"

definition crypto_laws :: "('pk, 'sk, 'com) crypto \<Rightarrow> bool" where
  "crypto_laws C \<longleftrightarrow>
     codec32 (pk_as_bytes C) (pk_from_bytes C) \<and>
     codec32 (sk_as_bytes C) (sk_from_bytes C) \<and>
     codec32 (com_as_bytes C) (com_from_bytes C) \<and>
     digest32 (blake256 C) \<and> digest32 (sha256 C) \<and> digest32 (sha3_256 C) \<and>
     varint_codec (u64_encode_var C) (u64_decode_var C) \<and>
     varint_codec (i64_encode_var C) (i64_decode_var C) \<and>
     (\<forall>n rest. n < 2 ^ 64 \<longrightarrow> usize_read_varint C (usize_write_varint C n @ rest) = Some (n, rest))"

named_theorems crypto_simps \<open>consequences of the laws, used as conditional rewriting\<close>

lemma pk_codec [crypto_simps]:
  assumes "crypto_laws C"
  shows "length (pk_as_bytes C p) = 32" "pk_from_bytes C (pk_as_bytes C p) = Some p"
  using assms by (simp_all add: crypto_laws_def codec32_def)

lemma sk_codec [crypto_simps]:
  assumes "crypto_laws C"
  shows "length (sk_as_bytes C k) = 32" "sk_from_bytes C (sk_as_bytes C k) = Some k"
  using assms by (simp_all add: crypto_laws_def codec32_def)

lemma com_codec [crypto_simps]:
  assumes "crypto_laws C"
  shows "length (com_as_bytes C c) = 32" "com_from_bytes C (com_as_bytes C c) = Some c"
  using assms by (simp_all add: crypto_laws_def codec32_def)

lemma u64_varint [crypto_simps]:
  assumes "crypto_laws C"
  shows "u64_decode_var C (u64_encode_var C n @ rest) = Some (n, length (u64_encode_var C n))"
  using assms by (simp add: crypto_laws_def varint_codec_def)

lemma i64_varint [crypto_simps]:
  assumes "crypto_laws C"
  shows "i64_decode_var C (i64_encode_var C n @ rest) = Some (n, length (i64_encode_var C n))"
  using assms by (simp add: crypto_laws_def varint_codec_def)

lemma u64_decode_var_le: "crypto_laws C \<Longrightarrow> u64_decode_var C bs = Some (n, k) \<Longrightarrow> k \<le> length bs"
  by (auto simp: crypto_laws_def varint_codec_def)

lemma i64_decode_var_le: "crypto_laws C \<Longrightarrow> i64_decode_var C bs = Some (n, k) \<Longrightarrow> k \<le> length bs"
  by (auto simp: crypto_laws_def varint_codec_def)

lemma usize_varint [crypto_simps]:
  "crypto_laws C \<Longrightarrow> n < 2 ^ 64 \<Longrightarrow> usize_read_varint C (usize_write_varint C n @ rest) = Some (n, rest)"
  by (simp add: crypto_laws_def)

lemma digests_length [crypto_simps]:
  assumes "crypto_laws C"
  shows "length (blake256 C b) = 32" "length (sha256 C b) = 32" "length (sha3_256 C b) = 32"
  using assms by (simp_all add: crypto_laws_def digest32_def)

subsection \<open>An instance\<close>

text \<open>
  Keys, scalars and commitments are single bytes, padded to 32; a signature \<open>(r, s)\<close> verifies under key
  \<open>p\<close> when \<open>s = r + p\<close>; integers are written as eight little-endian bytes.
\<close>

definition pad32 :: "u8 \<Rightarrow> bytes" where
  "pad32 b = b # replicate 31 0"

definition unpad32 :: "bytes \<Rightarrow> u8 option" where
  "unpad32 bs = (case bs of b # r \<Rightarrow> if r = replicate 31 0 then Some b else None | [] \<Rightarrow> None)"

definition fixed64_decode :: "bytes \<Rightarrow> (64 word \<times> nat) option" where
  "fixed64_decode bs = (if length bs < 8 then None else Some (le_value_64 (take 8 bs), 8))"

definition sample_crypto :: "(u8, u8, u8) crypto" where
  "sample_crypto = \<lparr>
     pk_from_bytes = unpad32, pk_as_bytes = pad32, pk_default = 0, pk_add = (+),
     pk_from_secret_key = (\<lambda>k. k), sk_from_bytes = unpad32, sk_as_bytes = pad32,
     com_from_bytes = unpad32, com_as_bytes = pad32, com_add = (+), com_sub = (-),
     sig_add = (\<lambda>(r, s) (r', s'). (r + r', s + s')),
     verify_challenge = (\<lambda>(r, s) p m. s = r + p),
     blake256 = (\<lambda>b. replicate 32 1), sha256 = (\<lambda>b. replicate 32 2), sha3_256 = (\<lambda>b. replicate 32 3),
     u64_encode_var = le_bytes_64, u64_decode_var = fixed64_decode,
     i64_encode_var = le_bytes_64, i64_decode_var = fixed64_decode,
     usize_write_varint = le_bytes 8,
     usize_read_varint = (\<lambda>bs. if length bs < 8 then None else Some (le_value (take 8 bs), drop 8 bs)) \<rparr>"

lemma unpad32_pad32: "codec32 pad32 unpad32"
  by (simp add: codec32_def pad32_def unpad32_def)

lemma fixed64_varint: "varint_codec le_bytes_64 fixed64_decode"
  by (auto simp: varint_codec_def fixed64_decode_def split: if_splits)

lemma sample_crypto_laws: "crypto_laws sample_crypto"
  using unpad32_pad32 fixed64_varint
  by (simp add: crypto_laws_def sample_crypto_def digest32_def le_value_le_bytes)

end
