(* ===== verification/Codec_Interface.thy ===== *)
theory Codec_Interface
  imports Prelude
begin

text \<open>
  The contract between a byte-stream parser and the elements it reads, stated once and interpreted for
  the stack items, the opcodes and the covenant tokens. \<open>prefix_codec\<close> is the promise of one element's
  encoder and decoder: a well-formed element is recovered from the front of the input, whatever follows.
  \<open>stream_codec\<close> adds a loop that reads elements until the input is empty.
\<close>

locale prefix_codec =
  fixes enc :: "'a \<Rightarrow> bytes"
    and dec :: "bytes \<Rightarrow> ('e, 'a \<times> bytes) outcome"
    and wf_elem :: "'a \<Rightarrow> bool"
  assumes dec_enc: "wf_elem x \<Longrightarrow> dec (enc x @ rest) = Ok (x, rest)"
    and dec_shorter: "dec bs = Ok (x, rest) \<Longrightarrow> length rest < length bs"
begin

lemma enc_nonempty: "wf_elem x \<Longrightarrow> enc x \<noteq> []"
proof
  assume "wf_elem x" and "enc x = []"
  with dec_enc [of x "[]"] have "dec [] = Ok (x, [])" by simp
  from dec_shorter [OF this] show False by simp
qed

lemma enc_prefix_free: "wf_elem x \<Longrightarrow> wf_elem y \<Longrightarrow> enc x @ r = enc y @ s \<Longrightarrow> x = y \<and> r = s"
proof -
  assume wf: "wf_elem x" "wf_elem y" and eq: "enc x @ r = enc y @ s"
  have "Ok (x, r) = (dec (enc x @ r) :: ('e, 'a \<times> bytes) outcome)"
    by (rule dec_enc [OF wf(1), symmetric])
  also have "\<dots> = Ok (y, s)"
    unfolding eq by (rule dec_enc [OF wf(2)])
  finally show ?thesis by simp
qed

lemma concat_enc_injective:
  "list_all wf_elem xs \<Longrightarrow> list_all wf_elem ys \<Longrightarrow>
   concat (map enc xs) = concat (map enc ys) \<Longrightarrow> xs = ys"
proof (induction xs arbitrary: ys)
  case Nil
  then show ?case by (cases ys) (auto dest: enc_nonempty)
next
  case (Cons x xs)
  then obtain y ys' where ys: "ys = y # ys'"
    by (cases ys) (auto dest: enc_nonempty)
  with Cons.prems have "enc x @ concat (map enc xs) = enc y @ concat (map enc ys')"
    by simp
  with Cons.prems ys have "x = y" "concat (map enc xs) = concat (map enc ys')"
    using enc_prefix_free [of x y "concat (map enc xs)" "concat (map enc ys')"] by auto
  with Cons ys show ?case by simp
qed

end

locale stream_codec = prefix_codec enc dec wf_elem
  for enc :: "'a \<Rightarrow> bytes" and dec :: "bytes \<Rightarrow> ('e, 'a \<times> bytes) outcome" and wf_elem :: "'a \<Rightarrow> bool" +
  fixes parse :: "bytes \<Rightarrow> ('e, 'a list) outcome"
  assumes parse_Nil: "parse [] = Ok []"
    and parse_step: "bs \<noteq> [] \<Longrightarrow> parse bs = and_then (dec bs) (\<lambda>(x, rest). map_ok (Cons x) (parse rest))"
begin

lemma parse_concat: "list_all wf_elem xs \<Longrightarrow> parse (concat (map enc xs)) = Ok xs"
proof (induction xs)
  case Nil
  then show ?case by (simp add: parse_Nil)
next
  case (Cons x xs)
  then show ?case
    using parse_step [of "enc x @ concat (map enc xs)"] by (simp add: dec_enc enc_nonempty)
qed

text \<open>Every element takes at least one byte of the input.\<close>

lemma parse_length: "parse bs = Ok xs \<Longrightarrow> length xs \<le> length bs"
proof (induction "length bs" arbitrary: bs xs rule: less_induct)
  case less
  show ?case
  proof (cases "bs = []")
    case True
    with less.prems show ?thesis by (simp add: parse_Nil)
  next
    case False
    with less.prems obtain x rest ys where "dec bs = Ok (x, rest)" "parse rest = Ok ys" "xs = x # ys"
      by (auto simp: parse_step outcome_simps)
    with less.hyps [of rest ys] dec_shorter [of bs x rest] show ?thesis by simp
  qed
qed

end

end
