(* ===== verification/Script_Stack.thy ===== *)
theory Script_Stack
  imports Crypto_Interface Codec_Interface
begin

text \<open>
  The execution stack of TariScript: \<open>src/infrastructure/tari_script/src/stack.rs\<close> and the errors of
  \<open>error.rs\<close>. A stack is the vector \<open>items\<close> of the source with the top at the end of the list. Each
  operation returns the changed stack, an error, or \<open>Panic\<close>. The byte arrays \<open>[u8; 32]\<close> are lists whose
  length is part of \<open>item_wf\<close>.
\<close>

subsection \<open>Errors and items\<close>

datatype script_error =
    Return_Error
  | StackOverflow
  | NonUnitLengthStack
  | StackUnderflow
  | IncompatibleTypes
  | ValueExceedsBounds
  | InvalidOpcode
  | MissingOpcode
  | InvalidSignature
  | InvalidInput
  | InvalidData
  | VerifyFailed
  | InvalidDigest

definition MAX_STACK_SIZE :: nat where
  "MAX_STACK_SIZE = 255"

definition TYPE_NUMBER :: u8 where "TYPE_NUMBER = 1"
definition TYPE_HASH :: u8 where "TYPE_HASH = 2"
definition TYPE_COMMITMENT :: u8 where "TYPE_COMMITMENT = 3"
definition TYPE_PUBKEY :: u8 where "TYPE_PUBKEY = 4"
definition TYPE_SIG :: u8 where "TYPE_SIG = 5"
definition TYPE_SCALAR :: u8 where "TYPE_SCALAR = 6"

lemmas type_codes = TYPE_NUMBER_def TYPE_HASH_def TYPE_COMMITMENT_def TYPE_PUBKEY_def TYPE_SIG_def
  TYPE_SCALAR_def

datatype ('pk, 'sk, 'com) stack_item =
    Number i64
  | Hash bytes
  | Scalar bytes
  | Commitment 'com
  | PublicKey 'pk
  | Signature "('pk, 'sk) schnorr"

type_synonym ('pk, 'sk, 'com) exec_stack = "('pk, 'sk, 'com) stack_item list"

fun item_wf :: "('pk, 'sk, 'com) stack_item \<Rightarrow> bool" where
  "item_wf (Hash h) = (length h = 32)"
| "item_wf (Scalar s) = (length s = 32)"
| "item_wf _ = True"

subsection \<open>Items as bytes\<close>

fun item_to_bytes :: "('pk, 'sk, 'com) crypto \<Rightarrow> ('pk, 'sk, 'com) stack_item \<Rightarrow> bytes" where
  "item_to_bytes C (Number v) = TYPE_NUMBER # le_bytes_64 v"
| "item_to_bytes C (Hash h) = TYPE_HASH # h"
| "item_to_bytes C (Commitment c) = TYPE_COMMITMENT # com_as_bytes C c"
| "item_to_bytes C (PublicKey p) = TYPE_PUBKEY # pk_as_bytes C p"
| "item_to_bytes C (Signature s) = TYPE_SIG # pk_as_bytes C (fst s) @ sk_as_bytes C (snd s)"
| "item_to_bytes C (Scalar s) = TYPE_SCALAR # s"

definition b_to_number :: "bytes \<Rightarrow> (('pk, 'sk, 'com) stack_item \<times> bytes) option" where
  "b_to_number b = (if length b < 8 then None else Some (Number (le_value_64 (take 8 b)), drop 8 b))"

definition b_to_hash :: "bytes \<Rightarrow> (('pk, 'sk, 'com) stack_item \<times> bytes) option" where
  "b_to_hash b = (if length b < 32 then None else Some (Hash (take 32 b), drop 32 b))"

definition b_to_scalar :: "bytes \<Rightarrow> (('pk, 'sk, 'com) stack_item \<times> bytes) option" where
  "b_to_scalar b = (if length b < 32 then None else Some (Scalar (take 32 b), drop 32 b))"

definition b_to_commitment ::
  "('pk, 'sk, 'com) crypto \<Rightarrow> bytes \<Rightarrow> (('pk, 'sk, 'com) stack_item \<times> bytes) option" where
  "b_to_commitment C b =
     (if length b < 32 then None
      else case com_from_bytes C (take 32 b) of
             None \<Rightarrow> None
           | Some c \<Rightarrow> Some (Commitment c, drop 32 b))"

definition b_to_pubkey ::
  "('pk, 'sk, 'com) crypto \<Rightarrow> bytes \<Rightarrow> (('pk, 'sk, 'com) stack_item \<times> bytes) option" where
  "b_to_pubkey C b =
     (if length b < 32 then None
      else case pk_from_bytes C (take 32 b) of
             None \<Rightarrow> None
           | Some p \<Rightarrow> Some (PublicKey p, drop 32 b))"

definition b_to_sig ::
  "('pk, 'sk, 'com) crypto \<Rightarrow> bytes \<Rightarrow> (('pk, 'sk, 'com) stack_item \<times> bytes) option" where
  "b_to_sig C b =
     (if length b < 64 then None
      else case pk_from_bytes C (take 32 b) of
             None \<Rightarrow> None
           | Some r \<Rightarrow> (case sk_from_bytes C (take 32 (drop 32 b)) of
               None \<Rightarrow> None
             | Some s \<Rightarrow> Some (Signature (r, s), drop 64 b)))"

definition item_read_next ::
  "('pk, 'sk, 'com) crypto \<Rightarrow> bytes \<Rightarrow> (('pk, 'sk, 'com) stack_item \<times> bytes) option" where
  "item_read_next C bs =
     (case bs of
        [] \<Rightarrow> None
      | code # b \<Rightarrow>
          if code = TYPE_NUMBER then b_to_number b
          else if code = TYPE_HASH then b_to_hash b
          else if code = TYPE_COMMITMENT then b_to_commitment C b
          else if code = TYPE_PUBKEY then b_to_pubkey C b
          else if code = TYPE_SIG then b_to_sig C b
          else if code = TYPE_SCALAR then b_to_scalar b
          else None)"

lemmas b_to_defs = b_to_number_def b_to_hash_def b_to_scalar_def b_to_commitment_def b_to_pubkey_def
  b_to_sig_def

lemma item_read_next_shorter: "item_read_next C bs = Some (it, rest) \<Longrightarrow> length rest < length bs"
  by (auto simp: item_read_next_def b_to_defs split: list.splits if_splits option.splits)

lemma item_read_next_wf: "item_read_next C bs = Some (it, rest) \<Longrightarrow> item_wf it"
  by (auto simp: item_read_next_def b_to_defs split: list.splits if_splits option.splits)

lemma item_read_next_to_bytes:
  assumes "crypto_laws C" and "item_wf it"
  shows "item_read_next C (item_to_bytes C it @ rest) = Some (it, rest)"
  using assms
  by (cases it) (auto simp: item_read_next_def b_to_defs type_codes crypto_simps)

subsection \<open>Stack operations\<close>

definition push :: "'i \<Rightarrow> 'i list \<Rightarrow> (script_error, 'i list) outcome" where
  "push it st = (if length st \<ge> MAX_STACK_SIZE then Err StackOverflow else Ok (st @ [it]))"

definition pop_or_underflow :: "'i list \<Rightarrow> (script_error, 'i \<times> 'i list) outcome" where
  "pop_or_underflow st = ok_or StackUnderflow (vec_pop st)"

definition peek :: "'i list \<Rightarrow> 'i option" where
  "peek st = (if st = [] then None else Some (last st))"

definition pop_into_number ::
  "(i64 \<Rightarrow> 'n option) \<Rightarrow> ('pk, 'sk, 'com) exec_stack \<Rightarrow>
   (script_error, 'n \<times> ('pk, 'sk, 'com) exec_stack) outcome" where
  "pop_into_number try_from st =
     and_then (pop_or_underflow st) (\<lambda>(item, st').
       case item of
         Number n \<Rightarrow> (case try_from n of
             Some v \<Rightarrow> Ok (v, st')
           | None \<Rightarrow> Err ValueExceedsBounds)
       | _ \<Rightarrow> Err InvalidInput)"

definition pop_num_items :: "nat \<Rightarrow> 'i list \<Rightarrow> (script_error, 'i list \<times> 'i list) outcome" where
  "pop_num_items num_items st =
     (let stack_size = length st in
      if stack_size < num_items then Err StackUnderflow
      else let at = stack_size - num_items in Ok (drop at st, take at st))"

text \<open>The position of a variant's counter in the array \<open>[n, h, c, p, s, z]\<close>.\<close>

fun variant_index :: "('pk, 'sk, 'com) stack_item \<Rightarrow> nat" where
  "variant_index (Number _) = 0"
| "variant_index (Hash _) = 1"
| "variant_index (Commitment _) = 2"
| "variant_index (PublicKey _) = 3"
| "variant_index (Signature _) = 4"
| "variant_index (Scalar _) = 5"

definition counter :: "u8 list \<Rightarrow> ('pk, 'sk, 'com) stack_item \<Rightarrow> (script_error, u8 list) outcome" where
  "counter counts item =
     (let i = variant_index item in
      if counts ! i = 255 then Panic else Ok (counts[i := counts ! i + 1]))"

fun count_items :: "u8 list \<Rightarrow> ('pk, 'sk, 'com) stack_item list \<Rightarrow> (script_error, u8 list) outcome" where
  "count_items counts [] = Ok counts"
| "count_items counts (x # xs) = and_then (counter counts x) (\<lambda>counts'. count_items counts' xs)"

definition pop_n_plus_one_contains ::
  "nat \<Rightarrow> ('pk, 'sk, 'com) exec_stack \<Rightarrow> (script_error, bool \<times> ('pk, 'sk, 'com) exec_stack) outcome" where
  "pop_n_plus_one_contains n st =
     and_then (pop_num_items n st) (\<lambda>(items, st1).
     and_then (pop_or_underflow st1) (\<lambda>(item, st2).
     and_then (count_items (replicate 6 0) items) (\<lambda>counts.
     and_then (counter counts item) (\<lambda>counts'.
       let num_distinct_variants = length (filter (\<lambda>c. c > 0) counts') in
       if num_distinct_variants > 1 then Err InvalidInput
       else Ok (item \<in> set items, st2)))))"

definition push_down :: "nat \<Rightarrow> 'i list \<Rightarrow> (script_error, 'i list) outcome" where
  "push_down depth st =
     (let n = length st in
      if n < depth + 1 then Err StackUnderflow
      else if depth = 0 then Ok st
      else case vec_pop st of
             None \<Rightarrow> Panic
           | Some (item, st') \<Rightarrow> Ok (insert_at (n - depth - 1) item st'))"

definition stack_to_bytes :: "('pk, 'sk, 'com) crypto \<Rightarrow> ('pk, 'sk, 'com) exec_stack \<Rightarrow> bytes" where
  "stack_to_bytes C st = fold (\<lambda>item bs. bs @ item_to_bytes C item) st []"

function stack_from_bytes_loop ::
  "('pk, 'sk, 'com) crypto \<Rightarrow> ('pk, 'sk, 'com) exec_stack \<Rightarrow> bytes \<Rightarrow>
   (script_error, ('pk, 'sk, 'com) exec_stack) outcome" where
  "stack_from_bytes_loop C st byte_str =
     (if byte_str = [] then Ok st
      else case item_read_next C byte_str of
             Some (item, b) \<Rightarrow> and_then (push item st) (\<lambda>st'. stack_from_bytes_loop C st' b)
           | None \<Rightarrow> Err InvalidInput)"
  by pat_completeness auto
termination
  by (relation "measure (\<lambda>(C, st, bs). length bs)") (auto dest: item_read_next_shorter)

declare stack_from_bytes_loop.simps [simp del]

definition stack_from_bytes ::
  "('pk, 'sk, 'com) crypto \<Rightarrow> bytes \<Rightarrow> (script_error, ('pk, 'sk, 'com) exec_stack) outcome" where
  "stack_from_bytes C bs = stack_from_bytes_loop C [] bs"

text \<open>
  The Borsh encoding writes the length as a variable-length integer, then the bytes. The decoder allocates
  \<open>Vec::with_capacity(len)\<close> before it reads: the standard library panics when the capacity exceeds
  \<open>isize::MAX\<close> bytes.
\<close>

datatype io_error = VarintError | UnexpectedEof | InvalidInput_Kind script_error | InvalidData_Kind script_error

definition read_sized_bytes :: "('pk, 'sk, 'com) crypto \<Rightarrow> bytes \<Rightarrow> (io_error, bytes \<times> bytes) outcome" where
  "read_sized_bytes C buf =
     (case usize_read_varint C buf of
        None \<Rightarrow> Err VarintError
      | Some (len, rest) \<Rightarrow>
          if len > ISIZE_MAX then Panic
          else if length rest < len then Err UnexpectedEof
          else Ok (take len rest, drop len rest))"

fun map_err :: "('e \<Rightarrow> 'f) \<Rightarrow> ('e, 'a) outcome \<Rightarrow> ('f, 'a) outcome" where
  "map_err f (Ok a) = Ok a"
| "map_err f (Err e) = Err (f e)"
| "map_err f Panic = Panic"

definition stack_borsh_serialize :: "('pk, 'sk, 'com) crypto \<Rightarrow> ('pk, 'sk, 'com) exec_stack \<Rightarrow> bytes" where
  "stack_borsh_serialize C st =
     (let bs = stack_to_bytes C st in usize_write_varint C (length bs) @ bs)"

definition stack_borsh_deserialize ::
  "('pk, 'sk, 'com) crypto \<Rightarrow> bytes \<Rightarrow> (io_error, ('pk, 'sk, 'com) exec_stack \<times> bytes) outcome" where
  "stack_borsh_deserialize C buf =
     and_then (read_sized_bytes C buf) (\<lambda>(data, rest).
     and_then (map_err InvalidInput_Kind (stack_from_bytes C data)) (\<lambda>st. Ok (st, rest)))"

subsection \<open>Facts about the operations\<close>

lemma push_Ok: "push it st = Ok st' \<longleftrightarrow> length st < MAX_STACK_SIZE \<and> st' = st @ [it]"
  by (auto simp: push_def)

lemma push_no_panic [simp]: "push it st \<noteq> Panic"
  by (simp add: push_def)

lemma pop_or_underflow_Ok: "pop_or_underflow st = Ok (it, st') \<longleftrightarrow> st = st' @ [it]"
  by (simp add: pop_or_underflow_def outcome_simps vec_pop_Some)

lemma pop_or_underflow_snoc [simp]: "pop_or_underflow (st @ [it]) = Ok (it, st)"
  by (simp add: pop_or_underflow_Ok)

lemma pop_or_underflow_Nil [simp]: "pop_or_underflow [] = Err StackUnderflow"
  by (simp add: pop_or_underflow_def)

lemma pop_or_underflow_no_panic [simp]: "pop_or_underflow st \<noteq> Panic"
  by (simp add: pop_or_underflow_def outcome_simps)

lemma pop_into_number_Ok:
  "pop_into_number f st = Ok (v, st') \<longleftrightarrow> (\<exists>n. st = st' @ [Number n] \<and> f n = Some v)"
  by (cases st rule: rev_cases)
    (auto simp: pop_into_number_def split: stack_item.splits option.splits)

lemma pop_into_number_no_panic [simp]: "pop_into_number f st \<noteq> Panic"
  by (auto simp: pop_into_number_def outcome_simps split: stack_item.splits option.splits)

lemma pop_num_items_Ok:
  "pop_num_items n st = Ok (items, st') \<longleftrightarrow> st = st' @ items \<and> length items = n"
  by (auto simp: pop_num_items_def Let_def)

lemma pop_num_items_no_panic [simp]: "pop_num_items n st \<noteq> Panic"
  by (simp add: pop_num_items_def Let_def)

lemma push_down_no_panic [simp]: "push_down d st \<noteq> Panic"
  by (auto simp: push_down_def Let_def split: option.splits)

lemma push_down_spec:
  "push_down d (base @ mid @ [it]) = Ok (base @ it # mid)" if "length mid = d"
proof (cases "d = 0")
  case True
  with that show ?thesis by (simp add: push_down_def)
next
  case False
  have "vec_pop (base @ mid @ [it]) = Some (it, base @ mid)"
    using vec_pop_snoc [of "base @ mid" it] by simp
  with that False show ?thesis by (simp add: push_down_def insert_at_def)
qed

lemma push_down_length: "push_down d st = Ok st' \<Longrightarrow> length st' = length st"
  by (auto simp: push_down_def Let_def vec_pop_Some split: if_splits option.splits)

lemma push_down_set: "push_down d st = Ok st' \<Longrightarrow> set st' = set st"
  by (auto simp: push_down_def Let_def vec_pop_Some split: if_splits option.splits)

subsection \<open>The variant check of \<open>Or\<close>\<close>

definition variant_count :: "nat \<Rightarrow> ('pk, 'sk, 'com) stack_item list \<Rightarrow> nat" where
  "variant_count i items = length (filter (\<lambda>it. variant_index it = i) items)"

lemma variant_index_less [simp]: "variant_index it < 6"
  by (cases it) auto

lemma variant_count_le: "variant_count i items \<le> length items"
  by (simp add: variant_count_def)

lemma unat_u8_Suc:
  assumes "(c :: u8) \<noteq> 255"
  shows "unat (c + 1) = Suc (unat c)"
proof -
  have "unat c \<noteq> 255" using assms word_unat_eq_iff [of c 255] by simp
  moreover have "unat c < 256" using unsigned_less [of c] by simp
  ultimately have "unat c + unat (1 :: u8) < 2 ^ LENGTH(8)" by simp
  then have "unat (c + 1) = unat c + unat (1 :: u8)" by (rule unat_add_lem [THEN iffD1])
  then show ?thesis by simp
qed

lemma counter_Ok:
  assumes "length cs = 6" and "unat (cs ! variant_index it) < 255"
  shows "\<exists>cs'. counter cs it = Ok cs' \<and> length cs' = 6 \<and>
     (\<forall>i < 6. unat (cs' ! i) = unat (cs ! i) + variant_count i [it])"
proof -
  let ?i = "variant_index it"
  let ?cs' = "cs[?i := cs ! ?i + 1]"
  have ne: "cs ! ?i \<noteq> 255" using assms(2) by auto
  have "unat (?cs' ! i) = unat (cs ! i) + variant_count i [it]" if "i < 6" for i
    using ne that assms(1) by (auto simp: nth_list_update variant_count_def unat_u8_Suc)
  with ne assms(1) show ?thesis by (simp add: counter_def Let_def)
qed

lemma variant_count_Cons: "variant_count i (x # xs) = variant_count i [x] + variant_count i xs"
  by (simp add: variant_count_def)

lemma variant_count_self [simp]: "variant_count (variant_index x) [x] = 1"
  by (simp add: variant_count_def)

lemma count_items_Ok:
  assumes "length cs = 6" and "\<And>i. i < 6 \<Longrightarrow> unat (cs ! i) + variant_count i items \<le> 255"
  shows "\<exists>cs'. count_items cs items = Ok cs' \<and> length cs' = 6 \<and>
           (\<forall>i < 6. unat (cs' ! i) = unat (cs ! i) + variant_count i items)"
  using assms
proof (induction items arbitrary: cs)
  case Nil
  then show ?case by (simp add: variant_count_def)
next
  case (Cons x xs)
  have "unat (cs ! variant_index x) + variant_count (variant_index x) (x # xs) \<le> 255"
    by (rule Cons.prems(2)) simp
  then have lt: "unat (cs ! variant_index x) < 255"
    by (simp add: variant_count_Cons [of _ x xs])
  obtain cs1 where cs1: "counter cs x = Ok cs1" "length cs1 = 6"
      "\<And>i. i < 6 \<Longrightarrow> unat (cs1 ! i) = unat (cs ! i) + variant_count i [x]"
    using counter_Ok [OF Cons.prems(1) lt] by blast
  have "unat (cs1 ! i) + variant_count i xs \<le> 255" if "i < 6" for i
    using Cons.prems(2) [OF that] cs1(3) [OF that] by (simp add: variant_count_Cons [of i x xs])
  with Cons.IH [OF cs1(2)] obtain cs2 where "count_items cs1 xs = Ok cs2" "length cs2 = 6"
      "\<forall>i < 6. unat (cs2 ! i) = unat (cs1 ! i) + variant_count i xs"
    by blast
  with cs1 show ?case by (simp add: variant_count_Cons [of _ x xs])
qed

lemma count_positive_le_1:
  assumes "length cs = 6" and "i < 6" and "cs ! i > (0 :: u8)"
  shows "length (filter (\<lambda>c. c > 0) cs) > 1 \<longleftrightarrow> (\<exists>j < 6. j \<noteq> i \<and> cs ! j > 0)"
proof -
  let ?P = "{j. j < length cs \<and> cs ! j > 0}"
  have fin: "finite ?P" by simp
  have card: "length (filter (\<lambda>c. c > 0) cs) = card ?P"
    by (rule length_filter_conv_card)
  have i: "i \<in> ?P" using assms by simp
  show ?thesis
  proof
    assume "length (filter (\<lambda>c. c > 0) cs) > 1"
    with card have "card ?P > 1" by simp
    then have "\<not> ?P \<subseteq> {i}" using card_mono [of "{i}" ?P] by auto
    then show "\<exists>j < 6. j \<noteq> i \<and> cs ! j > 0" using assms(1) by auto
  next
    assume "\<exists>j < 6. j \<noteq> i \<and> cs ! j > 0"
    then obtain j where j: "j < 6" "j \<noteq> i" "cs ! j > 0" by blast
    then have "{i, j} \<subseteq> ?P" using i assms(1) by auto
    then have "card {i, j} \<le> card ?P" by (rule card_mono [OF fin])
    then show "length (filter (\<lambda>c. c > 0) cs) > 1" using j(2) card by simp
  qed
qed

text \<open>
  On a stack within its bound the variant counters cannot overflow: the check accepts exactly the stacks
  whose \<open>n + 1\<close> top items are of one variant, and its answer is membership of the lowest of them among
  the others.
\<close>

lemma pop_n_plus_one_contains_spec:
  assumes "length items + 1 \<le> 255"
  shows "pop_n_plus_one_contains (length items) (base @ it # items) =
     (if \<forall>x \<in> set items. variant_index x = variant_index it
      then Ok (it \<in> set items, base) else Err InvalidInput)"
proof -
  let ?v = "variant_index it"
  have cnt: "variant_count i items + variant_count i [it] \<le> 255" for i
    using assms variant_count_le [of i items] variant_count_le [of i "[it]"] by simp
  obtain cs where cs: "count_items (replicate 6 0) items = Ok cs" "length cs = 6"
      "\<And>i. i < 6 \<Longrightarrow> unat (cs ! i) = variant_count i items"
  proof -
    have "unat ((replicate 6 0 :: u8 list) ! i) + variant_count i items \<le> 255" if "i < 6" for i
      using cnt [of i] that by simp
    then have "\<exists>cs. count_items (replicate 6 0) items = Ok cs \<and> length cs = 6 \<and>
        (\<forall>i < 6. unat (cs ! i) = unat ((replicate 6 0 :: u8 list) ! i) + variant_count i items)"
      by (intro count_items_Ok) simp_all
    then show thesis using that by auto
  qed
  have lt: "unat (cs ! ?v) < 255" using cnt [of ?v] cs(3) [of ?v] by simp
  obtain cs' where cs': "counter cs it = Ok cs'" "length cs' = 6"
      "\<And>i. i < 6 \<Longrightarrow> unat (cs' ! i) = variant_count i items + variant_count i [it]"
    using counter_Ok [OF cs(2) lt] cs(3) by auto
  have pos: "cs' ! i > 0 \<longleftrightarrow> variant_count i items + variant_count i [it] > 0" if "i < 6" for i
    unfolding cs'(3) [OF that, symmetric] using unat_gt_0 [of "cs' ! i"] word_gt_0 [of "cs' ! i"] by auto
  have "length (filter (\<lambda>c. c > 0) cs') > 1 \<longleftrightarrow> (\<exists>j < 6. j \<noteq> ?v \<and> cs' ! j > 0)"
    by (rule count_positive_le_1) (use cs'(2) pos in simp_all)
  also have "\<dots> \<longleftrightarrow> (\<exists>x \<in> set items. variant_index x \<noteq> ?v)"
  proof
    assume "\<exists>j < 6. j \<noteq> ?v \<and> cs' ! j > 0"
    then obtain j where j: "j < 6" "j \<noteq> ?v" "cs' ! j > 0" by blast
    from pos [OF j(1)] j(2,3) show "\<exists>x \<in> set items. variant_index x \<noteq> ?v"
      by (auto simp: variant_count_def filter_empty_conv)
  next
    assume "\<exists>x \<in> set items. variant_index x \<noteq> ?v"
    then obtain x where x: "x \<in> set items" "variant_index x \<noteq> ?v" by blast
    then have "variant_count (variant_index x) items > 0"
      by (auto simp: variant_count_def filter_empty_conv)
    with x(2) pos [of "variant_index x"] show "\<exists>j < 6. j \<noteq> ?v \<and> cs' ! j > 0"
      by (intro exI [of _ "variant_index x"]) simp
  qed
  finally have many: "length (filter (\<lambda>c. c > 0) cs') > 1 \<longleftrightarrow> (\<exists>x \<in> set items. variant_index x \<noteq> ?v)" .
  have "pop_num_items (length items) (base @ it # items) = Ok (items, base @ [it])"
    by (simp add: pop_num_items_Ok)
  then have "pop_n_plus_one_contains (length items) (base @ it # items) =
      (if length (filter (\<lambda>c. c > 0) cs') > 1 then Err InvalidInput else Ok (it \<in> set items, base))"
    by (simp only: pop_n_plus_one_contains_def cs(1) cs'(1) and_then.simps prod.case
        pop_or_underflow_snoc Let_def)
  then show ?thesis unfolding many by simp
qed

lemma pop_n_plus_one_contains_short:
  "length st < n + 1 \<Longrightarrow> pop_n_plus_one_contains n st = Err StackUnderflow"
  by (cases "length st < n") (auto simp: pop_n_plus_one_contains_def pop_num_items_def Let_def)

lemma split_stack:
  assumes "n + 1 \<le> length st"
  obtains base it items where "st = base @ it # items" and "length items = n"
proof (rule that)
  let ?k = "length st - Suc n"
  show "st = take ?k st @ st ! ?k # drop (Suc ?k) st"
    using assms by (intro id_take_nth_drop) simp
  show "length (drop (Suc ?k) st) = n" using assms by simp
qed

lemma pop_n_plus_one_contains_cases:
  assumes "length st \<le> MAX_STACK_SIZE"
  obtains "pop_n_plus_one_contains n st = Err StackUnderflow"
  | "pop_n_plus_one_contains n st = Err InvalidInput"
  | base it items where "st = base @ it # items" "length items = n"
      "pop_n_plus_one_contains n st = Ok (it \<in> set items, base)"
proof (cases "length st < n + 1")
  case True
  then show thesis using that(1) pop_n_plus_one_contains_short by blast
next
  case False
  then obtain base it items where st: "st = base @ it # items" "length items = n"
    using split_stack [of n st] by (metis not_less)
  then have "length items + 1 \<le> 255" using assms by (simp add: MAX_STACK_SIZE_def)
  note spec = pop_n_plus_one_contains_spec [OF this, of base it]
  show thesis
  proof (cases "\<forall>x \<in> set items. variant_index x = variant_index it")
    case True
    with spec st have "pop_n_plus_one_contains n st = Ok (it \<in> set items, base)" by simp
    with st show thesis by (rule that(3))
  next
    case False
    with spec st have "pop_n_plus_one_contains n st = Err InvalidInput" by simp
    then show thesis by (rule that(2))
  qed
qed

subsection \<open>The stack as a byte stream\<close>

interpretation item_codec: prefix_codec "item_to_bytes C" "\<lambda>bs. ok_or InvalidInput (item_read_next C bs)"
  "\<lambda>it. crypto_laws C \<and> item_wf it" for C
  by unfold_locales (auto simp: item_read_next_to_bytes outcome_simps dest: item_read_next_shorter)

lemma stack_to_bytes_concat: "stack_to_bytes C st = concat (map (item_to_bytes C) st)"
proof -
  have "fold (\<lambda>item bs. bs @ item_to_bytes C item) st acc = acc @ concat (map (item_to_bytes C) st)" for acc
    by (induction st arbitrary: acc) auto
  then show ?thesis by (simp add: stack_to_bytes_def)
qed

lemma item_to_bytes_nonempty [simp]: "item_to_bytes C it \<noteq> []"
  by (cases it) auto

lemma stack_from_bytes_loop_concat:
  assumes "crypto_laws C" and "list_all item_wf items" and "length st \<le> MAX_STACK_SIZE"
  shows "stack_from_bytes_loop C st (concat (map (item_to_bytes C) items)) =
     (if length st + length items \<le> MAX_STACK_SIZE then Ok (st @ items) else Err StackOverflow)"
  using assms(2,3)
proof (induction items arbitrary: st)
  case Nil
  then show ?case by (simp add: stack_from_bytes_loop.simps)
next
  case (Cons it items)
  have read: "item_read_next C (item_to_bytes C it @ concat (map (item_to_bytes C) items)) =
      Some (it, concat (map (item_to_bytes C) items))"
    using Cons.prems assms(1) by (simp add: item_read_next_to_bytes)
  show ?case
  proof (cases "length st < MAX_STACK_SIZE")
    case True
    then have "stack_from_bytes_loop C (st @ [it]) (concat (map (item_to_bytes C) items)) =
        (if length (st @ [it]) + length items \<le> MAX_STACK_SIZE then Ok ((st @ [it]) @ items)
         else Err StackOverflow)"
      using Cons.prems by (intro Cons.IH) simp_all
    with True read show ?thesis
      by (simp add: stack_from_bytes_loop.simps [of C st] push_def)
  next
    case False
    with read Cons.prems show ?thesis
      by (simp add: stack_from_bytes_loop.simps [of C st] push_def)
  qed
qed

lemma stack_from_bytes_to_bytes:
  assumes "crypto_laws C" and "list_all item_wf st"
  shows "stack_from_bytes C (stack_to_bytes C st) =
     (if length st \<le> MAX_STACK_SIZE then Ok st else Err StackOverflow)"
  using stack_from_bytes_loop_concat [OF assms, of "[]"]
  by (simp add: stack_from_bytes_def stack_to_bytes_concat)

lemma stack_from_bytes_loop_invariant:
  assumes "stack_from_bytes_loop C st bs = Ok st'" and "list_all item_wf st" "length st \<le> MAX_STACK_SIZE"
  shows "list_all item_wf st' \<and> length st' \<le> MAX_STACK_SIZE"
  using assms
proof (induction C st bs rule: stack_from_bytes_loop.induct)
  case (1 C st bs)
  show ?case
  proof (cases "bs = []")
    case True
    with 1 show ?thesis by (simp add: stack_from_bytes_loop.simps)
  next
    case False
    with "1.prems"(1) obtain item b where
      read: "item_read_next C bs = Some (item, b)" and lt: "length st < MAX_STACK_SIZE"
      and rec: "stack_from_bytes_loop C (st @ [item]) b = Ok st'"
      by (auto simp: stack_from_bytes_loop.simps [of C st bs] outcome_simps push_Ok split: option.splits)
    have "push item st = Ok (st @ [item])" using lt by (simp add: push_Ok)
    from "1.IH" [OF False read refl this rec] lt "1.prems"(2) item_read_next_wf [OF read]
    show ?thesis by simp
  qed
qed

lemma stack_from_bytes_loop_no_panic: "stack_from_bytes_loop C st bs \<noteq> Panic"
proof (induction C st bs rule: stack_from_bytes_loop.induct)
  case (1 C st bs)
  then show ?case
    by (subst stack_from_bytes_loop.simps) (auto simp: outcome_simps push_Ok split: option.splits)
qed

lemma read_sized_bytes_write:
  assumes "crypto_laws C" and "length bs \<le> ISIZE_MAX"
  shows "read_sized_bytes C (usize_write_varint C (length bs) @ bs @ rest) = Ok (bs, rest)"
  using assms by (simp add: read_sized_bytes_def crypto_simps ISIZE_MAX_def)

lemma item_to_bytes_length:
  assumes "crypto_laws C" and "item_wf it"
  shows "length (item_to_bytes C it) \<le> 65"
  using assms by (cases it) (simp_all add: crypto_simps)

lemma stack_to_bytes_length:
  assumes "crypto_laws C" and "list_all item_wf st"
  shows "length (stack_to_bytes C st) \<le> 65 * length st"
  using assms(2) unfolding stack_to_bytes_concat
  by (induction st) (auto dest: item_to_bytes_length [OF assms(1)])

subsection \<open>Properties\<close>

text \<open>
  Serialising a well-formed stack and parsing the bytes gives the stack back when it has at most 255
  items, and the \<open>StackOverflow\<close> error, with nothing accepted, when it has more.
\<close>

theorem stack_roundtrip:
  assumes "crypto_laws C" and "list_all item_wf st"
  shows "stack_from_bytes C (stack_to_bytes C st) =
     (if length st \<le> MAX_STACK_SIZE then Ok st else Err StackOverflow)"
  by (rule stack_from_bytes_to_bytes [OF assms])

theorem stack_roundtrip_witness:
  "stack_from_bytes sample_crypto (stack_to_bytes sample_crypto [Number 5, Hash (replicate 32 9), Signature (1, 2)]) =
     Ok [Number 5, Hash (replicate 32 9), Signature (1, 2)]"
  using stack_roundtrip [OF sample_crypto_laws, of "[Number 5, Hash (replicate 32 9), Signature (1, 2)]"]
  by (simp add: MAX_STACK_SIZE_def)

text \<open>
  Parsing untrusted bytes as a stack never panics, and every stack it accepts has at most 255 items,
  each well-formed.
\<close>

theorem stack_parse_safe:
  "stack_from_bytes C bs \<noteq> Panic \<and>
   (\<forall>st. stack_from_bytes C bs = Ok st \<longrightarrow> length st \<le> MAX_STACK_SIZE \<and> list_all item_wf st)"
  using stack_from_bytes_loop_invariant [of C "[]" bs] stack_from_bytes_loop_no_panic [of C "[]" bs]
  by (auto simp: stack_from_bytes_def)

theorem stack_parse_safe_witness:
  "stack_from_bytes sample_crypto (stack_to_bytes sample_crypto [Number 7]) = Ok [Number 7] \<and>
   length [Number 7 :: (u8, u8, u8) stack_item] \<le> MAX_STACK_SIZE"
proof -
  have *: "stack_from_bytes sample_crypto (stack_to_bytes sample_crypto [Number 7]) = Ok [Number 7]"
    by (simp add: stack_from_bytes_to_bytes sample_crypto_laws MAX_STACK_SIZE_def)
  then show ?thesis
    using stack_parse_safe [of sample_crypto "stack_to_bytes sample_crypto [Number 7]"] by blast
qed

text \<open>
  The Borsh encoding of a stack of at most 255 well-formed items is read back, and the reader stops
  exactly at the end of the encoding, whatever follows it in the buffer.
\<close>

theorem stack_borsh_roundtrip:
  assumes "crypto_laws C" and "list_all item_wf st" and "length st \<le> MAX_STACK_SIZE"
  shows "stack_borsh_deserialize C (stack_borsh_serialize C st @ rest) = Ok (st, rest)"
proof -
  have "length (stack_to_bytes C st) \<le> ISIZE_MAX"
    using stack_to_bytes_length [OF assms(1,2)] assms(3) by (simp add: ISIZE_MAX_def MAX_STACK_SIZE_def)
  with assms show ?thesis
    by (simp add: stack_borsh_deserialize_def stack_borsh_serialize_def Let_def read_sized_bytes_write
        stack_from_bytes_to_bytes)
qed

theorem stack_borsh_roundtrip_witness:
  "stack_borsh_deserialize sample_crypto (stack_borsh_serialize sample_crypto [Number 1, PublicKey 3] @ [42]) =
     Ok ([Number 1, PublicKey 3], [42])"
  by (rule stack_borsh_roundtrip) (simp_all add: sample_crypto_laws MAX_STACK_SIZE_def)

text \<open>
  A declared length above \<open>isize::MAX\<close> makes the Borsh reader of a stack panic in
  \<open>Vec::with_capacity\<close>, before a single byte of the body is read: a short hostile message aborts the
  process instead of being rejected with an error.
\<close>

theorem stack_borsh_hostile_length_panics:
  assumes "crypto_laws C" and "ISIZE_MAX < n" and "n < 2 ^ 64"
  shows "stack_borsh_deserialize C (usize_write_varint C n @ rest) = Panic"
  using assms by (simp add: stack_borsh_deserialize_def read_sized_bytes_def crypto_simps)

theorem stack_borsh_hostile_length_panics_witness:
  "stack_borsh_deserialize sample_crypto (usize_write_varint sample_crypto (2 ^ 63) @ []) = Panic"
  by (rule stack_borsh_hostile_length_panics) (simp_all add: sample_crypto_laws ISIZE_MAX_def)

text \<open>
  \<open>pop_n_plus_one_contains\<close> on a stack within its bound: with fewer than \<open>n + 1\<close> items it
  underflows; otherwise it removes the top \<open>n + 1\<close> items, rejects them when they are not all of one
  variant, and answers whether the lowest of them occurs among the \<open>n\<close> above it. Its \<open>u8\<close> counters
  cannot overflow.
\<close>

theorem pop_n_plus_one_contains_correct:
  assumes "length st \<le> MAX_STACK_SIZE"
  shows "pop_n_plus_one_contains n st =
     (if length st < n + 1 then Err StackUnderflow
      else let base = take (length st - (n + 1)) st;
               it = st ! (length st - (n + 1));
               items = drop (length st - n) st in
        if \<forall>x \<in> set items. variant_index x = variant_index it then Ok (it \<in> set items, base)
        else Err InvalidInput)"
proof (cases "length st < n + 1")
  case True
  then show ?thesis by (simp add: pop_n_plus_one_contains_short)
next
  case False
  then obtain base it items where st: "st = base @ it # items" "length items = n"
    using split_stack [of n st] by (metis not_less)
  then have "length items + 1 \<le> 255" using assms by (simp add: MAX_STACK_SIZE_def)
  from pop_n_plus_one_contains_spec [OF this, of base it] st show ?thesis
    by (simp add: Let_def nth_append)
qed

theorem pop_n_plus_one_contains_correct_witness:
  "pop_n_plus_one_contains 2 [Number 8, Number 4, Number 3, Number 4 :: (u8, u8, u8) stack_item] = Ok (True, [Number 8])"
  using pop_n_plus_one_contains_correct [of "[Number 8, Number 4, Number 3, Number 4 :: (u8, u8, u8) stack_item]" 2]
  by (simp add: MAX_STACK_SIZE_def Let_def numeral_3_eq_3 eval_nat_numeral)

end
