(* ===== verification/Script_Opcodes.thy ===== *)
theory Script_Opcodes
  imports Script_Stack
begin

text \<open>
  The instructions of TariScript and their byte code:
  \<open>src/infrastructure/tari_script/src/op_codes.rs\<close>, and the byte and Borsh encodings of a whole script
  from \<open>script.rs\<close>. The byte arrays carried by an instruction are lists; \<open>opcode_wf\<close> says that they have
  the array's length and that a multi-signature instruction carries as many keys as its \<open>n\<close> announces.
\<close>

subsection \<open>Instructions\<close>

datatype 'pk opcode =
    CheckHeightVerify u64
  | CheckHeight u64
  | CompareHeightVerify
  | CompareHeight
  | Nop
  | PushZero
  | PushOne
  | PushHash bytes
  | PushInt i64
  | PushPubKey 'pk
  | Drop
  | Dup
  | RevRot
  | GeZero
  | GtZero
  | LeZero
  | LtZero
  | Add
  | Sub
  | Equal
  | EqualVerify
  | Or u8
  | OrVerify u8
  | HashBlake256
  | HashSha256
  | HashSha3
  | CheckSig bytes
  | CheckSigVerify bytes
  | CheckMultiSig u8 u8 "'pk list" bytes
  | CheckMultiSigVerify u8 u8 "'pk list" bytes
  | CheckMultiSigVerifyAggregatePubKey u8 u8 "'pk list" bytes
  | ToRistrettoPoint
  | Return
  | IfThen
  | Else
  | EndIf

datatype opcode_version = V0

definition get_version :: "'pk opcode \<Rightarrow> opcode_version" where
  "get_version op = V0"

abbreviation OP_CHECK_HEIGHT_VERIFY :: u8 where "OP_CHECK_HEIGHT_VERIFY \<equiv> 0x66"
abbreviation OP_CHECK_HEIGHT :: u8 where "OP_CHECK_HEIGHT \<equiv> 0x67"
abbreviation OP_COMPARE_HEIGHT_VERIFY :: u8 where "OP_COMPARE_HEIGHT_VERIFY \<equiv> 0x68"
abbreviation OP_COMPARE_HEIGHT :: u8 where "OP_COMPARE_HEIGHT \<equiv> 0x69"
abbreviation OP_DROP :: u8 where "OP_DROP \<equiv> 0x70"
abbreviation OP_DUP :: u8 where "OP_DUP \<equiv> 0x71"
abbreviation OP_REV_ROT :: u8 where "OP_REV_ROT \<equiv> 0x72"
abbreviation OP_PUSH_HASH :: u8 where "OP_PUSH_HASH \<equiv> 0x7a"
abbreviation OP_PUSH_ZERO :: u8 where "OP_PUSH_ZERO \<equiv> 0x7b"
abbreviation OP_NOP :: u8 where "OP_NOP \<equiv> 0x73"
abbreviation OP_PUSH_ONE :: u8 where "OP_PUSH_ONE \<equiv> 0x7c"
abbreviation OP_PUSH_INT :: u8 where "OP_PUSH_INT \<equiv> 0x7d"
abbreviation OP_PUSH_PUBKEY :: u8 where "OP_PUSH_PUBKEY \<equiv> 0x7e"
abbreviation OP_EQUAL :: u8 where "OP_EQUAL \<equiv> 0x80"
abbreviation OP_EQUAL_VERIFY :: u8 where "OP_EQUAL_VERIFY \<equiv> 0x81"
abbreviation OP_ADD :: u8 where "OP_ADD \<equiv> 0x93"
abbreviation OP_SUB :: u8 where "OP_SUB \<equiv> 0x94"
abbreviation OP_GE_ZERO :: u8 where "OP_GE_ZERO \<equiv> 0x82"
abbreviation OP_GT_ZERO :: u8 where "OP_GT_ZERO \<equiv> 0x83"
abbreviation OP_LE_ZERO :: u8 where "OP_LE_ZERO \<equiv> 0x84"
abbreviation OP_LT_ZERO :: u8 where "OP_LT_ZERO \<equiv> 0x85"
abbreviation OP_OR_VERIFY :: u8 where "OP_OR_VERIFY \<equiv> 0x64"
abbreviation OP_OR :: u8 where "OP_OR \<equiv> 0x65"
abbreviation OP_CHECK_SIG :: u8 where "OP_CHECK_SIG \<equiv> 0xac"
abbreviation OP_CHECK_SIG_VERIFY :: u8 where "OP_CHECK_SIG_VERIFY \<equiv> 0xad"
abbreviation OP_CHECK_MULTI_SIG :: u8 where "OP_CHECK_MULTI_SIG \<equiv> 0xae"
abbreviation OP_CHECK_MULTI_SIG_VERIFY :: u8 where "OP_CHECK_MULTI_SIG_VERIFY \<equiv> 0xaf"
abbreviation OP_HASH_BLAKE256 :: u8 where "OP_HASH_BLAKE256 \<equiv> 0xb0"
abbreviation OP_HASH_SHA256 :: u8 where "OP_HASH_SHA256 \<equiv> 0xb1"
abbreviation OP_HASH_SHA3 :: u8 where "OP_HASH_SHA3 \<equiv> 0xb2"
abbreviation OP_TO_RISTRETTO_POINT :: u8 where "OP_TO_RISTRETTO_POINT \<equiv> 0xb3"
abbreviation OP_CHECK_MULTI_SIG_VERIFY_AGGREGATE_PUB_KEY :: u8 where
  "OP_CHECK_MULTI_SIG_VERIFY_AGGREGATE_PUB_KEY \<equiv> 0xb4"
abbreviation OP_RETURN :: u8 where "OP_RETURN \<equiv> 0x60"
abbreviation OP_IF_THEN :: u8 where "OP_IF_THEN \<equiv> 0x61"
abbreviation OP_ELSE :: u8 where "OP_ELSE \<equiv> 0x62"
abbreviation OP_END_IF :: u8 where "OP_END_IF \<equiv> 0x63"

fun opcode_wf :: "'pk opcode \<Rightarrow> bool" where
  "opcode_wf (PushHash h) = (length h = 32)"
| "opcode_wf (CheckSig m) = (length m = 32)"
| "opcode_wf (CheckSigVerify m) = (length m = 32)"
| "opcode_wf (CheckMultiSig m n ks msg) = (length ks = unat n \<and> length msg = 32)"
| "opcode_wf (CheckMultiSigVerify m n ks msg) = (length ks = unat n \<and> length msg = 32)"
| "opcode_wf (CheckMultiSigVerifyAggregatePubKey m n ks msg) = (length ks = unat n \<and> length msg = 32)"
| "opcode_wf _ = True"

subsection \<open>From instructions to bytes\<close>

definition multisig_bytes :: "('pk, 'sk, 'com) crypto \<Rightarrow> u8 \<Rightarrow> u8 \<Rightarrow> u8 \<Rightarrow> 'pk list \<Rightarrow> bytes \<Rightarrow> bytes" where
  "multisig_bytes C code m n public_keys msg =
     [code, m, n] @ concat (map (pk_as_bytes C) public_keys) @ msg"

fun opcode_to_bytes :: "('pk, 'sk, 'com) crypto \<Rightarrow> 'pk opcode \<Rightarrow> bytes" where
  "opcode_to_bytes C (CheckHeightVerify height) = OP_CHECK_HEIGHT_VERIFY # u64_encode_var C height"
| "opcode_to_bytes C (CheckHeight height) = OP_CHECK_HEIGHT # u64_encode_var C height"
| "opcode_to_bytes C CompareHeightVerify = [OP_COMPARE_HEIGHT_VERIFY]"
| "opcode_to_bytes C CompareHeight = [OP_COMPARE_HEIGHT]"
| "opcode_to_bytes C Nop = [OP_NOP]"
| "opcode_to_bytes C PushZero = [OP_PUSH_ZERO]"
| "opcode_to_bytes C PushOne = [OP_PUSH_ONE]"
| "opcode_to_bytes C (PushHash h) = OP_PUSH_HASH # h"
| "opcode_to_bytes C (PushInt n) = OP_PUSH_INT # i64_encode_var C n"
| "opcode_to_bytes C (PushPubKey p) = OP_PUSH_PUBKEY # pk_as_bytes C p"
| "opcode_to_bytes C Drop = [OP_DROP]"
| "opcode_to_bytes C Dup = [OP_DUP]"
| "opcode_to_bytes C RevRot = [OP_REV_ROT]"
| "opcode_to_bytes C GeZero = [OP_GE_ZERO]"
| "opcode_to_bytes C GtZero = [OP_GT_ZERO]"
| "opcode_to_bytes C LeZero = [OP_LE_ZERO]"
| "opcode_to_bytes C LtZero = [OP_LT_ZERO]"
| "opcode_to_bytes C Add = [OP_ADD]"
| "opcode_to_bytes C Sub = [OP_SUB]"
| "opcode_to_bytes C Equal = [OP_EQUAL]"
| "opcode_to_bytes C EqualVerify = [OP_EQUAL_VERIFY]"
| "opcode_to_bytes C (Or n) = [OP_OR, n]"
| "opcode_to_bytes C (OrVerify n) = [OP_OR_VERIFY, n]"
| "opcode_to_bytes C HashBlake256 = [OP_HASH_BLAKE256]"
| "opcode_to_bytes C HashSha256 = [OP_HASH_SHA256]"
| "opcode_to_bytes C HashSha3 = [OP_HASH_SHA3]"
| "opcode_to_bytes C (CheckSig msg) = OP_CHECK_SIG # msg"
| "opcode_to_bytes C (CheckSigVerify msg) = OP_CHECK_SIG_VERIFY # msg"
| "opcode_to_bytes C (CheckMultiSig m n ks msg) = multisig_bytes C OP_CHECK_MULTI_SIG m n ks msg"
| "opcode_to_bytes C (CheckMultiSigVerify m n ks msg) =
     multisig_bytes C OP_CHECK_MULTI_SIG_VERIFY m n ks msg"
| "opcode_to_bytes C (CheckMultiSigVerifyAggregatePubKey m n ks msg) =
     multisig_bytes C OP_CHECK_MULTI_SIG_VERIFY_AGGREGATE_PUB_KEY m n ks msg"
| "opcode_to_bytes C ToRistrettoPoint = [OP_TO_RISTRETTO_POINT]"
| "opcode_to_bytes C Return = [OP_RETURN]"
| "opcode_to_bytes C IfThen = [OP_IF_THEN]"
| "opcode_to_bytes C Else = [OP_ELSE]"
| "opcode_to_bytes C EndIf = [OP_END_IF]"

subsection \<open>From bytes to instructions\<close>

function chunks_exact :: "nat \<Rightarrow> 'a list \<Rightarrow> 'a list list" where
  "chunks_exact n xs =
     (if n = 0 \<or> length xs < n then [] else take n xs # chunks_exact n (drop n xs))"
  by pat_completeness auto
termination
  by (relation "measure (\<lambda>(n, xs). length xs)") auto

declare chunks_exact.simps [simp del]

fun collect_pubkeys :: "('pk, 'sk, 'com) crypto \<Rightarrow> bytes list \<Rightarrow> (script_error, 'pk list) outcome" where
  "collect_pubkeys C [] = Ok []"
| "collect_pubkeys C (c # cs) =
     and_then (ok_or InvalidData (pk_from_bytes C c)) (\<lambda>k. map_ok (Cons k) (collect_pubkeys C cs))"

definition PUBLIC_KEY_LENGTH :: nat where "PUBLIC_KEY_LENGTH = 32"
definition MESSAGE_LENGTH :: nat where "MESSAGE_LENGTH = 32"

definition slice_to_vec_pubkeys ::
  "('pk, 'sk, 'com) crypto \<Rightarrow> bytes \<Rightarrow> nat \<Rightarrow> (script_error, 'pk list) outcome" where
  "slice_to_vec_pubkeys C sl num =
     (if length sl < num * PUBLIC_KEY_LENGTH then Err InvalidData
      else collect_pubkeys C (take num (chunks_exact PUBLIC_KEY_LENGTH sl)))"

definition read_multisig_args ::
  "('pk, 'sk, 'com) crypto \<Rightarrow> bytes \<Rightarrow> (script_error, u8 \<times> u8 \<times> 'pk list \<times> bytes \<times> nat) outcome" where
  "read_multisig_args C bs =
     (if length bs < 3 then Err InvalidData
      else let m = bs ! 1; n = bs ! 2; num = unat n;
               len = 3 + num * PUBLIC_KEY_LENGTH; en = len + MESSAGE_LENGTH in
        if length bs < en then Err InvalidData
        else and_then (slice_to_vec_pubkeys C (take (len - 3) (drop 3 bs)) num) (\<lambda>keys.
               Ok (m, n, keys, take (en - len) (drop len bs), en)))"

definition read_32 :: "bytes \<Rightarrow> (script_error, bytes \<times> bytes) outcome" where
  "read_32 bs = (if length bs < 33 then Err InvalidData else Ok (take 32 (drop 1 bs), drop 33 bs))"

definition opcode_read_next ::
  "('pk, 'sk, 'com) crypto \<Rightarrow> bytes \<Rightarrow> (script_error, 'pk opcode \<times> bytes) outcome" where
  "opcode_read_next C bs =
     (case bs of [] \<Rightarrow> Err InvalidOpcode | code # tl_bs \<Rightarrow>
        if code = OP_CHECK_HEIGHT_VERIFY then
          and_then (ok_or InvalidData (u64_decode_var C tl_bs)) (\<lambda>(height, sz).
            map_ok (Pair (CheckHeightVerify height)) (slice_from (sz + 1) bs))
        else if code = OP_CHECK_HEIGHT then
          and_then (ok_or InvalidData (u64_decode_var C tl_bs)) (\<lambda>(height, sz).
            map_ok (Pair (CheckHeight height)) (slice_from (sz + 1) bs))
        else if code = OP_COMPARE_HEIGHT_VERIFY then Ok (CompareHeightVerify, tl_bs)
        else if code = OP_COMPARE_HEIGHT then Ok (CompareHeight, tl_bs)
        else if code = OP_NOP then Ok (Nop, tl_bs)
        else if code = OP_PUSH_ZERO then Ok (PushZero, tl_bs)
        else if code = OP_PUSH_ONE then Ok (PushOne, tl_bs)
        else if code = OP_PUSH_HASH then
          and_then (read_32 bs) (\<lambda>(h, rest). Ok (PushHash h, rest))
        else if code = OP_PUSH_INT then
          and_then (ok_or InvalidData (i64_decode_var C tl_bs)) (\<lambda>(n, sz).
            map_ok (Pair (PushInt n)) (slice_from (sz + 1) bs))
        else if code = OP_PUSH_PUBKEY then
          and_then (read_32 bs) (\<lambda>(b, rest).
          and_then (ok_or InvalidData (pk_from_bytes C b)) (\<lambda>p. Ok (PushPubKey p, rest)))
        else if code = OP_DROP then Ok (Drop, tl_bs)
        else if code = OP_DUP then Ok (Dup, tl_bs)
        else if code = OP_REV_ROT then Ok (RevRot, tl_bs)
        else if code = OP_GE_ZERO then Ok (GeZero, tl_bs)
        else if code = OP_GT_ZERO then Ok (GtZero, tl_bs)
        else if code = OP_LE_ZERO then Ok (LeZero, tl_bs)
        else if code = OP_LT_ZERO then Ok (LtZero, tl_bs)
        else if code = OP_ADD then Ok (Add, tl_bs)
        else if code = OP_SUB then Ok (Sub, tl_bs)
        else if code = OP_EQUAL then Ok (Equal, tl_bs)
        else if code = OP_EQUAL_VERIFY then Ok (EqualVerify, tl_bs)
        else if code = OP_OR then
          (case tl_bs of [] \<Rightarrow> Err InvalidData | n # rest \<Rightarrow> Ok (Or n, rest))
        else if code = OP_OR_VERIFY then
          (case tl_bs of [] \<Rightarrow> Err InvalidData | n # rest \<Rightarrow> Ok (OrVerify n, rest))
        else if code = OP_HASH_BLAKE256 then Ok (HashBlake256, tl_bs)
        else if code = OP_HASH_SHA256 then Ok (HashSha256, tl_bs)
        else if code = OP_HASH_SHA3 then Ok (HashSha3, tl_bs)
        else if code = OP_CHECK_SIG then
          and_then (read_32 bs) (\<lambda>(msg, rest). Ok (CheckSig msg, rest))
        else if code = OP_CHECK_SIG_VERIFY then
          and_then (read_32 bs) (\<lambda>(msg, rest). Ok (CheckSigVerify msg, rest))
        else if code = OP_CHECK_MULTI_SIG then
          and_then (read_multisig_args C bs) (\<lambda>(m, n, keys, msg, en).
            Ok (CheckMultiSig m n keys msg, drop en bs))
        else if code = OP_CHECK_MULTI_SIG_VERIFY then
          and_then (read_multisig_args C bs) (\<lambda>(m, n, keys, msg, en).
            Ok (CheckMultiSigVerify m n keys msg, drop en bs))
        else if code = OP_CHECK_MULTI_SIG_VERIFY_AGGREGATE_PUB_KEY then
          and_then (read_multisig_args C bs) (\<lambda>(m, n, keys, msg, en).
            Ok (CheckMultiSigVerifyAggregatePubKey m n keys msg, drop en bs))
        else if code = OP_TO_RISTRETTO_POINT then Ok (ToRistrettoPoint, tl_bs)
        else if code = OP_RETURN then Ok (Return, tl_bs)
        else if code = OP_IF_THEN then Ok (IfThen, tl_bs)
        else if code = OP_ELSE then Ok (Else, tl_bs)
        else if code = OP_END_IF then Ok (EndIf, tl_bs)
        else Err InvalidOpcode)"

lemma read_32_Ok: "read_32 bs = Ok (b, rest) \<Longrightarrow> length b = 32 \<and> length rest + 33 = length bs"
  by (auto simp: read_32_def split: if_splits)

lemma read_multisig_args_Ok:
  "read_multisig_args C bs = Ok (m, n, keys, msg, en) \<Longrightarrow> 3 < en \<and> en \<le> length bs \<and> length msg = 32"
  by (auto simp: read_multisig_args_def Let_def outcome_simps MESSAGE_LENGTH_def split: if_splits)

lemma slice_from_Ok: "slice_from i xs = Ok ys \<longleftrightarrow> i \<le> length xs \<and> ys = drop i xs"
  by (auto simp: slice_from_def)

lemma opcode_read_next_shorter:
  assumes "opcode_read_next C bs = Ok (op, rest)"
  shows "length rest < length bs"
proof (cases bs)
  case Nil
  with assms show ?thesis by (simp add: opcode_read_next_def)
next
  case (Cons code tl_bs)
  with assms show ?thesis
    unfolding opcode_read_next_def
    by (auto simp: outcome_simps slice_from_Ok dest!: read_32_Ok read_multisig_args_Ok
        split: if_splits list.splits)
qed

subsection \<open>Round trip of one instruction\<close>

lemma chunks_exact_concat:
  assumes "\<And>k. length (f k) = n" and "0 < n"
  shows "chunks_exact n (concat (map f ks)) = map f ks"
proof (induction ks)
  case Nil
  from assms(2) show ?case by (simp add: chunks_exact.simps)
next
  case (Cons k ks)
  with assms show ?case by (simp add: chunks_exact.simps [of n "f k @ concat (map f ks)"])
qed

lemma collect_pubkeys_map: "crypto_laws C \<Longrightarrow> collect_pubkeys C (map (pk_as_bytes C) ks) = Ok ks"
  by (induction ks) (simp_all add: crypto_simps)

lemma length_concat_pk: "crypto_laws C \<Longrightarrow> length (concat (map (pk_as_bytes C) ks)) = length ks * 32"
  by (induction ks) (simp_all add: crypto_simps)

lemma slice_to_vec_pubkeys_concat:
  assumes "crypto_laws C"
  shows "slice_to_vec_pubkeys C (concat (map (pk_as_bytes C) ks)) (length ks) = Ok ks"
  using assms
  by (simp add: slice_to_vec_pubkeys_def PUBLIC_KEY_LENGTH_def length_concat_pk chunks_exact_concat
      collect_pubkeys_map crypto_simps)

lemma read_multisig_args_bytes:
  assumes "crypto_laws C" and "length ks = unat n" and "length msg = 32"
  shows "read_multisig_args C (multisig_bytes C code m n ks msg @ rest) =
     Ok (m, n, ks, msg, 3 + length ks * 32 + 32)"
proof -
  let ?keys = "concat (map (pk_as_bytes C) ks)"
  have len: "length ([code, m, n] @ ?keys) = 3 + unat n * 32"
    using assms(2) by (simp add: length_concat_pk [OF assms(1)])
  have bs: "multisig_bytes C code m n ks msg @ rest = ([code, m, n] @ ?keys) @ msg @ rest"
    by (simp add: multisig_bytes_def)
  have "drop (3 + unat n * 32) (multisig_bytes C code m n ks msg @ rest) = msg @ rest"
    unfolding bs len [symmetric] by simp
  moreover have "take (unat n * 32) (drop 3 (multisig_bytes C code m n ks msg @ rest)) = ?keys"
    using assms(2) by (simp add: multisig_bytes_def length_concat_pk [OF assms(1)])
  ultimately show ?thesis
    using assms slice_to_vec_pubkeys_concat [OF assms(1), of ks] bs len
    by (simp add: read_multisig_args_def Let_def PUBLIC_KEY_LENGTH_def MESSAGE_LENGTH_def)
qed

lemma length_multisig_bytes:
  "crypto_laws C \<Longrightarrow> length msg = 32 \<Longrightarrow> length (multisig_bytes C code m n ks msg) = 3 + length ks * 32 + 32"
  by (simp add: multisig_bytes_def length_concat_pk)

lemma drop_multisig_bytes:
  assumes "crypto_laws C" and "length msg = 32"
  shows "drop (3 + length ks * 32 + 32) (multisig_bytes C code m n ks msg @ rest) = rest"
  unfolding length_multisig_bytes [OF assms, of code m n ks, symmetric] by simp

lemma read_32_Cons: "length h = 32 \<Longrightarrow> read_32 (code # h @ rest) = Ok (h, rest)"
  by (simp add: read_32_def)

lemma slice_from_Cons: "slice_from (length xs + 1) (code # xs @ ys) = Ok ys"
  by (simp add: slice_from_def)

lemma opcode_read_next_multisig:
  assumes "crypto_laws C" and "length ks = unat n" and "length msg = 32"
  shows
    "opcode_read_next C (multisig_bytes C OP_CHECK_MULTI_SIG m n ks msg @ rest) =
       Ok (CheckMultiSig m n ks msg, rest)"
    "opcode_read_next C (multisig_bytes C OP_CHECK_MULTI_SIG_VERIFY m n ks msg @ rest) =
       Ok (CheckMultiSigVerify m n ks msg, rest)"
    "opcode_read_next C (multisig_bytes C OP_CHECK_MULTI_SIG_VERIFY_AGGREGATE_PUB_KEY m n ks msg @ rest) =
       Ok (CheckMultiSigVerifyAggregatePubKey m n ks msg, rest)"
proof -
  note args = read_multisig_args_bytes [OF assms, of _ m rest]
  note dr = drop_multisig_bytes [OF assms(1,3), of ks _ m n rest]
  have hd_mb: "multisig_bytes C code m n ks msg @ rest = code # tl (multisig_bytes C code m n ks msg @ rest)" for code
    by (simp add: multisig_bytes_def)
  have step: "opcode_read_next C (multisig_bytes C code m n ks msg @ rest) = Ok (f m n ks msg, rest)"
    if "\<And>t. opcode_read_next C (code # t) =
          and_then (read_multisig_args C (code # t)) (\<lambda>(m, n, keys, msg, en). Ok (f m n keys msg, drop en (code # t)))"
    for code f
    using that [of "tl (multisig_bytes C code m n ks msg @ rest)"] unfolding hd_mb [symmetric] args
    by (simp only: and_then.simps prod.case dr)
  show "opcode_read_next C (multisig_bytes C OP_CHECK_MULTI_SIG m n ks msg @ rest) =
       Ok (CheckMultiSig m n ks msg, rest)"
    by (rule step) (simp add: opcode_read_next_def)
  show "opcode_read_next C (multisig_bytes C OP_CHECK_MULTI_SIG_VERIFY m n ks msg @ rest) =
       Ok (CheckMultiSigVerify m n ks msg, rest)"
    by (rule step) (simp add: opcode_read_next_def)
  show "opcode_read_next C (multisig_bytes C OP_CHECK_MULTI_SIG_VERIFY_AGGREGATE_PUB_KEY m n ks msg @ rest) =
       Ok (CheckMultiSigVerifyAggregatePubKey m n ks msg, rest)"
    by (rule step) (simp add: opcode_read_next_def)
qed

lemma opcode_read_next_to_bytes:
  assumes "crypto_laws C" and "opcode_wf op"
  shows "opcode_read_next C (opcode_to_bytes C op @ rest) = Ok (op, rest)"
  using assms
  by (cases op)
    (simp_all add: opcode_read_next_multisig,
     simp_all add: opcode_read_next_def crypto_simps read_32_Cons slice_from_def)

interpretation opcode_codec: prefix_codec "opcode_to_bytes C" "opcode_read_next C"
  "\<lambda>op. crypto_laws C \<and> opcode_wf op" for C
  by unfold_locales (auto simp: opcode_read_next_to_bytes dest: opcode_read_next_shorter)

subsection \<open>Scripts\<close>

type_synonym 'pk tari_script = "'pk opcode list"

function opcode_parse :: "('pk, 'sk, 'com) crypto \<Rightarrow> bytes \<Rightarrow> (script_error, 'pk tari_script) outcome" where
  "opcode_parse C bs =
     (if bs = [] then Ok []
      else and_then (opcode_read_next C bs) (\<lambda>(op, bytes_left).
             map_ok (Cons op) (opcode_parse C bytes_left)))"
  by pat_completeness auto
termination
  by (relation "measure (\<lambda>(C, bs). length bs)") (auto dest: opcode_read_next_shorter)

declare opcode_parse.simps [simp del]

definition script_from_bytes :: "('pk, 'sk, 'com) crypto \<Rightarrow> bytes \<Rightarrow> (script_error, 'pk tari_script) outcome" where
  "script_from_bytes C bs = opcode_parse C bs"

definition script_to_bytes :: "('pk, 'sk, 'com) crypto \<Rightarrow> 'pk tari_script \<Rightarrow> bytes" where
  "script_to_bytes C script = fold (\<lambda>op bs. bs @ opcode_to_bytes C op) script []"

definition script_borsh_serialize :: "('pk, 'sk, 'com) crypto \<Rightarrow> 'pk tari_script \<Rightarrow> bytes" where
  "script_borsh_serialize C script =
     (let bs = script_to_bytes C script in usize_write_varint C (length bs) @ bs)"

definition script_borsh_deserialize ::
  "('pk, 'sk, 'com) crypto \<Rightarrow> bytes \<Rightarrow> (io_error, 'pk tari_script \<times> bytes) outcome" where
  "script_borsh_deserialize C buf =
     and_then (read_sized_bytes C buf) (\<lambda>(data, rest).
     and_then (map_err InvalidData_Kind (script_from_bytes C data)) (\<lambda>script. Ok (script, rest)))"

definition as_hash ::
  "nat \<Rightarrow> (bytes \<Rightarrow> bytes) \<Rightarrow> ('pk, 'sk, 'com) crypto \<Rightarrow> 'pk tari_script \<Rightarrow> (script_error, bytes) outcome" where
  "as_hash output_size digest C script =
     (if output_size < 32 then Err InvalidDigest
      else Ok (take 32 (digest (script_to_bytes C script))))"

definition script_message ::
  "('pk, 'sk, 'com) crypto \<Rightarrow> 'pk tari_script \<Rightarrow> 'pk \<Rightarrow> (script_error, 'sk) outcome" where
  "script_message C script pub_key =
     ok_or InvalidSignature (sk_from_bytes C (blake256 C (pk_as_bytes C pub_key @ script_to_bytes C script)))"

lemma script_to_bytes_concat: "script_to_bytes C script = concat (map (opcode_to_bytes C) script)"
proof -
  have "fold (\<lambda>op bs. bs @ opcode_to_bytes C op) script acc = acc @ concat (map (opcode_to_bytes C) script)" for acc
    by (induction script arbitrary: acc) auto
  then show ?thesis by (simp add: script_to_bytes_def)
qed

interpretation script_codec: stream_codec "opcode_to_bytes C" "opcode_read_next C"
  "\<lambda>op. crypto_laws C \<and> opcode_wf op" "opcode_parse C" for C
  by unfold_locales (simp_all add: opcode_parse.simps)

lemma list_all_laws: "crypto_laws C \<Longrightarrow> list_all P xs \<Longrightarrow> list_all (\<lambda>x. crypto_laws C \<and> P x) xs"
  by (simp add: list_all_iff)

lemma chunks_exact_length: "0 < n \<Longrightarrow> length (chunks_exact n xs) = length xs div n"
proof (induction n xs rule: chunks_exact.induct)
  case (1 n xs)
  show ?case
  proof (cases "length xs < n")
    case True
    then show ?thesis by (simp add: chunks_exact.simps [of n xs])
  next
    case False
    with 1 have "length (chunks_exact n (drop n xs)) = (length xs - n) div n" by simp
    with False "1.prems" show ?thesis
      by (simp add: chunks_exact.simps [of n xs] le_div_geq)
  qed
qed

lemma collect_pubkeys_length: "collect_pubkeys C cs = Ok ks \<Longrightarrow> length ks = length cs"
  by (induction cs arbitrary: ks) (auto simp: outcome_simps)

lemma read_multisig_args_wf:
  assumes "read_multisig_args C bs = Ok (m, n, keys, msg, en)"
  shows "length keys = unat n \<and> length msg = 32"
  using assms
  by (auto simp: read_multisig_args_def Let_def outcome_simps MESSAGE_LENGTH_def PUBLIC_KEY_LENGTH_def
      slice_to_vec_pubkeys_def chunks_exact_length dest!: collect_pubkeys_length split: if_splits)

lemma opcode_read_next_wf:
  assumes "opcode_read_next C bs = Ok (op, rest)"
  shows "opcode_wf op"
proof (cases bs)
  case Nil
  with assms show ?thesis by (simp add: opcode_read_next_def)
next
  case (Cons code tl_bs)
  with assms show ?thesis
    unfolding opcode_read_next_def
    by (auto simp: outcome_simps dest!: read_32_Ok dest: read_multisig_args_wf split: if_splits list.splits)
qed

lemma opcode_parse_wf: "opcode_parse C bs = Ok script \<Longrightarrow> list_all opcode_wf script"
proof (induction C bs arbitrary: script rule: opcode_parse.induct)
  case (1 C bs)
  show ?case
  proof (cases "bs = []")
    case True
    with "1.prems" show ?thesis by (simp add: opcode_parse.simps)
  next
    case False
    with "1.prems" obtain op rest ops where
      op: "opcode_read_next C bs = Ok (op, rest)" and rest: "opcode_parse C rest = Ok ops"
      and script: "script = op # ops"
      by (auto simp: opcode_parse.simps [of C bs] outcome_simps)
    from "1.IH" [OF False op refl rest] opcode_read_next_wf [OF op] script show ?thesis by simp
  qed
qed

lemma opcode_read_next_no_panic:
  assumes "crypto_laws C"
  shows "opcode_read_next C bs \<noteq> Panic"
proof (cases bs)
  case Nil
  then show ?thesis by (simp add: opcode_read_next_def)
next
  case (Cons code tl_bs)
  have sl: "slice_from (k + 1) bs \<noteq> Panic" if "k \<le> length tl_bs" for k
    using that Cons by (simp add: slice_from_def)
  have r32: "read_32 bs \<noteq> Panic" by (simp add: read_32_def)
  have coll: "collect_pubkeys C cs \<noteq> Panic" for cs
    by (induction cs) (auto simp: outcome_simps)
  have ms: "read_multisig_args C bs \<noteq> Panic"
    by (auto simp: read_multisig_args_def slice_to_vec_pubkeys_def Let_def outcome_simps coll)
  show ?thesis
    using Cons sl r32 ms
    by (auto simp: opcode_read_next_def outcome_simps split: list.splits
        dest: u64_decode_var_le [OF assms] i64_decode_var_le [OF assms])
qed

lemma opcode_parse_no_panic: "crypto_laws C \<Longrightarrow> opcode_parse C bs \<noteq> Panic"
proof (induction C bs rule: opcode_parse.induct)
  case (1 C bs)
  then show ?case
    by (subst opcode_parse.simps) (auto simp: outcome_simps opcode_read_next_no_panic)
qed

subsection \<open>Properties\<close>

lemma script_parse_to_bytes:
  assumes "crypto_laws C" and "list_all opcode_wf script"
  shows "opcode_parse C (script_to_bytes C script) = Ok script"
  unfolding script_to_bytes_concat
  by (rule script_codec.parse_concat [OF list_all_laws [OF assms]])

text \<open>(C7) Every well-formed script is recovered from its byte code, for all 36 instructions.\<close>

theorem script_roundtrip:
  assumes "crypto_laws C" and "list_all opcode_wf script"
  shows "script_from_bytes C (script_to_bytes C script) = Ok script"
  unfolding script_from_bytes_def by (rule script_parse_to_bytes [OF assms])

theorem script_roundtrip_witness:
  "script_from_bytes sample_crypto (script_to_bytes sample_crypto
     [CheckHeightVerify 100, IfThen, PushPubKey 3, Else, CheckMultiSig 1 2 [5, 6] (replicate 32 7), EndIf]) =
   Ok [CheckHeightVerify 100, IfThen, PushPubKey 3, Else, CheckMultiSig 1 2 [5, 6] (replicate 32 7), EndIf]"
  by (rule script_roundtrip) (simp_all add: sample_crypto_laws)

text \<open>
  The byte code is unambiguous: two well-formed scripts with the same bytes are the same list of
  instructions, so the script hash, computed over these bytes, commits to the instructions themselves.
\<close>

theorem script_bytes_injective:
  assumes "crypto_laws C" and "list_all opcode_wf s1" and "list_all opcode_wf s2"
    and "script_to_bytes C s1 = script_to_bytes C s2"
  shows "s1 = s2"
  using opcode_codec.concat_enc_injective [OF list_all_laws [OF assms(1,2)] list_all_laws [OF assms(1,3)]] assms(4)
  by (simp add: script_to_bytes_concat)

theorem script_bytes_injective_witness:
  "[PushInt 1, Or 2 :: u8 opcode] = [PushInt 1, Or 2]"
  by (rule script_bytes_injective [OF sample_crypto_laws]) simp_all

text \<open>
  Parsing untrusted bytes as a script never panics; a script it accepts has arrays of the right
  length, as many keys as each multi-signature instruction announces, and no more instructions than
  bytes.
\<close>

theorem script_parse_safe:
  assumes "crypto_laws C"
  shows "script_from_bytes C bs \<noteq> Panic \<and>
     (\<forall>script. script_from_bytes C bs = Ok script \<longrightarrow>
        list_all opcode_wf script \<and> length script \<le> length bs)"
  using opcode_parse_no_panic [OF assms, of bs] opcode_parse_wf [of C bs] script_codec.parse_length [of C bs]
  by (auto simp: script_from_bytes_def)

theorem script_parse_safe_witness:
  "script_from_bytes sample_crypto [0x7b, 0x70] = Ok [PushZero, Drop] \<and> length [PushZero, Drop :: u8 opcode] \<le> 2"
proof -
  have *: "script_from_bytes sample_crypto [0x7b, 0x70] = Ok [PushZero, Drop]"
    using script_parse_to_bytes [OF sample_crypto_laws, of "[PushZero, Drop]"]
    by (simp add: script_from_bytes_def script_to_bytes_def)
  then show ?thesis using script_parse_safe [OF sample_crypto_laws, of "[0x7b, 0x70]"] by simp
qed

text \<open>
  The Borsh reader of a script accepts what the writer wrote and leaves the rest of the buffer, as
  long as the byte code fits the address space; a declared length above \<open>isize::MAX\<close> makes it panic.
\<close>

theorem script_borsh_behaviour:
  assumes "crypto_laws C"
  shows "(list_all opcode_wf script \<longrightarrow> length (script_to_bytes C script) \<le> ISIZE_MAX \<longrightarrow>
           script_borsh_deserialize C (script_borsh_serialize C script @ rest) = Ok (script, rest)) \<and>
         (ISIZE_MAX < n \<longrightarrow> n < 2 ^ 64 \<longrightarrow>
           script_borsh_deserialize C (usize_write_varint C n @ rest) = Panic)"
  using assms
  by (simp add: script_borsh_deserialize_def script_borsh_serialize_def Let_def read_sized_bytes_write
      script_from_bytes_def script_parse_to_bytes read_sized_bytes_def [of C "usize_write_varint C n @ rest"] crypto_simps)

theorem script_borsh_behaviour_witness:
  "script_borsh_deserialize sample_crypto (script_borsh_serialize sample_crypto [PushOne, Dup] @ [1]) =
     Ok ([PushOne, Dup], [1]) \<and>
   script_borsh_deserialize sample_crypto (usize_write_varint sample_crypto (2 ^ 63) @ [1]) = Panic"
  using script_borsh_behaviour [OF sample_crypto_laws, of "[PushOne, Dup]" "[1]" "2 ^ 63"]
  by (simp add: script_to_bytes_def ISIZE_MAX_def)

end
