(* ===== verification/Script_VM.thy ===== *)
theory Script_VM
  imports Script_Opcodes
begin

text \<open>
  The interpreter of TariScript: \<open>src/infrastructure/tari_script/src/script.rs\<close> and the context of
  \<open>script_context.rs\<close>. Every handler of the source is one definition that takes the stack (and, for the
  control-flow instructions, the execution state) and returns the changed one. \<open>if_stack\<close> is the vector
  of the source, its top at the end of the list.
\<close>

subsection \<open>State and context\<close>

record 'com script_context =
  block_height :: u64
  prev_block_hash :: bytes
  commitment :: 'com

datatype branch = NotExecuted | ExecuteIf | ExecuteElse

record if_state =
  if_branch :: branch
  else_expected :: bool

record exec_state =
  executing :: bool
  if_stack :: "if_state list"

definition exec_state_default :: exec_state where
  "exec_state_default = \<lparr>executing = True, if_stack = []\<rparr>"

datatype ordering = Less_Ord | Equal_Ord | Greater_Ord

definition cmp_zero :: "i64 \<Rightarrow> ordering" where
  "cmp_zero n = (if sint n < 0 then Less_Ord else if sint n = 0 then Equal_Ord else Greater_Ord)"

definition MAX_MULTISIG_LIMIT :: nat where
  "MAX_MULTISIG_LIMIT = 32"

definition push_bool :: "bool \<Rightarrow> ('pk, 'sk, 'com) exec_stack \<Rightarrow> (script_error, ('pk, 'sk, 'com) exec_stack) outcome" where
  "push_bool b st = (if b then push (Number 1) st else push (Number 0) st)"

subsection \<open>Handlers\<close>

definition handle_check_height_verify ::
  "u64 \<Rightarrow> u64 \<Rightarrow> ('pk, 'sk, 'com) exec_stack \<Rightarrow> (script_error, ('pk, 'sk, 'com) exec_stack) outcome" where
  "handle_check_height_verify height blk st = (if blk \<ge> height then Ok st else Err VerifyFailed)"

definition handle_check_height ::
  "('pk, 'sk, 'com) exec_stack \<Rightarrow> u64 \<Rightarrow> u64 \<Rightarrow> (script_error, ('pk, 'sk, 'com) exec_stack) outcome" where
  "handle_check_height st height blk =
     and_then (ok_or ValueExceedsBounds (u64_to_i64 height)) (\<lambda>h.
     and_then (ok_or ValueExceedsBounds (u64_to_i64 blk)) (\<lambda>b.
     and_then (or_panic (checked_sub_i64 b h)) (\<lambda>d.
       push (Number d) st)))"

definition handle_compare_height_verify ::
  "('pk, 'sk, 'com) exec_stack \<Rightarrow> u64 \<Rightarrow> (script_error, ('pk, 'sk, 'com) exec_stack) outcome" where
  "handle_compare_height_verify st blk =
     and_then (pop_into_number i64_to_u64 st) (\<lambda>(target_height, st').
       if blk \<ge> target_height then Ok st' else Err VerifyFailed)"

definition handle_compare_height ::
  "('pk, 'sk, 'com) exec_stack \<Rightarrow> u64 \<Rightarrow> (script_error, ('pk, 'sk, 'com) exec_stack) outcome" where
  "handle_compare_height st blk =
     and_then (pop_into_number Some st) (\<lambda>(target_height, st').
     and_then (ok_or ValueExceedsBounds (u64_to_i64 blk)) (\<lambda>b.
     and_then (or_panic (checked_sub_i64 b target_height)) (\<lambda>d.
       push (Number d) st')))"

definition handle_cmp_to_zero ::
  "('pk, 'sk, 'com) exec_stack \<Rightarrow> ordering list \<Rightarrow> (script_error, ('pk, 'sk, 'com) exec_stack) outcome" where
  "handle_cmp_to_zero st valid_orderings =
     and_then (pop_into_number Some st) (\<lambda>(stack_number, st').
       push_bool (cmp_zero stack_number \<in> set valid_orderings) st')"

definition handle_or ::
  "('pk, 'sk, 'com) exec_stack \<Rightarrow> u8 \<Rightarrow> (script_error, ('pk, 'sk, 'com) exec_stack) outcome" where
  "handle_or st n = and_then (pop_n_plus_one_contains (unat n) st) (\<lambda>(b, st'). push_bool b st')"

definition handle_or_verify ::
  "('pk, 'sk, 'com) exec_stack \<Rightarrow> u8 \<Rightarrow> (script_error, ('pk, 'sk, 'com) exec_stack) outcome" where
  "handle_or_verify st n =
     and_then (pop_n_plus_one_contains (unat n) st) (\<lambda>(b, st'). if b then Ok st' else Err VerifyFailed)"

definition handle_if_then ::
  "('pk, 'sk, 'com) exec_stack \<Rightarrow> exec_state \<Rightarrow>
   (script_error, ('pk, 'sk, 'com) exec_stack \<times> exec_state) outcome" where
  "handle_if_then st state =
     (if executing state then
        and_then (pop_or_underflow st) (\<lambda>(pred, st').
          case pred of
            Number n \<Rightarrow>
              if n = 1 then
                Ok (st', state\<lparr>executing := True,
                       if_stack := if_stack state @ [\<lparr>if_branch = ExecuteIf, else_expected = True\<rparr>]\<rparr>)
              else if n = 0 then
                Ok (st', state\<lparr>executing := False,
                       if_stack := if_stack state @ [\<lparr>if_branch = ExecuteElse, else_expected = True\<rparr>]\<rparr>)
              else Err InvalidInput
          | _ \<Rightarrow> Err InvalidInput)
      else
        Ok (st, state\<lparr>if_stack := if_stack state @ [\<lparr>if_branch = NotExecuted, else_expected = True\<rparr>]\<rparr>))"

definition handle_else :: "exec_state \<Rightarrow> (script_error, exec_state) outcome" where
  "handle_else state =
     (case vec_pop (if_stack state) of
        None \<Rightarrow> Err InvalidOpcode
      | Some (ifs, below) \<Rightarrow>
          if \<not> else_expected ifs then Err InvalidOpcode
          else Ok (state\<lparr>executing := (case if_branch ifs of
                             NotExecuted \<Rightarrow> False
                           | ExecuteIf \<Rightarrow> False
                           | ExecuteElse \<Rightarrow> True),
                         if_stack := below @ [ifs\<lparr>else_expected := False\<rparr>]\<rparr>))"

definition handle_end_if :: "exec_state \<Rightarrow> (script_error, exec_state) outcome" where
  "handle_end_if state =
     (case vec_pop (if_stack state) of
        None \<Rightarrow> Err InvalidOpcode
      | Some (ifs, below) \<Rightarrow>
          if else_expected ifs then Err MissingOpcode
          else Ok (state\<lparr>executing := (case if_branch ifs of
                             NotExecuted \<Rightarrow> False
                           | ExecuteIf \<Rightarrow> True
                           | ExecuteElse \<Rightarrow> True),
                         if_stack := below\<rparr>))"

text \<open>\<open>copy_from_slice\<close> into a 32-byte array panics when the digest has another length.\<close>

definition to_arr :: "(bytes \<Rightarrow> bytes) \<Rightarrow> bytes \<Rightarrow> (script_error, bytes) outcome" where
  "to_arr digest b = (if length (digest b) = 32 then Ok (digest b) else Panic)"

definition handle_hash ::
  "('pk, 'sk, 'com) crypto \<Rightarrow> (bytes \<Rightarrow> bytes) \<Rightarrow> ('pk, 'sk, 'com) exec_stack \<Rightarrow>
   (script_error, ('pk, 'sk, 'com) exec_stack) outcome" where
  "handle_hash C digest st =
     and_then (pop_or_underflow st) (\<lambda>(item, st').
     and_then (case item of
                 Commitment c \<Rightarrow> to_arr digest (com_as_bytes C c)
               | PublicKey k \<Rightarrow> to_arr digest (pk_as_bytes C k)
               | Hash h \<Rightarrow> to_arr digest h
               | _ \<Rightarrow> Err IncompatibleTypes) (\<lambda>hash_value.
       push (Hash hash_value) st'))"

definition handle_dup ::
  "('pk, 'sk, 'com) exec_stack \<Rightarrow> (script_error, ('pk, 'sk, 'com) exec_stack) outcome" where
  "handle_dup st = (case peek st of Some item \<Rightarrow> push item st | None \<Rightarrow> Err StackUnderflow)"

definition handle_drop ::
  "('pk, 'sk, 'com) exec_stack \<Rightarrow> (script_error, ('pk, 'sk, 'com) exec_stack) outcome" where
  "handle_drop st = (case vec_pop st of Some (_, st') \<Rightarrow> Ok st' | None \<Rightarrow> Err StackUnderflow)"

definition pop_two ::
  "('pk, 'sk, 'com) exec_stack \<Rightarrow>
   (script_error, ('pk, 'sk, 'com) stack_item \<times> ('pk, 'sk, 'com) stack_item \<times> ('pk, 'sk, 'com) exec_stack) outcome" where
  "pop_two st =
     and_then (pop_or_underflow st) (\<lambda>(fst_item, st1).
     and_then (pop_or_underflow st1) (\<lambda>(two, st2). Ok (fst_item, two, st2)))"

definition handle_op_add ::
  "('pk, 'sk, 'com) crypto \<Rightarrow> ('pk, 'sk, 'com) exec_stack \<Rightarrow>
   (script_error, ('pk, 'sk, 'com) exec_stack) outcome" where
  "handle_op_add C st =
     and_then (pop_two st) (\<lambda>(item, two, st').
       case (item, two) of
         (Number v1, Number v2) \<Rightarrow>
           and_then (ok_or ValueExceedsBounds (checked_add_i64 v1 v2)) (\<lambda>v. push (Number v) st')
       | (Commitment c1, Commitment c2) \<Rightarrow> push (Commitment (com_add C c1 c2)) st'
       | (PublicKey p1, PublicKey p2) \<Rightarrow> push (PublicKey (pk_add C p1 p2)) st'
       | (Signature s1, Signature s2) \<Rightarrow> push (Signature (sig_add C s1 s2)) st'
       | _ \<Rightarrow> Err IncompatibleTypes)"

definition handle_op_sub ::
  "('pk, 'sk, 'com) crypto \<Rightarrow> ('pk, 'sk, 'com) exec_stack \<Rightarrow>
   (script_error, ('pk, 'sk, 'com) exec_stack) outcome" where
  "handle_op_sub C st =
     and_then (pop_two st) (\<lambda>(item, two, st').
       case (item, two) of
         (Number v1, Number v2) \<Rightarrow>
           and_then (ok_or ValueExceedsBounds (checked_sub_i64 v2 v1)) (\<lambda>v. push (Number v) st')
       | (Commitment c1, Commitment c2) \<Rightarrow> push (Commitment (com_sub C c2 c1)) st'
       | _ \<Rightarrow> Err IncompatibleTypes)"

definition handle_equal ::
  "('pk, 'sk, 'com) exec_stack \<Rightarrow> (script_error, bool \<times> ('pk, 'sk, 'com) exec_stack) outcome" where
  "handle_equal st =
     and_then (pop_two st) (\<lambda>(item, two, st').
       case (item, two) of
         (Number v1, Number v2) \<Rightarrow> Ok (v1 = v2, st')
       | (Commitment c1, Commitment c2) \<Rightarrow> Ok (c1 = c2, st')
       | (Signature s1, Signature s2) \<Rightarrow> Ok (s1 = s2, st')
       | (PublicKey p1, PublicKey p2) \<Rightarrow> Ok (p1 = p2, st')
       | (Hash h1, Hash h2) \<Rightarrow> Ok (h1 = h2, st')
       | _ \<Rightarrow> Err IncompatibleTypes)"

definition check_sig ::
  "('pk, 'sk, 'com) crypto \<Rightarrow> ('pk, 'sk, 'com) exec_stack \<Rightarrow> bytes \<Rightarrow>
   (script_error, bool \<times> ('pk, 'sk, 'com) exec_stack) outcome" where
  "check_sig C st message =
     and_then (pop_two st) (\<lambda>(pk, sig, st').
       case (pk, sig) of
         (PublicKey p, Signature s) \<Rightarrow> Ok (verify_challenge C s p message, st')
       | _ \<Rightarrow> Err IncompatibleTypes)"

subsection \<open>Multi-signatures\<close>

fun collect_signatures ::
  "('pk, 'sk, 'com) stack_item list \<Rightarrow> (script_error, ('pk, 'sk) schnorr list) outcome" where
  "collect_signatures [] = Ok []"
| "collect_signatures (item # items) =
     (case item of
        Signature s \<Rightarrow> map_ok (Cons s) (collect_signatures items)
      | _ \<Rightarrow> Err IncompatibleTypes)"

text \<open>
  The locals of the loop: which keys have signed, the signatures used so far, the aggregate key. The set
  of used signatures is a list of distinct elements.
\<close>

record ('pk, 'sk) multisig_state =
  key_signed :: "bool list"
  sig_set :: "('pk, 'sk) schnorr list"
  agg_pub_key :: 'pk

fun multisig_match ::
  "('pk, 'sk, 'com) crypto \<Rightarrow> bytes \<Rightarrow> ('pk, 'sk) schnorr \<Rightarrow> (nat \<times> 'pk) list \<Rightarrow>
   ('pk, 'sk) multisig_state \<Rightarrow> ('pk, 'sk) multisig_state" where
  "multisig_match C message s [] ms = ms"
| "multisig_match C message s ((i, pk) # pks) ms =
     (if s \<notin> set (sig_set ms) \<and> \<not> key_signed ms ! i \<and> verify_challenge C s pk message then
        ms\<lparr>key_signed := (key_signed ms)[i := True],
           sig_set := sig_set ms @ [s],
           agg_pub_key := pk_add C (agg_pub_key ms) pk\<rparr>
      else multisig_match C message s pks ms)"

fun multisig_loop ::
  "('pk, 'sk, 'com) crypto \<Rightarrow> bytes \<Rightarrow> 'pk list \<Rightarrow> ('pk, 'sk) schnorr list \<Rightarrow>
   ('pk, 'sk) multisig_state \<Rightarrow> ('pk, 'sk) multisig_state option" where
  "multisig_loop C message public_keys [] ms = Some ms"
| "multisig_loop C message public_keys (s # sigs) ms =
     (let ms' = multisig_match C message s (enumerate 0 public_keys) ms in
      if s \<notin> set (sig_set ms') then None
      else multisig_loop C message public_keys sigs ms')"

definition check_multisig ::
  "('pk, 'sk, 'com) crypto \<Rightarrow> ('pk, 'sk, 'com) exec_stack \<Rightarrow> u8 \<Rightarrow> u8 \<Rightarrow> 'pk list \<Rightarrow> bytes \<Rightarrow>
   (script_error, 'pk option \<times> ('pk, 'sk, 'com) exec_stack) outcome" where
  "check_multisig C st m n public_keys message =
     (if m = 0 \<or> n = 0 \<or> m > n \<or> unat n > MAX_MULTISIG_LIMIT \<or> length public_keys \<noteq> unat n
      then Err ValueExceedsBounds
      else
        and_then (pop_num_items (unat m) st) (\<lambda>(items, st').
        and_then (collect_signatures items) (\<lambda>signatures.
          case multisig_loop C message public_keys signatures
                 \<lparr>key_signed = replicate (length public_keys) False, sig_set = [], agg_pub_key = pk_default C\<rparr> of
            None \<Rightarrow> Ok (None, st')
          | Some ms \<Rightarrow> if length (sig_set ms) = unat m then Ok (Some (agg_pub_key ms), st')
                        else Ok (None, st'))))"

definition handle_to_ristretto_point ::
  "('pk, 'sk, 'com) crypto \<Rightarrow> ('pk, 'sk, 'com) exec_stack \<Rightarrow>
   (script_error, ('pk, 'sk, 'com) exec_stack) outcome" where
  "handle_to_ristretto_point C st =
     and_then (pop_or_underflow st) (\<lambda>(item, st').
     and_then (case item of
                 Hash h \<Rightarrow> Ok h
               | Scalar s \<Rightarrow> Ok s
               | _ \<Rightarrow> Err IncompatibleTypes) (\<lambda>scalar.
     and_then (ok_or InvalidData (sk_from_bytes C scalar)) (\<lambda>ristretto_sk.
       push (PublicKey (pk_from_secret_key C ristretto_sk)) st')))"

subsection \<open>The interpreter\<close>

definition on_stack ::
  "exec_state \<Rightarrow> (script_error, ('pk, 'sk, 'com) exec_stack) outcome \<Rightarrow>
   (script_error, ('pk, 'sk, 'com) exec_stack \<times> exec_state) outcome" where
  "on_stack state r = map_ok (\<lambda>st. (st, state)) r"

definition on_state ::
  "('pk, 'sk, 'com) exec_stack \<Rightarrow> (script_error, exec_state) outcome \<Rightarrow>
   (script_error, ('pk, 'sk, 'com) exec_stack \<times> exec_state) outcome" where
  "on_state st r = map_ok (\<lambda>state. (st, state)) r"

definition verify_true ::
  "(script_error, bool \<times> ('pk, 'sk, 'com) exec_stack) outcome \<Rightarrow>
   (script_error, ('pk, 'sk, 'com) exec_stack) outcome" where
  "verify_true r = and_then r (\<lambda>(b, st). if b then Ok st else Err VerifyFailed)"

definition push_result ::
  "(script_error, bool \<times> ('pk, 'sk, 'com) exec_stack) outcome \<Rightarrow>
   (script_error, ('pk, 'sk, 'com) exec_stack) outcome" where
  "push_result r = and_then r (\<lambda>(b, st). push_bool b st)"

definition is_valid_multisig ::
  "(script_error, 'pk option \<times> ('pk, 'sk, 'com) exec_stack) outcome \<Rightarrow>
   (script_error, bool \<times> ('pk, 'sk, 'com) exec_stack) outcome" where
  "is_valid_multisig r = map_ok (\<lambda>(k, st). (k \<noteq> None, st)) r"

fun execute_opcode ::
  "('pk, 'sk, 'com) crypto \<Rightarrow> 'pk opcode \<Rightarrow> ('pk, 'sk, 'com) exec_stack \<Rightarrow> 'com script_context \<Rightarrow>
   exec_state \<Rightarrow> (script_error, ('pk, 'sk, 'com) exec_stack \<times> exec_state) outcome" where
  "execute_opcode C (CheckHeightVerify height) st ctx state =
     on_stack state (handle_check_height_verify height (block_height ctx) st)"
| "execute_opcode C (CheckHeight height) st ctx state =
     on_stack state (handle_check_height st height (block_height ctx))"
| "execute_opcode C CompareHeightVerify st ctx state =
     on_stack state (handle_compare_height_verify st (block_height ctx))"
| "execute_opcode C CompareHeight st ctx state =
     on_stack state (handle_compare_height st (block_height ctx))"
| "execute_opcode C Nop st ctx state = Ok (st, state)"
| "execute_opcode C PushZero st ctx state = on_stack state (push (Number 0) st)"
| "execute_opcode C PushOne st ctx state = on_stack state (push (Number 1) st)"
| "execute_opcode C (PushHash h) st ctx state = on_stack state (push (Hash h) st)"
| "execute_opcode C (PushInt n) st ctx state = on_stack state (push (Number n) st)"
| "execute_opcode C (PushPubKey p) st ctx state = on_stack state (push (PublicKey p) st)"
| "execute_opcode C Drop st ctx state = on_stack state (handle_drop st)"
| "execute_opcode C Dup st ctx state = on_stack state (handle_dup st)"
| "execute_opcode C RevRot st ctx state = on_stack state (push_down 2 st)"
| "execute_opcode C GeZero st ctx state = on_stack state (handle_cmp_to_zero st [Greater_Ord, Equal_Ord])"
| "execute_opcode C GtZero st ctx state = on_stack state (handle_cmp_to_zero st [Greater_Ord])"
| "execute_opcode C LeZero st ctx state = on_stack state (handle_cmp_to_zero st [Less_Ord, Equal_Ord])"
| "execute_opcode C LtZero st ctx state = on_stack state (handle_cmp_to_zero st [Less_Ord])"
| "execute_opcode C Add st ctx state = on_stack state (handle_op_add C st)"
| "execute_opcode C Sub st ctx state = on_stack state (handle_op_sub C st)"
| "execute_opcode C Equal st ctx state = on_stack state (push_result (handle_equal st))"
| "execute_opcode C EqualVerify st ctx state = on_stack state (verify_true (handle_equal st))"
| "execute_opcode C (Or n) st ctx state = on_stack state (handle_or st n)"
| "execute_opcode C (OrVerify n) st ctx state = on_stack state (handle_or_verify st n)"
| "execute_opcode C HashBlake256 st ctx state = on_stack state (handle_hash C (blake256 C) st)"
| "execute_opcode C HashSha256 st ctx state = on_stack state (handle_hash C (sha256 C) st)"
| "execute_opcode C HashSha3 st ctx state = on_stack state (handle_hash C (sha3_256 C) st)"
| "execute_opcode C (CheckSig msg) st ctx state = on_stack state (push_result (check_sig C st msg))"
| "execute_opcode C (CheckSigVerify msg) st ctx state = on_stack state (verify_true (check_sig C st msg))"
| "execute_opcode C (CheckMultiSig m n public_keys msg) st ctx state =
     on_stack state (push_result (is_valid_multisig (check_multisig C st m n public_keys msg)))"
| "execute_opcode C (CheckMultiSigVerify m n public_keys msg) st ctx state =
     on_stack state (verify_true (is_valid_multisig (check_multisig C st m n public_keys msg)))"
| "execute_opcode C (CheckMultiSigVerifyAggregatePubKey m n public_keys msg) st ctx state =
     on_stack state (and_then (check_multisig C st m n public_keys msg) (\<lambda>(k, st').
       case k of Some agg \<Rightarrow> push (PublicKey agg) st' | None \<Rightarrow> Err VerifyFailed))"
| "execute_opcode C ToRistrettoPoint st ctx state = on_stack state (handle_to_ristretto_point C st)"
| "execute_opcode C Return st ctx state = Err Return_Error"
| "execute_opcode C IfThen st ctx state = handle_if_then st state"
| "execute_opcode C Else st ctx state = on_state st (handle_else state)"
| "execute_opcode C EndIf st ctx state = on_state st (handle_end_if state)"

definition should_execute :: "'pk opcode \<Rightarrow> exec_state \<Rightarrow> bool" where
  "should_execute op state =
     (case op of
        IfThen \<Rightarrow> True
      | Else \<Rightarrow> True
      | EndIf \<Rightarrow> True
      | _ \<Rightarrow> executing state)"

fun execute_loop ::
  "('pk, 'sk, 'com) crypto \<Rightarrow> 'pk tari_script \<Rightarrow> 'com script_context \<Rightarrow>
   ('pk, 'sk, 'com) exec_stack \<times> exec_state \<Rightarrow>
   (script_error, ('pk, 'sk, 'com) exec_stack \<times> exec_state) outcome" where
  "execute_loop C [] ctx (st, state) = Ok (st, state)"
| "execute_loop C (op # ops) ctx (st, state) =
     (if should_execute op state
      then and_then (execute_opcode C op st ctx state) (execute_loop C ops ctx)
      else execute_loop C ops ctx (st, state))"

definition execute_with_context ::
  "('pk, 'sk, 'com) crypto \<Rightarrow> 'pk tari_script \<Rightarrow> ('pk, 'sk, 'com) exec_stack \<Rightarrow> 'com script_context \<Rightarrow>
   (script_error, ('pk, 'sk, 'com) stack_item) outcome" where
  "execute_with_context C script inputs ctx =
     and_then (execute_loop C script ctx (inputs, exec_state_default)) (\<lambda>(st, state).
       if if_stack state \<noteq> [] then Err MissingOpcode
       else if length st = 1 then
         (case vec_pop st of Some (item, _) \<Rightarrow> Ok item | None \<Rightarrow> Err NonUnitLengthStack)
       else Err NonUnitLengthStack)"

text \<open>The two standard payment scripts of \<open>lib.rs\<close> and the default script.\<close>

definition stealth_payment_script :: "'pk \<Rightarrow> 'pk \<Rightarrow> 'pk tari_script" where
  "stealth_payment_script nonce_public_key script_spending_key =
     [PushPubKey nonce_public_key, Drop, PushPubKey script_spending_key]"

definition one_sided_payment_script :: "'pk \<Rightarrow> 'pk tari_script" where
  "one_sided_payment_script destination_public_key = [PushPubKey destination_public_key]"

definition script_default :: "'pk tari_script" where
  "script_default = [PushZero]"

subsection \<open>Every handler keeps the stack well-formed and bounded\<close>

definition stack_inv :: "('pk, 'sk, 'com) exec_stack \<Rightarrow> bool" where
  "stack_inv st \<longleftrightarrow> length st \<le> MAX_STACK_SIZE \<and> list_all item_wf st"

named_theorems handler_defs \<open>definitions of the stack handlers\<close>

declare handle_check_height_verify_def [handler_defs] handle_check_height_def [handler_defs]
  handle_compare_height_verify_def [handler_defs] handle_compare_height_def [handler_defs]
  handle_cmp_to_zero_def [handler_defs] handle_hash_def [handler_defs] handle_dup_def [handler_defs]
  handle_drop_def [handler_defs] handle_op_add_def [handler_defs] handle_op_sub_def [handler_defs]
  handle_equal_def [handler_defs] check_sig_def [handler_defs] handle_to_ristretto_point_def [handler_defs]
  push_bool_def [handler_defs] push_result_def [handler_defs] verify_true_def [handler_defs]

lemma pop_two_Ok: "pop_two st = Ok (a, b, st') \<longleftrightarrow> st = st' @ [b, a]"
  by (auto simp: pop_two_def outcome_simps pop_or_underflow_Ok)

lemma pop_two_simps [simp]:
  "pop_two [] = Err StackUnderflow"
  "pop_two [x] = Err StackUnderflow"
  "pop_two (st @ [b, a]) = Ok (a, b, st)"
proof -
  show "pop_two [x] = Err StackUnderflow"
    using pop_or_underflow_snoc [of "[]" x] by (simp add: pop_two_def)
qed (simp_all add: pop_two_Ok, simp add: pop_two_def)

lemma stack_cases [case_names Nil one two]:
  obtains "st = []" | x where "st = [x]" | st' b a where "st = st' @ [b, a]"
  by (cases st rule: rev_cases) (simp, metis append_Nil append.assoc append_Cons rev_exhaust)

lemma pop_two_no_panic [simp]: "pop_two st \<noteq> Panic"
  by (auto simp: pop_two_def outcome_simps)

lemma push_inv: "push it st = Ok st' \<Longrightarrow> list_all item_wf st \<Longrightarrow> item_wf it \<Longrightarrow> stack_inv st'"
  by (auto simp: push_Ok stack_inv_def)

lemma stack_inv_append: "stack_inv (xs @ ys) \<Longrightarrow> stack_inv xs \<and> list_all item_wf ys"
  by (simp add: stack_inv_def)

lemma stack_inv_wf: "stack_inv st \<Longrightarrow> list_all item_wf st"
  by (simp add: stack_inv_def)

lemma push_bool_inv: "push_bool b st = Ok st' \<Longrightarrow> stack_inv st \<Longrightarrow> stack_inv st'"
  by (auto simp: push_bool_def stack_inv_def push_Ok split: if_splits)

lemma push_bool_no_panic [simp]: "push_bool b st \<noteq> Panic"
  by (simp add: push_bool_def)

lemma height_handlers_inv:
  assumes "stack_inv st"
  shows "handle_check_height_verify h b st = Ok st' \<Longrightarrow> stack_inv st'"
    and "handle_check_height st h b = Ok st' \<Longrightarrow> stack_inv st'"
    and "handle_compare_height_verify st b = Ok st' \<Longrightarrow> stack_inv st'"
    and "handle_compare_height st b = Ok st' \<Longrightarrow> stack_inv st'"
  using assms
  by (auto simp: handler_defs outcome_simps pop_into_number_Ok push_Ok stack_inv_def split: if_splits)

lemma number_handlers_inv:
  assumes "stack_inv st"
  shows "handle_cmp_to_zero st os = Ok st' \<Longrightarrow> stack_inv st'"
    and "handle_op_add C st = Ok st' \<Longrightarrow> stack_inv st'"
    and "handle_op_sub C st = Ok st' \<Longrightarrow> stack_inv st'"
proof -
  show "handle_cmp_to_zero st os = Ok st' \<Longrightarrow> stack_inv st'"
    using assms
    by (auto simp: handle_cmp_to_zero_def outcome_simps pop_into_number_Ok
        dest!: push_bool_inv stack_inv_append)
  show "handle_op_add C st = Ok st' \<Longrightarrow> stack_inv st'"
    using assms
    by (cases st rule: stack_cases)
      (auto simp: handle_op_add_def outcome_simps push_Ok stack_inv_def split: stack_item.splits)
  show "handle_op_sub C st = Ok st' \<Longrightarrow> stack_inv st'"
    using assms
    by (cases st rule: stack_cases)
      (auto simp: handle_op_sub_def outcome_simps push_Ok stack_inv_def split: stack_item.splits)
qed

lemma handle_equal_Ok: "handle_equal st = Ok (b, st') \<Longrightarrow> \<exists>x y. st = st' @ [y, x] \<and> b = (x = y)"
  by (cases st rule: stack_cases) (auto simp: handle_equal_def split: stack_item.splits)

lemma check_sig_Ok:
  "check_sig C st msg = Ok (b, st') \<longleftrightarrow>
   (\<exists>p s. st = st' @ [Signature s, PublicKey p] \<and> b = verify_challenge C s p msg)"
  by (cases st rule: stack_cases) (auto simp: check_sig_def split: stack_item.splits)

lemma handle_hash_inv:
  assumes "stack_inv st" and "handle_hash C digest st = Ok st'"
  shows "stack_inv st'"
  using assms
  by (cases st rule: rev_cases)
    (auto simp: handle_hash_def push_Ok stack_inv_def to_arr_def split: stack_item.splits if_splits)

lemma stack_handlers_inv:
  assumes "stack_inv st"
  shows "handle_dup st = Ok st' \<Longrightarrow> stack_inv st'"
    and "handle_drop st = Ok st' \<Longrightarrow> stack_inv st'"
    and "push_down d st = Ok st' \<Longrightarrow> stack_inv st'"
    and "handle_to_ristretto_point C st = Ok st' \<Longrightarrow> stack_inv st'"
proof -
  show "handle_dup st = Ok st' \<Longrightarrow> stack_inv st'"
    using assms by (auto simp: handle_dup_def peek_def push_Ok stack_inv_def list_all_iff split: if_splits)
  show "handle_drop st = Ok st' \<Longrightarrow> stack_inv st'"
    using assms by (auto simp: handle_drop_def vec_pop_Some stack_inv_def split: option.splits)
  show "push_down d st = Ok st' \<Longrightarrow> stack_inv st'"
    using assms push_down_length [of d st st'] push_down_set [of d st st']
    by (simp add: stack_inv_def list_all_iff)
  show "handle_to_ristretto_point C st = Ok st' \<Longrightarrow> stack_inv st'"
    using assms
    by (cases st rule: rev_cases)
      (auto simp: handle_to_ristretto_point_def outcome_simps push_Ok stack_inv_def split: stack_item.splits)
qed

lemma pop_n_plus_one_contains_inv:
  assumes "stack_inv st" and "pop_n_plus_one_contains n st = Ok (b, st')"
  shows "stack_inv st'"
proof -
  from assms(1) have "length st \<le> MAX_STACK_SIZE" by (simp add: stack_inv_def)
  then show ?thesis
    using assms by (cases rule: pop_n_plus_one_contains_cases [of st n]) (auto simp: stack_inv_def)
qed

lemma or_handlers_inv:
  assumes "stack_inv st"
  shows "handle_or st n = Ok st' \<Longrightarrow> stack_inv st'"
    and "handle_or_verify st n = Ok st' \<Longrightarrow> stack_inv st'"
  using assms
  by (auto simp: handle_or_def handle_or_verify_def outcome_simps
      dest: pop_n_plus_one_contains_inv push_bool_inv split: if_splits)

lemma check_multisig_Ok:
  assumes "check_multisig C st m n ks msg = Ok (k, st')"
  shows "\<exists>items. st = st' @ items \<and> length items = unat m"
  using assms
  by (auto simp: check_multisig_def outcome_simps pop_num_items_Ok split: if_splits option.splits)

lemma execute_opcode_inv:
  assumes "stack_inv st" and "opcode_wf op" and ex: "execute_opcode C op st ctx state = Ok (st', state')"
  shows "stack_inv st'"
proof (cases op)
  case (PushHash h)
  with ex assms show ?thesis by (auto simp: on_stack_def outcome_simps push_Ok stack_inv_def)
next
  case (CheckMultiSig m n ks msg)
  with ex assms show ?thesis
    by (auto simp: on_stack_def push_result_def is_valid_multisig_def outcome_simps
        dest!: check_multisig_Ok push_bool_inv stack_inv_append)
next
  case (CheckMultiSigVerify m n ks msg)
  with ex assms show ?thesis
    by (auto simp: on_stack_def verify_true_def is_valid_multisig_def outcome_simps
        dest!: check_multisig_Ok stack_inv_append split: if_splits)
next
  case (CheckMultiSigVerifyAggregatePubKey m n ks msg)
  with ex assms show ?thesis
    by (auto simp: on_stack_def outcome_simps dest!: check_multisig_Ok stack_inv_append push_inv
        intro: stack_inv_wf split: option.splits)
next
  case IfThen
  with ex assms show ?thesis
    by (cases st rule: rev_cases)
      (auto simp: handle_if_then_def dest!: stack_inv_append split: if_splits stack_item.splits)
qed (use ex assms in \<open>auto simp: on_stack_def on_state_def outcome_simps push_result_def verify_true_def
       check_sig_Ok
       dest: height_handlers_inv number_handlers_inv stack_handlers_inv handle_hash_inv or_handlers_inv
       dest!: push_bool_inv handle_equal_Ok stack_inv_append push_inv intro: stack_inv_wf
       split: if_splits\<close>)

subsection \<open>Only \<open>CompareHeight\<close> can panic\<close>

lemma in_i64_diff_nonneg: "0 \<le> sint (a :: i64) \<Longrightarrow> 0 \<le> sint (b :: i64) \<Longrightarrow> in_i64 (sint a - sint b)"
  using in_i64_sint [of a] in_i64_sint [of b] by (simp add: in_i64_def)

lemma handle_check_height_no_panic [simp]: "handle_check_height st h b \<noteq> Panic"
proof
  assume "handle_check_height st h b = Panic"
  then obtain h' b' where "u64_to_i64 h = Some h'" "u64_to_i64 b = Some b'" "\<not> in_i64 (sint b' - sint h')"
    by (auto simp: handle_check_height_def outcome_simps checked_sub_i64_None)
  then show False using in_i64_diff_nonneg [of b' h'] u64_to_i64_Some by blast
qed

lemma stack_handlers_no_panic [simp]:
  "handle_check_height_verify h b st \<noteq> Panic"
  "handle_compare_height_verify st b \<noteq> Panic"
  "handle_cmp_to_zero st os \<noteq> Panic"
  "handle_dup st \<noteq> Panic"
  "handle_drop st \<noteq> Panic"
  by (auto simp: handle_check_height_verify_def handle_compare_height_verify_def handle_cmp_to_zero_def
      handle_dup_def handle_drop_def outcome_simps split: option.splits)

lemma pair_handlers_no_panic [simp]:
  "handle_op_add C st \<noteq> Panic"
  "handle_op_sub C st \<noteq> Panic"
  "handle_equal st \<noteq> Panic"
  "check_sig C st msg \<noteq> Panic"
  by (cases st rule: stack_cases;
      auto simp: handle_op_add_def handle_op_sub_def handle_equal_def check_sig_def outcome_simps
        split: stack_item.splits)+

lemma handle_hash_no_panic:
  assumes "\<And>b. length (digest b) = 32"
  shows "handle_hash C digest st \<noteq> Panic"
  using assms
  by (cases st rule: rev_cases) (auto simp: handle_hash_def to_arr_def outcome_simps split: stack_item.splits)

lemma handle_to_ristretto_point_no_panic [simp]: "handle_to_ristretto_point C st \<noteq> Panic"
  by (cases st rule: rev_cases)
    (auto simp: handle_to_ristretto_point_def outcome_simps split: stack_item.splits)

lemma or_handlers_no_panic:
  assumes "stack_inv st"
  shows "handle_or st n \<noteq> Panic" and "handle_or_verify st n \<noteq> Panic"
proof -
  from assms have "length st \<le> MAX_STACK_SIZE" by (simp add: stack_inv_def)
  then have "pop_n_plus_one_contains (unat n) st \<noteq> Panic"
    by (cases rule: pop_n_plus_one_contains_cases [of st "unat n"]) auto
  then show "handle_or st n \<noteq> Panic" "handle_or_verify st n \<noteq> Panic"
    by (auto simp: handle_or_def handle_or_verify_def outcome_simps)
qed

lemma collect_signatures_no_panic [simp]: "collect_signatures items \<noteq> Panic"
  by (induction items) (auto simp: outcome_simps split: stack_item.splits)

lemma check_multisig_no_panic [simp]: "check_multisig C st m n ks msg \<noteq> Panic"
  by (auto simp: check_multisig_def outcome_simps split: option.splits)

lemma control_handlers_no_panic [simp]:
  "handle_else state \<noteq> Panic" "handle_end_if state \<noteq> Panic"
  by (auto simp: handle_else_def handle_end_if_def split: option.splits)

lemma handle_if_then_no_panic [simp]: "handle_if_then st state \<noteq> Panic"
  by (cases st rule: rev_cases) (auto simp: handle_if_then_def split: stack_item.splits)

lemma execute_opcode_no_panic:
  assumes "crypto_laws C" and "stack_inv st" and "op \<noteq> CompareHeight"
  shows "execute_opcode C op st ctx state \<noteq> Panic"
proof -
  note laws = digests_length [OF assms(1)]
  show ?thesis
    using assms(2,3) laws
    by (cases op)
      (auto simp: on_stack_def on_state_def push_result_def verify_true_def is_valid_multisig_def
        outcome_simps handle_hash_no_panic or_handlers_no_panic split: option.splits if_splits)
qed

text \<open>
  \<open>CompareHeight\<close> subtracts a number the script controls from the block height with the plain operator.
  It panics exactly when the difference leaves the range of \<open>i64\<close>.
\<close>

lemma handle_compare_height_panic_iff:
  "handle_compare_height st blk = Panic \<longleftrightarrow>
   (\<exists>st' n. st = st' @ [Number n] \<and> uint blk < 2 ^ 63 \<and> 2 ^ 63 \<le> uint blk - sint n)"
proof -
  have range: "\<not> in_i64 (uint blk - sint n) \<longleftrightarrow> 2 ^ 63 \<le> uint blk - sint n" for n :: i64
    using in_i64_sint [of n] uint_ge_0 [of blk] unfolding in_i64_def by linarith
  have "handle_compare_height st blk = Panic \<longleftrightarrow>
      (\<exists>st' n. st = st' @ [Number n] \<and> uint blk < 2 ^ 63 \<and> \<not> in_i64 (sint blk - sint n))"
    by (cases st rule: rev_cases)
      (auto simp: handle_compare_height_def outcome_simps pop_into_number_Ok u64_to_i64_def
        checked_sub_i64_None split: if_splits)
  then show ?thesis
    using range by (metis (no_types, lifting) sint_of_small_uint)
qed

lemma handle_compare_height_min:
  assumes "uint blk < 2 ^ 63"
  shows "handle_compare_height [Number (word_of_int (- (2 ^ 63)))] blk = Panic"
proof -
  have "sint (word_of_int (- (2 ^ 63)) :: i64) = - (2 ^ 63)"
    by (rule sint_word_of_int_i64) (simp add: in_i64_def)
  with assms show ?thesis
    unfolding handle_compare_height_panic_iff
    by (intro exI [of _ "[]"] exI [of _ "word_of_int (- (2 ^ 63))"]) simp
qed

subsection \<open>Runs\<close>

lemma execute_loop_append:
  "execute_loop C (ops @ ops') ctx s = and_then (execute_loop C ops ctx s) (execute_loop C ops' ctx)"
proof (induction ops arbitrary: s)
  case Nil
  then show ?case by (cases s) simp
next
  case (Cons op ops)
  have "execute_loop C (ops @ ops') ctx = (\<lambda>s. and_then (execute_loop C ops ctx s) (execute_loop C ops' ctx))"
    using Cons.IH by blast
  then show ?case by (cases s) (simp add: and_then_assoc)
qed

lemma execute_loop_inv:
  assumes "list_all opcode_wf ops" and "stack_inv (fst s)" and "execute_loop C ops ctx s = Ok (st', state')"
  shows "stack_inv st'"
  using assms
proof (induction ops arbitrary: s)
  case Nil
  then show ?case by (cases s) simp
next
  case (Cons op ops)
  obtain st state where s: "s = (st, state)" by fastforce
  show ?case
  proof (cases "should_execute op state")
    case True
    with Cons.prems s obtain st1 state1 where
      "execute_opcode C op st ctx state = Ok (st1, state1)" "execute_loop C ops ctx (st1, state1) = Ok (st', state')"
      by (auto simp: outcome_simps)
    with Cons.prems s Cons.IH [of "(st1, state1)"] show ?thesis
      using execute_opcode_inv [of st op C ctx state st1 state1] by simp
  next
    case False
    with Cons.prems s Cons.IH [of s] show ?thesis by simp
  qed
qed

lemma execute_loop_no_panic:
  assumes "crypto_laws C" and "CompareHeight \<notin> set ops" and "list_all opcode_wf ops" and "stack_inv (fst s)"
  shows "execute_loop C ops ctx s \<noteq> Panic"
  using assms(2-)
proof (induction ops arbitrary: s)
  case Nil
  then show ?case by (cases s) simp
next
  case (Cons op ops)
  obtain st state where s: "s = (st, state)" by fastforce
  show ?case
  proof (cases "should_execute op state")
    case True
    have "execute_opcode C op st ctx state \<noteq> Panic"
      using Cons.prems s by (intro execute_opcode_no_panic [OF assms(1)]) auto
    moreover have "execute_loop C ops ctx (st1, state1) \<noteq> Panic"
      if "execute_opcode C op st ctx state = Ok (st1, state1)" for st1 state1
      using Cons.prems s execute_opcode_inv [OF _ _ that] by (intro Cons.IH) auto
    ultimately show ?thesis using s True by (auto simp: outcome_simps)
  next
    case False
    with Cons s show ?thesis by simp
  qed
qed

subsection \<open>Multi-signature checking\<close>

text \<open>
  What an accepted multi-signature means: the signatures are distinct, each verifies under a key of its
  own, and the aggregate is the sum of those keys.
\<close>

definition multisig_witness ::
  "('pk, 'sk, 'com) crypto \<Rightarrow> bytes \<Rightarrow> 'pk list \<Rightarrow> ('pk, 'sk) schnorr list \<Rightarrow> nat list \<Rightarrow> 'pk \<Rightarrow> bool" where
  "multisig_witness C message public_keys sigs idx agg \<longleftrightarrow>
     length idx = length sigs \<and> distinct idx \<and> distinct sigs \<and>
     (\<forall>j < length sigs. idx ! j < length public_keys \<and>
        verify_challenge C (sigs ! j) (public_keys ! (idx ! j)) message) \<and>
     agg = foldl (pk_add C) (pk_default C) (map ((!) public_keys) idx)"

definition multisig_inv ::
  "('pk, 'sk, 'com) crypto \<Rightarrow> bytes \<Rightarrow> 'pk list \<Rightarrow> ('pk, 'sk) multisig_state \<Rightarrow> nat list \<Rightarrow> bool" where
  "multisig_inv C message public_keys ms idx \<longleftrightarrow>
     length (key_signed ms) = length public_keys \<and>
     (\<forall>i < length public_keys. key_signed ms ! i \<longleftrightarrow> i \<in> set idx) \<and>
     multisig_witness C message public_keys (sig_set ms) idx (agg_pub_key ms)"

lemma multisig_match_skip: "s \<in> set (sig_set ms) \<Longrightarrow> multisig_match C msg s pks ms = ms"
  by (induction pks) auto

lemma multisig_match_cases:
  assumes "s \<notin> set (sig_set ms)" and "k + length pks = length (key_signed ms)"
  obtains "multisig_match C msg s (enumerate k pks) ms = ms"
    and "\<And>i. i < length pks \<Longrightarrow> \<not> key_signed ms ! (k + i) \<Longrightarrow> \<not> verify_challenge C s (pks ! i) msg"
  | i where "i < length pks" and "\<not> key_signed ms ! (k + i)" and "verify_challenge C s (pks ! i) msg"
    and "multisig_match C msg s (enumerate k pks) ms =
       ms\<lparr>key_signed := (key_signed ms)[k + i := True], sig_set := sig_set ms @ [s],
          agg_pub_key := pk_add C (agg_pub_key ms) (pks ! i)\<rparr>"
  using assms
proof (induction pks arbitrary: k thesis)
  case Nil
  then show ?case by simp
next
  case (Cons pk pks)
  show ?case
  proof (cases "\<not> key_signed ms ! k \<and> verify_challenge C s pk msg")
    case True
    with Cons.prems(3) show ?thesis by (intro Cons.prems(2) [of 0]) simp_all
  next
    case False
    then have skip: "multisig_match C msg s (enumerate k (pk # pks)) ms =
        multisig_match C msg s (enumerate (Suc k) pks) ms" by auto
    have len: "Suc k + length pks = length (key_signed ms)" using Cons.prems(4) by simp
    from Cons.prems(3) len show ?thesis
    proof (rule Cons.IH [rotated 2])
      assume none: "multisig_match C msg s (enumerate (Suc k) pks) ms = ms"
        "\<And>i. i < length pks \<Longrightarrow> \<not> key_signed ms ! (Suc k + i) \<Longrightarrow> \<not> verify_challenge C s (pks ! i) msg"
      show thesis
      proof (rule Cons.prems(1))
        show "\<not> verify_challenge C s ((pk # pks) ! i) msg"
          if "i < length (pk # pks)" "\<not> key_signed ms ! (k + i)" for i
          using that none(2) [of "i - 1"] False by (cases i) auto
      qed (use skip none(1) in simp)
    next
      fix i
      assume "i < length pks" "\<not> key_signed ms ! (Suc k + i)" "verify_challenge C s (pks ! i) msg"
        "multisig_match C msg s (enumerate (Suc k) pks) ms =
           ms\<lparr>key_signed := (key_signed ms)[Suc k + i := True], sig_set := sig_set ms @ [s],
              agg_pub_key := pk_add C (agg_pub_key ms) (pks ! i)\<rparr>"
      then show thesis using skip by (intro Cons.prems(2) [of "Suc i"]) simp_all
    qed
  qed
qed

lemma multisig_inv_step:
  assumes inv: "multisig_inv C msg pks ms idx" and new: "s \<notin> set (sig_set ms)"
    and i: "i < length pks" "\<not> key_signed ms ! i" "verify_challenge C s (pks ! i) msg"
  shows "multisig_inv C msg pks
     (ms\<lparr>key_signed := (key_signed ms)[i := True], sig_set := sig_set ms @ [s],
         agg_pub_key := pk_add C (agg_pub_key ms) (pks ! i)\<rparr>) (idx @ [i])"
proof -
  have "i \<notin> set idx" using inv i(1,2) by (auto simp: multisig_inv_def)
  with inv new i show ?thesis
    by (auto simp: multisig_inv_def multisig_witness_def nth_list_update nth_append less_Suc_eq)
qed

lemma multisig_loop_inv:
  assumes "multisig_inv C msg pks ms idx" and "multisig_loop C msg pks sigs ms = Some ms'"
  shows "\<exists>idx'. multisig_inv C msg pks ms' idx' \<and> set (sig_set ms') = set (sig_set ms) \<union> set sigs \<and>
     (distinct (sig_set ms @ sigs) \<longrightarrow> sig_set ms' = sig_set ms @ sigs)"
  using assms
proof (induction sigs arbitrary: ms idx)
  case Nil
  then show ?case by auto
next
  case (Cons s sigs)
  let ?ms1 = "multisig_match C msg s (enumerate 0 pks) ms"
  from Cons.prems(2) have s: "s \<in> set (sig_set ?ms1)" and loop: "multisig_loop C msg pks sigs ?ms1 = Some ms'"
    by (auto simp: Let_def split: if_splits)
  show ?case
  proof (cases "s \<in> set (sig_set ms)")
    case True
    then have "?ms1 = ms" by (rule multisig_match_skip)
    with Cons.IH [OF Cons.prems(1)] loop True show ?thesis by auto
  next
    case False
    have "0 + length pks = length (key_signed ms)" using Cons.prems(1) by (simp add: multisig_inv_def)
    from False this show ?thesis
    proof (cases rule: multisig_match_cases [of s ms 0 pks C msg])
      case 1
      with s False show ?thesis by simp
    next
      case (2 i)
      then have ms1: "?ms1 = ms\<lparr>key_signed := (key_signed ms)[i := True], sig_set := sig_set ms @ [s],
          agg_pub_key := pk_add C (agg_pub_key ms) (pks ! i)\<rparr>" by simp
      have "multisig_inv C msg pks ?ms1 (idx @ [i])"
        unfolding ms1 using 2 by (intro multisig_inv_step [OF Cons.prems(1) False]) simp_all
      from Cons.IH [OF this loop] show ?thesis unfolding ms1 by auto
    qed
  qed
qed

lemma collect_signatures_Ok: "collect_signatures items = Ok sigs \<longleftrightarrow> items = map Signature sigs"
proof (induction items arbitrary: sigs)
  case (Cons item items)
  then show ?case by (cases item) (auto simp: outcome_simps Cons_eq_map_conv)
qed auto

lemma check_multisig_sound:
  assumes "check_multisig C st m n public_keys message = Ok (Some agg, st')"
  shows "\<exists>sigs idx. st = st' @ map Signature sigs \<and> length sigs = unat m \<and>
     0 < unat m \<and> unat m \<le> length public_keys \<and> length public_keys = unat n \<and> unat n \<le> 32 \<and>
     multisig_witness C message public_keys sigs idx agg"
proof -
  let ?ms0 = "\<lparr>key_signed = replicate (length public_keys) False, sig_set = [], agg_pub_key = pk_default C\<rparr>"
  from assms obtain sigs ms where
    guard: "m \<noteq> 0" "n \<noteq> 0" "\<not> m > n" "unat n \<le> 32" "length public_keys = unat n"
    and st: "st = st' @ map Signature sigs" and len: "length sigs = unat m"
    and loop: "multisig_loop C message public_keys sigs ?ms0 = Some ms"
    and fin: "length (sig_set ms) = unat m" "agg = agg_pub_key ms"
    by (auto simp: check_multisig_def MAX_MULTISIG_LIMIT_def outcome_simps pop_num_items_Ok
        collect_signatures_Ok split: if_splits option.splits)
  have "multisig_inv C message public_keys ?ms0 []"
    by (simp add: multisig_inv_def multisig_witness_def)
  from multisig_loop_inv [OF this loop] obtain idx where
    idx: "multisig_inv C message public_keys ms idx" and set: "set (sig_set ms) = set sigs"
    and eq: "distinct sigs \<Longrightarrow> sig_set ms = sigs"
    by auto
  have "distinct (sig_set ms)" using idx by (simp add: multisig_inv_def multisig_witness_def)
  then have "card (set sigs) = length sigs"
    using set fin(1) len by (metis distinct_card)
  then have "sig_set ms = sigs" using eq card_distinct by blast
  with idx fin(2) have "multisig_witness C message public_keys sigs idx agg"
    by (simp add: multisig_inv_def)
  moreover have "unat m \<le> unat n" using guard(3) by (simp add: word_le_nat_alt not_less)
  moreover have "0 < unat m" using guard(1) by (simp add: unat_gt_0)
  ultimately show ?thesis using st len guard by metis
qed

text \<open>
  The converse needs that no signature verifies under two of the listed keys: then the first match the
  loop finds is the only one, and every valid assignment is accepted.
\<close>

lemma multisig_loop_complete:
  assumes "multisig_inv C msg pks ms idx0" and "distinct (sig_set ms @ sigs)"
    and "length idx1 = length sigs" and "distinct (idx0 @ idx1)"
    and "\<And>j. j < length sigs \<Longrightarrow> idx1 ! j < length pks \<and> verify_challenge C (sigs ! j) (pks ! (idx1 ! j)) msg"
    and "\<And>j i. j < length sigs \<Longrightarrow> i < length pks \<Longrightarrow> verify_challenge C (sigs ! j) (pks ! i) msg \<Longrightarrow> i = idx1 ! j"
  shows "\<exists>ms'. multisig_loop C msg pks sigs ms = Some ms' \<and> sig_set ms' = sig_set ms @ sigs \<and>
     multisig_inv C msg pks ms' (idx0 @ idx1)"
  using assms
proof (induction sigs arbitrary: ms idx0 idx1)
  case Nil
  then show ?case by simp
next
  case (Cons s sigs)
  from Cons.prems(3) obtain i idx2 where idx1: "idx1 = i # idx2" "length idx2 = length sigs"
    by (cases idx1) auto
  from Cons.prems(5) [of 0] idx1 have i: "i < length pks" "verify_challenge C s (pks ! i) msg" by simp_all
  have len: "length (key_signed ms) = length pks" using Cons.prems(1) by (simp add: multisig_inv_def)
  have free: "\<not> key_signed ms ! i"
    using Cons.prems(1,4) idx1 i(1) by (simp add: multisig_inv_def)
  have new: "s \<notin> set (sig_set ms)" using Cons.prems(2) by simp
  let ?ms1 = "ms\<lparr>key_signed := (key_signed ms)[i := True], sig_set := sig_set ms @ [s],
      agg_pub_key := pk_add C (agg_pub_key ms) (pks ! i)\<rparr>"
  have "0 + length pks = length (key_signed ms)" using len by simp
  from new this have match: "multisig_match C msg s (enumerate 0 pks) ms = ?ms1"
  proof (cases rule: multisig_match_cases [of s ms 0 pks C msg])
    case 1
    with i free show ?thesis by fastforce
  next
    case (2 k)
    with Cons.prems(6) [of 0 k] idx1 have "k = i" by simp
    with 2 show ?thesis by simp
  qed
  have inv1: "multisig_inv C msg pks ?ms1 (idx0 @ [i])"
    by (rule multisig_inv_step [OF Cons.prems(1) new i(1) free i(2)])
  have "\<exists>ms'. multisig_loop C msg pks sigs ?ms1 = Some ms' \<and> sig_set ms' = sig_set ?ms1 @ sigs \<and>
      multisig_inv C msg pks ms' ((idx0 @ [i]) @ idx2)"
  proof (rule Cons.IH [OF inv1])
    show "distinct (sig_set ?ms1 @ sigs)" using Cons.prems(2) by auto
    show "length idx2 = length sigs" by (rule idx1(2))
    show "distinct ((idx0 @ [i]) @ idx2)" using Cons.prems(4) idx1(1) by simp
    show "idx2 ! j < length pks \<and> verify_challenge C (sigs ! j) (pks ! (idx2 ! j)) msg"
      if "j < length sigs" for j
      using Cons.prems(5) [of "Suc j"] that idx1(1) by simp
    show "k = idx2 ! j"
      if "j < length sigs" "k < length pks" "verify_challenge C (sigs ! j) (pks ! k) msg" for j k
      using Cons.prems(6) [of "Suc j" k] that idx1(1) by simp
  qed
  then show ?case using match idx1(1) by (simp add: Let_def)
qed

lemma check_multisig_complete:
  assumes "multisig_witness C message public_keys sigs idx agg"
    and "\<And>j i. j < length sigs \<Longrightarrow> i < length public_keys \<Longrightarrow>
           verify_challenge C (sigs ! j) (public_keys ! i) message \<Longrightarrow> i = idx ! j"
    and "length sigs = unat m" and "length public_keys = unat n" and "unat n \<le> 32" and "0 < unat m"
  shows "check_multisig C (st @ map Signature sigs) m n public_keys message = Ok (Some agg, st)"
proof -
  let ?ms0 = "\<lparr>key_signed = replicate (length public_keys) False, sig_set = [], agg_pub_key = pk_default C\<rparr>"
  have "multisig_inv C message public_keys ?ms0 []"
    by (simp add: multisig_inv_def multisig_witness_def)
  then have "\<exists>ms. multisig_loop C message public_keys sigs ?ms0 = Some ms \<and> sig_set ms = sig_set ?ms0 @ sigs \<and>
      multisig_inv C message public_keys ms ([] @ idx)"
    using assms(1,2) by (intro multisig_loop_complete) (simp_all add: multisig_witness_def)
  then obtain ms where ms: "multisig_loop C message public_keys sigs ?ms0 = Some ms" "sig_set ms = sigs"
      "multisig_inv C message public_keys ms idx"
    by auto
  then have agg: "agg_pub_key ms = agg"
    using assms(1) by (simp add: multisig_inv_def multisig_witness_def)
  have "card (set idx) \<le> card {..< length public_keys}"
    using assms(1) by (intro card_mono) (auto simp: multisig_witness_def in_set_conv_nth)
  then have "unat m \<le> unat n"
    using assms(1,3,4) by (simp add: multisig_witness_def distinct_card)
  then have guards: "m \<noteq> 0" "n \<noteq> 0" "\<not> m > n"
    using assms(6) by (auto simp: word_le_nat_alt not_less)
  have "pop_num_items (unat m) (st @ map Signature sigs) =
      (Ok (map Signature sigs, st) :: (script_error, ('a, 'b, 'c) exec_stack \<times> ('a, 'b, 'c) exec_stack) outcome)"
    using assms(3) by (simp add: pop_num_items_Ok)
  moreover have "collect_signatures (map Signature sigs :: ('a, 'b, 'c) stack_item list) = Ok sigs"
    by (simp add: collect_signatures_Ok)
  ultimately show ?thesis
    using guards assms(3-5) ms agg by (simp add: check_multisig_def MAX_MULTISIG_LIMIT_def)
qed

subsection \<open>Structured control flow\<close>

text \<open>
  The interpreter skips instructions with a flag and a stack of open conditionals. The abstract
  specification is a structured program: instructions and two-way conditionals, nested to any depth, that
  runs exactly one branch. \<open>compile_block\<close> writes it as the flat instruction list.
\<close>

datatype 'pk block = Plain "'pk opcode" | Cond "'pk block list" "'pk block list"

definition is_plain :: "'pk opcode \<Rightarrow> bool" where
  "is_plain op \<longleftrightarrow> op \<noteq> IfThen \<and> op \<noteq> Else \<and> op \<noteq> EndIf"

fun compile_block :: "'pk block \<Rightarrow> 'pk tari_script"
  and compile_blocks :: "'pk block list \<Rightarrow> 'pk tari_script" where
  "compile_block (Plain op) = [op]"
| "compile_block (Cond as bs) = IfThen # compile_blocks as @ Else # compile_blocks bs @ [EndIf]"
| "compile_blocks [] = []"
| "compile_blocks (b # bs) = compile_block b @ compile_blocks bs"

fun block_ok :: "'pk block \<Rightarrow> bool"
  and blocks_ok :: "'pk block list \<Rightarrow> bool" where
  "block_ok (Plain op) = is_plain op"
| "block_ok (Cond as bs) = (blocks_ok as \<and> blocks_ok bs)"
| "blocks_ok [] = True"
| "blocks_ok (b # bs) = (block_ok b \<and> blocks_ok bs)"

fun run_block ::
  "('pk, 'sk, 'com) crypto \<Rightarrow> 'com script_context \<Rightarrow> 'pk block \<Rightarrow> ('pk, 'sk, 'com) exec_stack \<Rightarrow>
   (script_error, ('pk, 'sk, 'com) exec_stack) outcome"
  and run_blocks ::
  "('pk, 'sk, 'com) crypto \<Rightarrow> 'com script_context \<Rightarrow> 'pk block list \<Rightarrow> ('pk, 'sk, 'com) exec_stack \<Rightarrow>
   (script_error, ('pk, 'sk, 'com) exec_stack) outcome" where
  "run_block C ctx (Plain op) st = map_ok fst (execute_opcode C op st ctx exec_state_default)"
| "run_block C ctx (Cond as bs) st =
     and_then (pop_or_underflow st) (\<lambda>(pred, st').
       case pred of
         Number n \<Rightarrow> if n = 1 then run_blocks C ctx as st'
                     else if n = 0 then run_blocks C ctx bs st'
                     else Err InvalidInput
       | _ \<Rightarrow> Err InvalidInput)"
| "run_blocks C ctx [] st = Ok st"
| "run_blocks C ctx (b # bs) st = and_then (run_block C ctx b st) (run_blocks C ctx bs)"

lemma on_stack_restate: "map_ok (\<lambda>st'. (st', s)) (map_ok fst (on_stack s0 r)) = on_stack s r"
  by (cases r) (simp_all add: on_stack_def)

lemma execute_plain:
  assumes "is_plain op"
  shows "execute_opcode C op st ctx state =
     map_ok (\<lambda>st'. (st', state)) (map_ok fst (execute_opcode C op st ctx exec_state_default))"
  using assms by (cases op) (simp_all add: is_plain_def on_stack_restate)

lemma should_execute_plain: "is_plain op \<Longrightarrow> should_execute op state = executing state"
  by (cases op) (simp_all add: is_plain_def should_execute_def)

lemma should_execute_control [simp]:
  "should_execute IfThen state" "should_execute Else state" "should_execute EndIf state"
  by (simp_all add: should_execute_def)

definition open_if :: "branch \<Rightarrow> bool \<Rightarrow> exec_state \<Rightarrow> bool \<Rightarrow> exec_state" where
  "open_if b expected state ex =
     \<lparr>executing = ex, if_stack = if_stack state @ [\<lparr>if_branch = b, else_expected = expected\<rparr>]\<rparr>"

lemma executing_open_if [simp]: "executing (open_if b e state ex) = ex"
  by (simp add: open_if_def)

lemma handle_if_then_simps:
  "\<not> executing state \<Longrightarrow> handle_if_then st state = Ok (st, open_if NotExecuted True state False)"
  "executing state \<Longrightarrow> handle_if_then (st @ [Number 1]) state = Ok (st, open_if ExecuteIf True state True)"
  "executing state \<Longrightarrow> handle_if_then (st @ [Number 0]) state = Ok (st, open_if ExecuteElse True state False)"
  by (cases state; simp add: handle_if_then_def open_if_def)+

lemma handle_else_open_if:
  "handle_else (open_if b True state ex) = Ok (open_if b False state (b = ExecuteElse))"
  by (cases b) (simp_all add: handle_else_def open_if_def)

lemma handle_end_if_open_if:
  "executing state = (b \<noteq> NotExecuted) \<Longrightarrow> handle_end_if (open_if b False state ex) = Ok state"
  by (cases state; cases b) (simp_all add: handle_end_if_def open_if_def)

lemma execute_blocks:
  "block_ok b \<Longrightarrow> execute_loop C (compile_block b) ctx (st, state) =
     (if executing state then map_ok (\<lambda>st'. (st', state)) (run_block C ctx b st) else Ok (st, state))"
  "blocks_ok bs \<Longrightarrow> execute_loop C (compile_blocks bs) ctx (st, state) =
     (if executing state then map_ok (\<lambda>st'. (st', state)) (run_blocks C ctx bs st) else Ok (st, state))"
proof (induction b and bs arbitrary: st state and st state rule: compile_block_compile_blocks.induct)
  case (1 op)
  then show ?case
    using execute_plain [of op C st ctx state]
    by (cases "execute_opcode C op st ctx exec_state_default") (auto simp: should_execute_plain)
next
  case (2 as bs)
  have run_as: "execute_loop C (compile_blocks as) ctx (st', s) =
      (if executing s then map_ok (\<lambda>st''. (st'', s)) (run_blocks C ctx as st') else Ok (st', s))" for st' s
    using 2 by simp
  have run_bs: "execute_loop C (compile_blocks bs) ctx (st', s) =
      (if executing s then map_ok (\<lambda>st''. (st'', s)) (run_blocks C ctx bs st') else Ok (st', s))" for st' s
    using 2 by simp
  have tail_bs: "execute_loop C (Else # compile_blocks bs @ [EndIf]) ctx (st', open_if b True state ex) =
      (if b = ExecuteElse then map_ok (\<lambda>st''. (st'', state)) (run_blocks C ctx bs st') else Ok (st', state))"
    if "executing state = (b \<noteq> NotExecuted)" for b ex st'
    using that
    by (cases "run_blocks C ctx bs st'")
      (auto simp: on_state_def handle_else_open_if handle_end_if_open_if execute_loop_append run_bs)
  let ?rest = "Else # compile_blocks bs @ [EndIf]"
  have unfold: "execute_loop C (compile_block (Cond as bs)) ctx (st, state) =
      and_then (handle_if_then st state) (\<lambda>s. and_then (execute_loop C (compile_blocks as) ctx s) (execute_loop C ?rest ctx))"
    by (cases "handle_if_then st state") (simp_all only: compile_block.simps execute_loop.simps
        should_execute_control if_True execute_opcode.simps and_then.simps execute_loop_append)
  show ?case
  proof (cases "executing state")
    case False
    then show ?thesis
      unfolding unfold by (simp add: handle_if_then_simps run_as tail_bs del: execute_loop.simps)
  next
    case True
    show ?thesis
    proof (cases st rule: rev_cases)
      case Nil
      with True show ?thesis unfolding unfold by (simp add: handle_if_then_def)
    next
      case (snoc st' item)
      have "handle_if_then st state = Err InvalidInput \<and> run_block C ctx (Cond as bs) st = Err InvalidInput"
        if "item \<noteq> Number 1" "item \<noteq> Number 0"
        using snoc True that by (cases item) (simp_all add: handle_if_then_def)
      then consider "item = Number 1" | "item = Number 0"
        | "handle_if_then st state = Err InvalidInput" "run_block C ctx (Cond as bs) st = Err InvalidInput"
        by blast
      then show ?thesis
      proof cases
        case 1
        with snoc True show ?thesis
          unfolding unfold
          by (cases "run_blocks C ctx as st'") (simp_all add: handle_if_then_simps run_as tail_bs del: execute_loop.simps)
      next
        case 2
        with snoc True show ?thesis
          unfolding unfold by (simp add: handle_if_then_simps run_as tail_bs del: execute_loop.simps)
      next
        case 3
        with True show ?thesis unfolding unfold by simp
      qed
    qed
  qed
next
  case 3
  then show ?case by simp
next
  case (4 b bs)
  then show ?case
    by (cases "run_block C ctx b st") (auto simp: execute_loop_append)
qed

lemma execute_with_context_blocks:
  assumes "blocks_ok bs"
  shows "execute_with_context C (compile_blocks bs) inputs ctx =
     and_then (run_blocks C ctx bs inputs) (\<lambda>st. case st of [item] \<Rightarrow> Ok item | _ \<Rightarrow> Err NonUnitLengthStack)"
proof -
  have *: "(if length st = Suc 0 then (case vec_pop st of Some (item, _) \<Rightarrow> Ok item | None \<Rightarrow> Err NonUnitLengthStack)
      else Err NonUnitLengthStack) = (case st of [item] \<Rightarrow> Ok item | _ \<Rightarrow> Err NonUnitLengthStack)"
    for st :: "('a, 'b, 'c) exec_stack"
    by (cases st) (auto simp: vec_pop_def length_Suc_conv split: list.splits)
  show ?thesis
    using execute_blocks(2) [OF assms, of C ctx inputs exec_state_default]
    by (cases "run_blocks C ctx bs inputs")
      (simp_all add: execute_with_context_def exec_state_default_def * split del: if_split)
qed

text \<open>
  Conversely, a run that ends with no open conditional is the run of a structured program. \<open>closes\<close> says
  what is left to read for a given stack of open conditionals, the innermost first.
\<close>

fun closes :: "if_state list \<Rightarrow> 'pk tari_script \<Rightarrow> bool" where
  "closes [] ops = (\<exists>bs. blocks_ok bs \<and> ops = compile_blocks bs)"
| "closes (i # is) ops =
     (if else_expected i
      then \<exists>as bs rest. blocks_ok as \<and> blocks_ok bs \<and>
             ops = compile_blocks as @ Else # compile_blocks bs @ EndIf # rest \<and> closes is rest
      else \<exists>bs rest. blocks_ok bs \<and> ops = compile_blocks bs @ EndIf # rest \<and> closes is rest)"

lemma closes_Cons_block:
  assumes "block_ok b" and "closes is ops"
  shows "closes is (compile_block b @ ops)"
proof (cases "is")
  case Nil
  with assms obtain bs where "blocks_ok bs" "ops = compile_blocks bs" by auto
  with assms(1) Nil show ?thesis by (auto intro!: exI [of _ "b # bs"])
next
  case (Cons i is')
  show ?thesis
  proof (cases "else_expected i")
    case True
    with assms Cons obtain as bs rest where "blocks_ok as" "blocks_ok bs"
        "ops = compile_blocks as @ Else # compile_blocks bs @ EndIf # rest" "closes is' rest" by auto
    then have "blocks_ok (b # as) \<and> blocks_ok bs \<and> compile_block b @ ops =
        compile_blocks (b # as) @ Else # compile_blocks bs @ EndIf # rest \<and> closes is' rest"
      using assms(1) by simp
    with Cons True show ?thesis by (simp only: closes.simps if_True) blast
  next
    case False
    with assms Cons obtain bs rest where "blocks_ok bs" "ops = compile_blocks bs @ EndIf # rest" "closes is' rest"
      by auto
    then have "blocks_ok (b # bs) \<and> compile_block b @ ops = compile_blocks (b # bs) @ EndIf # rest \<and> closes is' rest"
      using assms(1) by simp
    with Cons False show ?thesis by (simp only: closes.simps if_False) blast
  qed
qed

lemma closes_Cons_plain: "is_plain op \<Longrightarrow> closes is ops \<Longrightarrow> closes is (op # ops)"
  using closes_Cons_block [of "Plain op" "is" ops] by simp

lemma closes_open:
  assumes "closes (i # is) ops" and "else_expected i"
  shows "closes is (IfThen # ops)"
proof -
  from assms obtain as bs rest where *: "blocks_ok as" "blocks_ok bs"
    "ops = compile_blocks as @ Else # compile_blocks bs @ EndIf # rest" "closes is rest" by auto
  with closes_Cons_block [of "Cond as bs" "is" rest] show ?thesis by simp
qed

lemma closes_else:
  assumes "closes (i # is) ops" and "\<not> else_expected i" and "else_expected j"
  shows "closes (j # is) (Else # ops)"
proof -
  from assms obtain bs rest where *: "blocks_ok bs" "ops = compile_blocks bs @ EndIf # rest" "closes is rest"
    by auto
  then have "blocks_ok [] \<and> blocks_ok bs \<and> Else # ops =
      compile_blocks [] @ Else # compile_blocks bs @ EndIf # rest \<and> closes is rest" by simp
  with assms(3) show ?thesis by (simp only: closes.simps if_True) blast
qed

lemma closes_end:
  assumes "closes is ops" and "\<not> else_expected i"
  shows "closes (i # is) (EndIf # ops)"
proof -
  have "blocks_ok [] \<and> EndIf # ops = compile_blocks [] @ EndIf # ops \<and> closes is ops"
    using assms(1) by simp
  with assms(2) show ?thesis by (simp only: closes.simps if_False) blast
qed

lemma execute_plain_state:
  assumes "is_plain op" and "execute_opcode C op st ctx state = Ok (st', state')"
  shows "state' = state"
  using assms(2) execute_plain [OF assms(1), of C st ctx state] by (auto simp: outcome_simps)

lemma execute_loop_closes:
  assumes "execute_loop C ops ctx (st, state) = Ok (st', state')" and "if_stack state' = []"
  shows "closes (rev (if_stack state)) ops"
  using assms(1)
proof (induction ops arbitrary: st state)
  case Nil
  with assms(2) show ?case by (auto intro!: exI [of _ "[]"])
next
  case (Cons op ops)
  consider "is_plain op" | "op = IfThen" | "op = Else" | "op = EndIf" by (auto simp: is_plain_def)
  then show ?case
  proof cases
    case 1
    have "\<exists>st1. execute_loop C ops ctx (st1, state) = Ok (st', state')"
      using Cons.prems 1 by (auto simp: outcome_simps split: if_splits dest: execute_plain_state)
    then show ?thesis using Cons.IH 1 closes_Cons_plain by blast
  next
    case 2
    with Cons.prems obtain st1 state1 where "handle_if_then st state = Ok (st1, state1)"
        "execute_loop C ops ctx (st1, state1) = Ok (st', state')"
      by (auto simp: outcome_simps)
    moreover from this(1) obtain i where "if_stack state1 = if_stack state @ [i]" "else_expected i"
      by (cases st rule: rev_cases) (auto simp: handle_if_then_def split: if_splits stack_item.splits)
    ultimately show ?thesis using Cons.IH [of st1 state1] 2 by (auto intro: closes_open simp del: closes.simps)
  next
    case 3
    with Cons.prems obtain state1 where e: "handle_else state = Ok state1"
        "execute_loop C ops ctx (st, state1) = Ok (st', state')"
      by (auto simp: outcome_simps on_state_def)
    from e(1) obtain i below where "if_stack state = below @ [i]" "else_expected i"
        "if_stack state1 = below @ [i\<lparr>else_expected := False\<rparr>]"
      by (auto simp: handle_else_def vec_pop_Some split: option.splits if_splits)
    with Cons.IH [OF e(2)] 3 show ?thesis by (auto intro!: closes_else simp del: closes.simps)
  next
    case 4
    with Cons.prems obtain state1 where e: "handle_end_if state = Ok state1"
        "execute_loop C ops ctx (st, state1) = Ok (st', state')"
      by (auto simp: outcome_simps on_state_def)
    from e(1) obtain i where "if_stack state = if_stack state1 @ [i]" "\<not> else_expected i"
      by (auto simp: handle_end_if_def vec_pop_Some split: option.splits if_splits)
    with Cons.IH [OF e(2)] 4 show ?thesis by (auto intro!: closes_end simp del: closes.simps)
  qed
qed

subsection \<open>Properties\<close>

lemma execute_with_context_Ok:
  assumes "execute_with_context C script inputs ctx = Ok item"
  obtains state where "execute_loop C script ctx (inputs, exec_state_default) = Ok ([item], state)"
    and "if_stack state = []"
  using assms
  by (auto simp: execute_with_context_def outcome_simps vec_pop_Some length_Suc_conv
      split: if_splits option.splits)

text \<open>
  (C10) Execution stays within the stack bound: from inputs of at most 255 well-formed items, every prefix
  of a parsed script that runs leaves at most 255 well-formed items.
\<close>

theorem vm_stack_bounded:
  assumes "list_all opcode_wf (ops @ ops')" and "length inputs \<le> MAX_STACK_SIZE" and "list_all item_wf inputs"
    and "execute_loop C ops ctx (inputs, exec_state_default) = Ok (st, state)"
  shows "length st \<le> MAX_STACK_SIZE \<and> list_all item_wf st"
  using execute_loop_inv [of ops "(inputs, exec_state_default)" C ctx st state] assms
  by (simp add: stack_inv_def)

theorem vm_stack_bounded_witness:
  "length [Number 1, Number 1 :: (u8, u8, u8) stack_item] \<le> MAX_STACK_SIZE \<and>
   list_all item_wf [Number 1, Number 1 :: (u8, u8, u8) stack_item]"
  by (rule vm_stack_bounded [where C = sample_crypto and ops = "[PushOne, Dup]" and ops' = "[Add]" and inputs = "[]"
        and ctx = "\<lparr>block_height = 0, prev_block_hash = [], commitment = 0\<rparr>" and state = exec_state_default])
    (simp_all add: exec_state_default_def should_execute_def on_stack_def push_def MAX_STACK_SIZE_def
      handle_dup_def peek_def)

text \<open>
  (C5) The only instruction that can abort a node is \<open>CompareHeight\<close>: a parsed script without it, run on
  a parsed input stack, always ends with a value or an error, in any context.
\<close>

theorem vm_no_panic_without_compare_height:
  assumes "crypto_laws C" and "list_all opcode_wf script" and "CompareHeight \<notin> set script"
    and "length inputs \<le> MAX_STACK_SIZE" and "list_all item_wf inputs"
  shows "execute_with_context C script inputs ctx \<noteq> Panic"
  using execute_loop_no_panic [OF assms(1,3,2), of "(inputs, exec_state_default)" ctx] assms(4,5)
  by (auto simp: execute_with_context_def outcome_simps stack_inv_def split: option.splits if_splits)

theorem vm_no_panic_without_compare_height_witness:
  "execute_with_context sample_crypto [PushHash (replicate 32 1), HashBlake256, Or 0] [Number 3]
     \<lparr>block_height = 0, prev_block_hash = [], commitment = 0\<rparr> \<noteq> Panic"
  by (rule vm_no_panic_without_compare_height) (simp_all add: sample_crypto_laws MAX_STACK_SIZE_def)

text \<open>
  (C6) \<open>CompareHeight\<close> aborts the process exactly when the number on top of the stack is so negative that
  the block height minus it leaves the range of \<open>i64\<close>. The spender of an output chooses that number, so
  the two-instruction script that pushes \<open>i64::MIN\<close> and compares it stops every node that runs it.
\<close>

theorem compare_height_panics:
  "(handle_compare_height st blk = Panic \<longleftrightarrow>
     (\<exists>st' n. st = st' @ [Number n] \<and> uint blk < 2 ^ 63 \<and> 2 ^ 63 \<le> uint blk - sint n)) \<and>
   (uint (block_height ctx) < 2 ^ 63 \<longrightarrow>
     execute_with_context C [PushInt (word_of_int (- (2 ^ 63))), CompareHeight] [] ctx = Panic)"
proof (intro conjI impI)
  show "handle_compare_height st blk = Panic \<longleftrightarrow>
     (\<exists>st' n. st = st' @ [Number n] \<and> uint blk < 2 ^ 63 \<and> 2 ^ 63 \<le> uint blk - sint n)"
    by (rule handle_compare_height_panic_iff)
  assume h: "uint (block_height ctx) < 2 ^ 63"
  show "execute_with_context C [PushInt (word_of_int (- (2 ^ 63))), CompareHeight] [] ctx = Panic"
    by (simp add: execute_with_context_def exec_state_default_def should_execute_def on_stack_def push_def
        MAX_STACK_SIZE_def handle_compare_height_min [OF h, simplified])
qed

theorem compare_height_panics_witness:
  "execute_with_context sample_crypto [PushInt (word_of_int (- (2 ^ 63))), CompareHeight] []
     \<lparr>block_height = 1000, prev_block_hash = [], commitment = 0\<rparr> = Panic"
  by (rule compare_height_panics [THEN conjunct2, THEN mp]) simp





text \<open>
  (C2) The flag machine implements structured control flow: running the flat form of a structured program
  is running the program, one branch per conditional, with the same stack and the same errors; nested
  conditionals in a branch not taken have no effect.
\<close>

theorem vm_refines_structured_programs:
  assumes "blocks_ok bs"
  shows "execute_with_context C (compile_blocks bs) inputs ctx =
     and_then (run_blocks C ctx bs inputs) (\<lambda>st. case st of [item] \<Rightarrow> Ok item | _ \<Rightarrow> Err NonUnitLengthStack)"
  by (rule execute_with_context_blocks [OF assms])

theorem vm_refines_structured_programs_witness:
  "execute_with_context sample_crypto (compile_blocks [Cond [Plain PushOne] [Cond [Plain Return] [Plain PushZero]]])
     [Number 1] \<lparr>block_height = 0, prev_block_hash = [], commitment = 0\<rparr> = Ok (Number 1)"
proof -
  have pop: "pop_or_underflow [Number 1 :: (u8, u8, u8) stack_item] = Ok (Number 1, [])"
    using pop_or_underflow_snoc [of "[]"] by simp
  show ?thesis
    by (subst vm_refines_structured_programs)
      (simp_all add: is_plain_def pop on_stack_def push_def MAX_STACK_SIZE_def)
qed

text \<open>
  (C8) Every script that executes successfully is the flat form of a structured program: conditionals are
  properly nested, each \<open>IfThen\<close> has exactly one \<open>Else\<close> and one \<open>EndIf\<close>.
\<close>

theorem vm_success_is_structured:
  assumes "execute_with_context C script inputs ctx = Ok item"
  shows "\<exists>bs. blocks_ok bs \<and> script = compile_blocks bs"
proof -
  obtain state where "execute_loop C script ctx (inputs, exec_state_default) = Ok ([item], state)" "if_stack state = []"
    using assms by (rule execute_with_context_Ok)
  from execute_loop_closes [OF this] show ?thesis by (simp add: exec_state_default_def)
qed

theorem vm_success_is_structured_witness:
  "\<exists>bs. blocks_ok bs \<and> [PushOne, IfThen, PushZero, Else, Return, EndIf :: u8 opcode] = compile_blocks bs"
proof -
  let ?ctx = "\<lparr>block_height = 0, prev_block_hash = [], commitment = 0 :: u8\<rparr>"
  have pop: "pop_or_underflow [Number 1 :: (u8, u8, u8) stack_item] = Ok (Number 1, [])"
    using pop_or_underflow_snoc [of "[]"] by simp
  have "execute_with_context sample_crypto [PushOne, IfThen, PushZero, Else, Return, EndIf] [] ?ctx = Ok (Number 0)"
    by (simp add: execute_with_context_def exec_state_default_def should_execute_def on_stack_def on_state_def
        push_def MAX_STACK_SIZE_def handle_if_then_def pop handle_else_def handle_end_if_def vec_pop_def)
  then show ?thesis by (rule vm_success_is_structured)
qed

text \<open>
  A spend of the standard payment scripts ends with the recipient's public key: with no inputs the
  default script ends in \<open>0\<close>, the one-sided script in the destination key, the stealth script in the
  spending key, whatever the context.
\<close>

theorem payment_scripts_result:
  "execute_with_context C script_default [] ctx = Ok (Number 0) \<and>
   execute_with_context C (one_sided_payment_script dest) [] ctx = Ok (PublicKey dest) \<and>
   execute_with_context C (stealth_payment_script nonce spend) [] ctx = Ok (PublicKey spend)"
  by (simp add: script_default_def one_sided_payment_script_def stealth_payment_script_def
      execute_with_context_def exec_state_default_def should_execute_def on_stack_def push_def MAX_STACK_SIZE_def
      handle_drop_def vec_pop_def)

end
