(* ===== verification/Amounts.thy ===== *)
theory Amounts
  imports Prelude
begin

text \<open>
  Amounts, weights and fees: \<open>MicroTari\<close> and its arithmetic
  (\<open>src/base_layer/core/src/transactions/tari_amount.rs\<close>), the weight of a transaction in grams
  (\<open>weight.rs\<close>), the fee (\<open>fee.rs\<close>) and the formatting of an amount with separators
  (\<open>format_currency.rs\<close>). \<open>MicroTari\<close> is a newtype of \<open>u64\<close>; \<open>usize\<close> is 64 bits wide. The operators that
  the \<open>newtype_ops\<close> macro derives are the plain operators of \<open>u64\<close> and panic on overflow.
\<close>

subsection \<open>MicroTari\<close>

type_synonym micro_tari = u64

definition uT :: micro_tari where "uT = 1"

definition T :: micro_tari where "T = 1000000"

definition mt_checked_add :: "micro_tari \<Rightarrow> micro_tari \<Rightarrow> micro_tari option" where
  "mt_checked_add self v = checked_add_u64 self v"

definition mt_checked_sub :: "micro_tari \<Rightarrow> micro_tari \<Rightarrow> ('e, micro_tari option) outcome" where
  "mt_checked_sub self v = (if v \<le> self then map_ok Some (sub_u64 self v) else Ok None)"

definition mt_checked_mul :: "micro_tari \<Rightarrow> micro_tari \<Rightarrow> micro_tari option" where
  "mt_checked_mul self v = checked_mul_u64 self v"

definition mt_checked_div :: "micro_tari \<Rightarrow> micro_tari \<Rightarrow> micro_tari option" where
  "mt_checked_div self v = checked_div_u64 self v"

definition saturating_sub :: "micro_tari \<Rightarrow> micro_tari \<Rightarrow> ('e, micro_tari) outcome" where
  "saturating_sub self v = (if v \<le> self then sub_u64 self v else Ok 0)"

definition tari_from_u64 :: "u64 \<Rightarrow> ('e, micro_tari) outcome" where
  "tari_from_u64 v = mul_u64 v 1000000"

text \<open>\<open>Iterator::sum\<close> over amounts: a fold of the plain addition from zero.\<close>

fun sum_from :: "micro_tari \<Rightarrow> micro_tari list \<Rightarrow> ('e, micro_tari) outcome" where
  "sum_from acc [] = Ok acc"
| "sum_from acc (v # vs) = and_then (add_u64 acc v) (\<lambda>acc. sum_from acc vs)"

definition mt_sum :: "micro_tari list \<Rightarrow> ('e, micro_tari) outcome" where
  "mt_sum vs = sum_from 0 vs"

lemma sum_from_eq_Ok:
  "sum_from acc vs = Ok s \<longleftrightarrow> unat s = unat acc + sum_list (map unat vs)"
proof (induction vs arbitrary: acc)
  case Nil
  show ?case by (auto simp: word_unat_eq_iff)
next
  case (Cons v vs)
  show ?case
  proof (cases "unat acc + unat v < 2 ^ 64")
    case True
    from add_u64_ok [OF this] obtain c where "add_u64 acc v = (Ok c :: ('a, u64) outcome)" "unat c = unat acc + unat v"
      by blast
    then show ?thesis by (simp add: Cons.IH add.assoc)
  next
    case False
    then have "add_u64 acc v = (Panic :: ('a, u64) outcome)" by (simp add: u64_simps)
    then show ?thesis using False unat_less_u64 [of s] by simp
  qed
qed

lemma sum_from_not_Err [simp]: "sum_from acc vs \<noteq> Err e"
  by (induction vs arbitrary: acc)
    (auto simp: outcome_simps add_u64_def or_panic_def split: option.splits)

lemma mt_sum_eq_Ok: "mt_sum vs = Ok s \<longleftrightarrow> unat s = sum_list (map unat vs)"
  by (simp add: mt_sum_def sum_from_eq_Ok)

lemma mt_sum_eq_Panic: "mt_sum vs = (Panic :: ('e, micro_tari) outcome) \<longleftrightarrow> 2 ^ 64 \<le> sum_list (map unat vs)"
proof (cases "mt_sum vs :: ('e, micro_tari) outcome")
  case (Ok s)
  with mt_sum_eq_Ok [THEN iffD1, OF Ok] unat_less_u64 [of s] show ?thesis by simp
next
  case (Err e)
  then show ?thesis by (simp add: mt_sum_def)
next
  case Panic
  have "\<not> sum_list (map unat vs) < 2 ^ 64"
  proof
    assume "sum_list (map unat vs) < 2 ^ 64"
    then have "mt_sum vs = (Ok (of_nat (sum_list (map unat vs))) :: ('e, micro_tari) outcome)"
      by (simp add: mt_sum_eq_Ok unat_of_nat)
    with Panic show False by simp
  qed
  with Panic show ?thesis by simp
qed

lemma checked_sub_total: "\<exists>r. mt_checked_sub self v = Ok r"
  by (simp add: mt_checked_sub_def word_le_nat_alt sub_u64_ok)

subsection \<open>Weights\<close>

text \<open>
  \<open>features_and_scripts_bytes_per_gram\<close> is an \<open>Option<NonZeroU64>\<close>; \<open>weight_params_wf\<close> states that the
  number is not zero.
\<close>

record weight_params =
  kernel_weight :: u64
  input_weight :: u64
  output_weight :: u64
  features_and_scripts_bytes_per_gram :: "u64 option"

definition weight_params_v1 :: weight_params where
  "weight_params_v1 = \<lparr>kernel_weight = 10, input_weight = 8, output_weight = 53,
     features_and_scripts_bytes_per_gram = Some 16\<rparr>"

definition weight_params_wf :: "weight_params \<Rightarrow> bool" where
  "weight_params_wf p \<longleftrightarrow> features_and_scripts_bytes_per_gram p \<noteq> Some 0"

definition weight_calculate :: "weight_params \<Rightarrow> u64 \<Rightarrow> u64 \<Rightarrow> u64 \<Rightarrow> u64 \<Rightarrow> ('e, u64) outcome" where
  "weight_calculate params num_kernels num_inputs num_outputs rounded_size =
     and_then (mul_u64 (kernel_weight params) num_kernels) (\<lambda>k.
     and_then (mul_u64 (input_weight params) num_inputs) (\<lambda>i.
     and_then (add_u64 k i) (\<lambda>ki.
     and_then (mul_u64 (output_weight params) num_outputs) (\<lambda>out.
     and_then (add_u64 ki out) (\<lambda>kio.
     add_u64 kio (case features_and_scripts_bytes_per_gram params of
         None \<Rightarrow> 0
       | Some per_gram \<Rightarrow> rounded_size div per_gram))))))"

definition round_up_features_and_scripts_size :: "weight_params \<Rightarrow> u64 \<Rightarrow> u64" where
  "round_up_features_and_scripts_size params sz =
     (case features_and_scripts_bytes_per_gram params of
        None \<Rightarrow> sz
      | Some per_gram \<Rightarrow>
          (let rem = sz mod per_gram
           in if rem = 0 then sz
              else (case checked_add_u64 sz (per_gram - rem) of None \<Rightarrow> sz | Some r \<Rightarrow> r)))"

text \<open>The weight over the natural numbers, without the width of the machine integers.\<close>

definition weight_spec :: "weight_params \<Rightarrow> nat \<Rightarrow> nat \<Rightarrow> nat \<Rightarrow> nat \<Rightarrow> nat" where
  "weight_spec params k i n sz =
     unat (kernel_weight params) * k + unat (input_weight params) * i + unat (output_weight params) * n +
     (case features_and_scripts_bytes_per_gram params of None \<Rightarrow> 0 | Some g \<Rightarrow> sz div unat g)"

lemma weight_calculate_eq_Ok:
  "weight_calculate params k i n sz = (Ok w :: ('e, u64) outcome) \<longleftrightarrow>
     unat w = weight_spec params (unat k) (unat i) (unat n) (unat sz)"
proof
  assume "weight_calculate params k i n sz = (Ok w :: ('e, u64) outcome)"
  then show "unat w = weight_spec params (unat k) (unat i) (unat n) (unat sz)"
    by (auto simp: weight_calculate_def weight_spec_def outcome_simps u64_simps unat_div split: option.splits)
next
  let ?s = "weight_spec params (unat k) (unat i) (unat n) (unat sz)"
  assume w: "unat w = ?s"
  then have b: "?s < 2 ^ 64" using unat_less_u64 [of w] by simp
  have ex: "\<exists>c. (m :: ('e, u64) outcome) = Ok c \<and> unat c = v"
    if "m = or_panic (u64_of_nat v)" "v \<le> ?s" for m :: "('e, u64) outcome" and v
    using that b by (simp add: u64_of_nat_def unat_of_nat)
  have ka: "unat (kernel_weight params) * unat k \<le> ?s" "unat (input_weight params) * unat i \<le> ?s"
    "unat (output_weight params) * unat n \<le> ?s"
    "unat (kernel_weight params) * unat k + unat (input_weight params) * unat i \<le> ?s"
    "unat (kernel_weight params) * unat k + unat (input_weight params) * unat i +
     unat (output_weight params) * unat n \<le> ?s"
    by (simp_all add: weight_spec_def)
  obtain a where a: "mul_u64 (kernel_weight params) k = (Ok a :: ('e, u64) outcome)" "unat a = unat (kernel_weight params) * unat k"
    using ex [OF _ ka(1)] by (auto simp: mul_u64_def checked_mul_u64_def)
  obtain b' where b': "mul_u64 (input_weight params) i = (Ok b' :: ('e, u64) outcome)" "unat b' = unat (input_weight params) * unat i"
    using ex [OF _ ka(2)] by (auto simp: mul_u64_def checked_mul_u64_def)
  obtain c where c: "mul_u64 (output_weight params) n = (Ok c :: ('e, u64) outcome)" "unat c = unat (output_weight params) * unat n"
    using ex [OF _ ka(3)] by (auto simp: mul_u64_def checked_mul_u64_def)
  obtain d where d: "add_u64 a b' = (Ok d :: ('e, u64) outcome)" "unat d = unat a + unat b'"
    using ex [OF _ ka(4)] a b' by (auto simp: add_u64_def checked_add_u64_def)
  obtain e where e: "add_u64 d c = (Ok e :: ('e, u64) outcome)" "unat e = unat d + unat c"
    using ex [OF _ ka(5)] a b' c d by (auto simp: add_u64_def checked_add_u64_def)
  show "weight_calculate params k i n sz = (Ok w :: ('e, u64) outcome)"
    unfolding weight_calculate_def a(1) b'(1) c(1) d(1) e(1) and_then.simps
    using w a(2) b'(2) c(2) d(2) e(2) by (simp add: weight_spec_def u64_simps unat_div split: option.splits)
qed

subsection \<open>Fees\<close>

definition MINIMUM_TRANSACTION_FEE :: micro_tari where "MINIMUM_TRANSACTION_FEE = 101"

definition fee_calculate :: "weight_params \<Rightarrow> micro_tari \<Rightarrow> u64 \<Rightarrow> u64 \<Rightarrow> u64 \<Rightarrow> u64 \<Rightarrow> ('e, micro_tari) outcome" where
  "fee_calculate weighting fee_per_gram num_kernels num_inputs num_outputs rounded_size =
     and_then (weight_calculate weighting num_kernels num_inputs num_outputs rounded_size) (\<lambda>weight.
     mul_u64 weight fee_per_gram)"

definition fee_normalize :: "micro_tari \<Rightarrow> micro_tari" where
  "fee_normalize fee = max MINIMUM_TRANSACTION_FEE fee"

subsection \<open>Formatting\<close>

text \<open>
  \<open>group_whole\<close> is the loop over the whole part: \<open>whole.len() - i - 1\<close> is the number of characters that
  follow the current one. \<open>split_point\<close> is \<open>splitn(2, '.')\<close>.
\<close>

fun group_whole :: "char \<Rightarrow> string \<Rightarrow> string" where
  "group_whole sep [] = []"
| "group_whole sep (c # cs) =
     (let idx = length cs
      in if 0 < idx \<and> idx mod 3 = 0 then c # sep # group_whole sep cs else c # group_whole sep cs)"

fun split_point :: "string \<Rightarrow> string \<times> string option" where
  "split_point [] = ([], None)"
| "split_point (c # cs) =
     (if c = CHR ''.'' then ([], Some cs) else (case split_point cs of (w, d) \<Rightarrow> (c # w, d)))"

definition format_currency :: "string \<Rightarrow> char \<Rightarrow> string" where
  "format_currency value sep =
     (case split_point value of
        (whole, None) \<Rightarrow> group_whole sep whole
      | (whole, Some decimal) \<Rightarrow> group_whole sep whole @ CHR ''.'' # decimal)"

lemma split_point_join:
  "split_point v = (w, d) \<Longrightarrow> v = w @ (case d of None \<Rightarrow> [] | Some x \<Rightarrow> CHR ''.'' # x)"
  by (induction v arbitrary: w d) (auto split: if_splits prod.splits)

lemma filter_group_whole: "sep \<notin> set w \<Longrightarrow> filter (\<lambda>c. c \<noteq> sep) (group_whole sep w) = w"
  by (induction w) (auto simp: Let_def)

lemma length_group_whole: "length (group_whole sep w) = length w + (length w - 1) div 3"
proof (induction w)
  case (Cons c w)
  show ?case
  proof (cases "w = []")
    case False
    then obtain m where m: "length w = Suc m" by (cases w) auto
    have "m div 3 + (if Suc m mod 3 = 0 then 1 else 0) = Suc m div 3"
      by (simp add: div_Suc)
    with Cons.IH m False show ?thesis by (auto simp: Let_def split: if_splits)
  qed simp
qed simp

lemma format_currency_filter:
  assumes "sep \<notin> set v"
  shows "filter (\<lambda>c. c \<noteq> sep) (format_currency v sep) = v"
proof -
  obtain w d where s: "split_point v = (w, d)" by (cases "split_point v")
  from split_point_join [OF s] assms have "sep \<notin> set w" "d \<noteq> None \<Longrightarrow> sep \<noteq> CHR ''.'' \<and> sep \<notin> set (the d)"
    by (auto split: option.splits)
  with split_point_join [OF s] s show ?thesis
    by (auto simp: format_currency_def filter_group_whole filter_id_conv split: option.splits)
qed

end
