(* ===== verification/Transactions.thy ===== *)
theory Transactions
  imports Script_VM Amounts "HOL-Library.List_Lexorder"
begin

text \<open>
  Transaction components: output features, covenant tokens, inputs, outputs, kernels and transactions
  (\<open>src/base_layer/core/src/transactions/transaction_components/\<close>, and the token types of
  \<open>src/base_layer/core/src/covenants/\<close> that an output contains). The fields of each record are those of the
  struct of the same name, with a prefix where two structs share a field name.

  Code that the repository only calls is collected in the record \<open>tx_crypto\<close>: the domain separated hasher
  applied to the values it is chained with, the Borsh encodings of keys, commitments and features, commitment and
  signature verification, and the sort keys of commitments and signatures. \<open>tx_laws\<close> states what the codecs
  promise; \<open>sample_tx\<close> is an instance.
\<close>

subsection \<open>Enumerations\<close>

datatype output_type = Standard | Coinbase | Burn | ValidatorNodeRegistration | CodeTemplateRegistration

definition output_type_as_byte :: "output_type \<Rightarrow> u8" where
  "output_type_as_byte t =
     (case t of Standard \<Rightarrow> 0 | Coinbase \<Rightarrow> 1 | Burn \<Rightarrow> 2 | ValidatorNodeRegistration \<Rightarrow> 3 | CodeTemplateRegistration \<Rightarrow> 4)"

definition output_type_from_byte :: "u8 \<Rightarrow> output_type option" where
  "output_type_from_byte b =
     (if b = 0 then Some Standard else if b = 1 then Some Coinbase else if b = 2 then Some Burn
      else if b = 3 then Some ValidatorNodeRegistration else if b = 4 then Some CodeTemplateRegistration else None)"

definition output_type_all :: "output_type list" where
  "output_type_all = [Standard, Coinbase, Burn, ValidatorNodeRegistration, CodeTemplateRegistration]"

datatype range_proof_type = BulletProofPlus | RevealedValue

definition range_proof_type_as_byte :: "range_proof_type \<Rightarrow> u8" where
  "range_proof_type_as_byte t = (case t of BulletProofPlus \<Rightarrow> 0 | RevealedValue \<Rightarrow> 1)"

definition range_proof_type_from_byte :: "u8 \<Rightarrow> range_proof_type option" where
  "range_proof_type_from_byte b =
     (if b = 0 then Some BulletProofPlus else if b = 1 then Some RevealedValue else None)"

definition range_proof_type_all :: "range_proof_type list" where
  "range_proof_type_all = [BulletProofPlus, RevealedValue]"

datatype output_features_version = FeaturesV0 | FeaturesV1
datatype transaction_input_version = InputV0 | InputV1
datatype transaction_output_version = OutputV0 | OutputV1
datatype transaction_kernel_version = KernelV0

lemma output_type_byte_roundtrip [simp]: "output_type_from_byte (output_type_as_byte t) = Some t"
  by (cases t) (simp_all add: output_type_as_byte_def output_type_from_byte_def)

lemma range_proof_type_byte_roundtrip [simp]: "range_proof_type_from_byte (range_proof_type_as_byte t) = Some t"
  by (cases t) (simp_all add: range_proof_type_as_byte_def range_proof_type_from_byte_def)

subsection \<open>Side-chain features\<close>

record ('pk, 'sk) validator_node_signature =
  vn_public_key :: 'pk
  vn_signature :: "('pk, 'sk) schnorr"

datatype template_type = Wasm "16 word" | Flow | Manifest

record build_info =
  repo_url :: string
  commit_hash :: bytes

record ('pk, 'sk) code_template_registration =
  author_public_key :: 'pk
  author_signature :: "('pk, 'sk) schnorr"
  template_name :: string
  template_version :: "16 word"
  template_type :: template_type
  build_info :: build_info
  binary_sha :: bytes
  binary_url :: string

datatype ('pk, 'sk) side_chain_feature =
    ValidatorNodeRegistrationFeature "('pk, 'sk) validator_node_signature"
  | TemplateRegistration "('pk, 'sk) code_template_registration"
  | ConfidentialOutput 'pk

definition validator_node_registration ::
  "('pk, 'sk) side_chain_feature \<Rightarrow> ('pk, 'sk) validator_node_signature option" where
  "validator_node_registration f = (case f of ValidatorNodeRegistrationFeature v \<Rightarrow> Some v | _ \<Rightarrow> None)"

subsection \<open>Output features\<close>

record ('pk, 'sk) output_features =
  features_version :: output_features_version
  output_type :: output_type
  maturity :: u64
  coinbase_extra :: bytes
  sidechain_feature :: "('pk, 'sk) side_chain_feature option"
  range_proof_type :: range_proof_type

definition output_features_default :: "('pk, 'sk) output_features" where
  "output_features_default = \<lparr>features_version = FeaturesV0, output_type = Standard, maturity = 0,
     coinbase_extra = [], sidechain_feature = None, range_proof_type = BulletProofPlus\<rparr>"

definition create_coinbase :: "u64 \<Rightarrow> bytes option \<Rightarrow> ('pk, 'sk) output_features" where
  "create_coinbase maturity_height extra =
     output_features_default\<lparr>output_type := Coinbase, maturity := maturity_height,
       coinbase_extra := (case extra of None \<Rightarrow> [] | Some e \<Rightarrow> e)\<rparr>"

definition create_burn_output :: "('pk, 'sk) output_features" where
  "create_burn_output = output_features_default\<lparr>output_type := Burn\<rparr>"

definition create_burn_confidential_output :: "'pk \<Rightarrow> ('pk, 'sk) output_features" where
  "create_burn_confidential_output claim_public_key =
     output_features_default\<lparr>output_type := Burn, sidechain_feature := Some (ConfidentialOutput claim_public_key)\<rparr>"

definition for_template_registration ::
  "('pk, 'sk) code_template_registration \<Rightarrow> ('pk, 'sk) output_features" where
  "for_template_registration r =
     output_features_default\<lparr>output_type := CodeTemplateRegistration,
       sidechain_feature := Some (TemplateRegistration r)\<rparr>"

subsection \<open>Covenant tokens\<close>

datatype covenant_filter =
    IdentityFilter | AndFilter | OrFilter | XorFilter | NotFilter | OutputHashEqFilter
  | FieldsPreservedFilter | FieldEqFilter | FieldsHashedEqFilter | AbsoluteHeightFilter

datatype output_field =
    CommitmentField | ScriptField | SenderOffsetPublicKeyField | CovenantField | FeaturesField
  | FeaturesOutputTypeField | FeaturesMaturityField | FeaturesSideChainFeaturesField

datatype ('pk, 'com) covenant_arg =
    ArgHash bytes
  | ArgPublicKey 'pk
  | ArgCommitment 'com
  | ArgTariScript "'pk tari_script"
  | ArgCovenant "('pk, 'com) covenant_token list"
  | ArgOutputType output_type
  | ArgUint u64
  | ArgOutputField output_field
  | ArgOutputFields "output_field list"
  | ArgBytes bytes
and ('pk, 'com) covenant_token = Filter covenant_filter | Arg "('pk, 'com) covenant_arg"

type_synonym ('pk, 'com) covenant = "('pk, 'com) covenant_token list"

subsection \<open>Outputs, inputs, kernels\<close>

text \<open>A commitment and public key signature: ephemeral commitment, ephemeral key and the three scalars.\<close>

type_synonym ('pk, 'sk, 'com) com_and_pub_signature = "'com \<times> 'pk \<times> 'sk \<times> 'sk \<times> 'sk"

record ('pk, 'sk, 'com) transaction_output =
  out_version :: transaction_output_version
  out_features :: "('pk, 'sk) output_features"
  out_commitment :: 'com
  out_proof :: "bytes option"
  out_script :: "'pk tari_script"
  out_sender_offset_public_key :: 'pk
  out_metadata_signature :: "('pk, 'sk, 'com) com_and_pub_signature"
  out_covenant :: "('pk, 'com) covenant"
  out_encrypted_data :: bytes
  out_minimum_value_promise :: micro_tari

datatype ('pk, 'sk, 'com) spent_output =
    OutputHash bytes
  | OutputData (sp_version: transaction_output_version) (sp_features: "('pk, 'sk) output_features")
      (sp_commitment: 'com) (sp_script: "'pk tari_script") (sp_sender_offset_public_key: 'pk)
      (sp_covenant: "('pk, 'com) covenant") (sp_encrypted_data: bytes) (sp_minimum_value_promise: micro_tari)

record ('pk, 'sk, 'com) transaction_input =
  in_version :: transaction_input_version
  in_spent_output :: "('pk, 'sk, 'com) spent_output"
  in_input_data :: "('pk, 'sk, 'com) exec_stack"
  in_script_signature :: "('pk, 'sk, 'com) com_and_pub_signature"

record ('pk, 'sk, 'com) transaction_kernel =
  ker_version :: transaction_kernel_version
  ker_features :: u8
  ker_fee :: micro_tari
  ker_lock_height :: u64
  ker_excess :: 'com
  ker_excess_sig :: "('pk, 'sk) schnorr"
  ker_burn_commitment :: "'com option"

subsection \<open>Code outside the repository\<close>

text \<open>
  \<open>output_digest\<close> is \<open>DomainSeparatedConsensusHasher::<TransactionHashDomain>::new("transaction_output")\<close>
  chained with the listed values and finalised; \<open>kernel_challenge\<close> and \<open>script_challenge\<close> are the hashes the
  kernel signature and the script signature sign; \<open>verify_com_and_pub\<close> is \<open>verify_challenge\<close> of the commitment
  signature; \<open>commit_value\<close> commits to a value with a blinding factor; \<open>covenants_domain_tag\<close> are the bytes that
  \<open>BaseLayerCovenantsDomain::add_domain_separation_tag\<close> feeds to the hasher.
\<close>

record ('pk, 'sk, 'com) tx_crypto =
  crypto :: "('pk, 'sk, 'com) crypto"
  output_digest :: "transaction_output_version \<Rightarrow> ('pk, 'sk) output_features \<Rightarrow> 'com \<Rightarrow> 'pk tari_script \<Rightarrow>
    ('pk, 'com) covenant \<Rightarrow> bytes \<Rightarrow> 'pk \<Rightarrow> micro_tari \<Rightarrow> bytes"
  features_serialize :: "('pk, 'sk) output_features \<Rightarrow> bytes"
  sidechain_serialize :: "('pk, 'sk) side_chain_feature option \<Rightarrow> bytes"
  pk_serialize :: "'pk \<Rightarrow> bytes"
  pk_deserialize :: "bytes \<Rightarrow> ('pk \<times> bytes) option"
  com_serialize :: "'com \<Rightarrow> bytes"
  com_deserialize :: "bytes \<Rightarrow> ('com \<times> bytes) option"
  u16_read_varint :: "bytes \<Rightarrow> (nat \<times> bytes) option"
  covenants_domain_tag :: bytes
  kernel_challenge :: "transaction_kernel_version \<Rightarrow> 'pk \<Rightarrow> 'pk \<Rightarrow> micro_tari \<Rightarrow> u64 \<Rightarrow> u8 \<Rightarrow> 'com option \<Rightarrow> bytes"
  com_as_public_key :: "'com \<Rightarrow> 'pk"
  script_challenge :: "transaction_input_version \<Rightarrow> 'com \<Rightarrow> 'pk \<Rightarrow> 'pk tari_script \<Rightarrow> ('pk, 'sk, 'com) exec_stack \<Rightarrow>
    'pk \<Rightarrow> 'com \<Rightarrow> bytes"
  verify_com_and_pub :: "('pk, 'sk, 'com) com_and_pub_signature \<Rightarrow> 'com \<Rightarrow> 'pk \<Rightarrow> bytes \<Rightarrow> bool"
  commit_value :: "'sk \<Rightarrow> u64 \<Rightarrow> 'com"
  sk_default :: 'sk
  sk_add :: "'sk \<Rightarrow> 'sk \<Rightarrow> 'sk"
  com_key :: "'com \<Rightarrow> bytes"
  sig_key :: "('pk, 'sk) schnorr \<Rightarrow> bytes"

definition prefix_reader :: "('a \<Rightarrow> bytes) \<Rightarrow> (bytes \<Rightarrow> ('a \<times> bytes) option) \<Rightarrow> bool" where
  "prefix_reader ser de \<longleftrightarrow> (\<forall>x rest. de (ser x @ rest) = Some (x, rest)) \<and>
     (\<forall>bs x rest. de bs = Some (x, rest) \<longrightarrow> length rest \<le> length bs)"

definition tx_laws :: "('pk, 'sk, 'com) tx_crypto \<Rightarrow> bool" where
  "tx_laws X \<longleftrightarrow>
     crypto_laws (crypto X) \<and>
     prefix_reader (pk_serialize X) (pk_deserialize X) \<and>
     prefix_reader (com_serialize X) (com_deserialize X) \<and>
     (\<forall>n rest. n < 2 ^ 16 \<longrightarrow> u16_read_varint X (usize_write_varint (crypto X) n @ rest) = Some (n, rest)) \<and>
     (\<forall>bs n rest. u16_read_varint X bs = Some (n, rest) \<longrightarrow> length rest < length bs) \<and>
     (\<forall>bs n rest. usize_read_varint (crypto X) bs = Some (n, rest) \<longrightarrow> length rest < length bs)"

lemma tx_laws_crypto [crypto_simps]: "tx_laws X \<Longrightarrow> crypto_laws (crypto X)"
  by (simp add: tx_laws_def)

lemma tx_laws_readers [crypto_simps]:
  assumes "tx_laws X"
  shows "pk_deserialize X (pk_serialize X p @ rest) = Some (p, rest)"
    and "com_deserialize X (com_serialize X c @ rest) = Some (c, rest)"
    and "n < 2 ^ 16 \<Longrightarrow> u16_read_varint X (usize_write_varint (crypto X) n @ rest) = Some (n, rest)"
  using assms by (simp_all add: tx_laws_def prefix_reader_def)

text \<open>The encoding of \<open>sample_tx\<close> for outputs is the commitment, the maturity and the promise in 32 bytes.\<close>

definition sample_reader :: "bytes \<Rightarrow> (u8 \<times> bytes) option" where
  "sample_reader bs = (case bs of [] \<Rightarrow> None | b # rest \<Rightarrow> Some (b, rest))"

definition sample_tx :: "(u8, u8, u8) tx_crypto" where
  "sample_tx = \<lparr>
     crypto = sample_crypto,
     output_digest = (\<lambda>v f c s cov e k p. c # take 31 (le_bytes_64 (maturity f) @ le_bytes_64 p @ replicate 15 k)),
     features_serialize = (\<lambda>f. [0, output_type_as_byte (output_type f)] @ le_bytes_64 (maturity f)),
     sidechain_serialize = (\<lambda>f. [0]),
     pk_serialize = (\<lambda>k. [k]), pk_deserialize = sample_reader,
     com_serialize = (\<lambda>c. [c]), com_deserialize = sample_reader,
     u16_read_varint = usize_read_varint sample_crypto,
     covenants_domain_tag = [7],
     kernel_challenge = (\<lambda>v r p f h k b. [r, p]),
     com_as_public_key = (\<lambda>c. c),
     script_challenge = (\<lambda>v c k s d pk com. [c, k]),
     verify_com_and_pub = (\<lambda>(r, k, a, x, y) c p e. a = c),
     commit_value = (\<lambda>k v. of_nat (unat v mod 256)),
     sk_default = 0, sk_add = (+),
     com_key = (\<lambda>c. [c]), sig_key = (\<lambda>(r, s). [r, s])\<rparr>"

lemma sample_tx_laws: "tx_laws sample_tx"
  using sample_crypto_laws
  by (auto simp: tx_laws_def prefix_reader_def sample_tx_def sample_reader_def sample_crypto_def
      le_value_le_bytes split: list.splits if_splits)

subsection \<open>Errors\<close>

text \<open>The message strings of the errors are left out.\<close>

datatype transaction_error =
    ValidationError | InvalidSignatureError | NoSignatureError | RangeProofError_Tx | SigningError | InvalidKernel
  | InvalidCoinbase | InvalidCoinbaseMaturity | MoreThanOneCoinbase | NoCoinbase | MissingRangeProof | InputMaturity
  | ScriptError_Tx script_error | ConversionError | EncryptionError | ScriptOffset | ScriptExecutionError
  | MissingTransactionInputData | CovenantError | InvalidCommitteeLength nat nat | MissingValidatorNodeSignature
  | NonCoinbaseHasOutputFeaturesCoinbaseExtra | InvalidOutputFeaturesCoinbaseExtraSize nat "32 word"
  | InvalidRevealedValue

subsection \<open>Operations on outputs\<close>

definition hash_output ::
  "('pk, 'sk, 'com) tx_crypto \<Rightarrow> transaction_output_version \<Rightarrow> ('pk, 'sk) output_features \<Rightarrow> 'com \<Rightarrow> 'pk tari_script \<Rightarrow>
   ('pk, 'com) covenant \<Rightarrow> bytes \<Rightarrow> 'pk \<Rightarrow> micro_tari \<Rightarrow> bytes" where
  "hash_output X version features com script cov enc pk promise =
     (case version of OutputV0 \<Rightarrow> output_digest X version features com script cov enc pk promise
      | OutputV1 \<Rightarrow> output_digest X version features com script cov enc pk promise)"

definition output_hash_of :: "('pk, 'sk, 'com) tx_crypto \<Rightarrow> ('pk, 'sk, 'com) transaction_output \<Rightarrow> bytes" where
  "output_hash_of X self = hash_output X (out_version self) (out_features self) (out_commitment self)
     (out_script self) (out_covenant self) (out_encrypted_data self) (out_sender_offset_public_key self)
     (out_minimum_value_promise self)"

definition output_is_coinbase :: "('pk, 'sk, 'com) transaction_output \<Rightarrow> bool" where
  "output_is_coinbase self \<longleftrightarrow> output_type (out_features self) = Coinbase"

definition output_is_burned :: "('pk, 'sk, 'com) transaction_output \<Rightarrow> bool" where
  "output_is_burned self \<longleftrightarrow> output_type (out_features self) = Burn"

subsection \<open>Operations on inputs\<close>

definition input_commitment :: "('pk, 'sk, 'com) transaction_input \<Rightarrow> (transaction_error, 'com) outcome" where
  "input_commitment self = (case in_spent_output self of
     OutputHash _ \<Rightarrow> Err MissingTransactionInputData | OutputData _ _ c _ _ _ _ _ \<Rightarrow> Ok c)"

definition input_features ::
  "('pk, 'sk, 'com) transaction_input \<Rightarrow> (transaction_error, ('pk, 'sk) output_features) outcome" where
  "input_features self = (case in_spent_output self of
     OutputHash _ \<Rightarrow> Err MissingTransactionInputData | OutputData _ f _ _ _ _ _ _ \<Rightarrow> Ok f)"

definition input_script :: "('pk, 'sk, 'com) transaction_input \<Rightarrow> (transaction_error, 'pk tari_script) outcome" where
  "input_script self = (case in_spent_output self of
     OutputHash _ \<Rightarrow> Err MissingTransactionInputData | OutputData _ _ _ s _ _ _ _ \<Rightarrow> Ok s)"

definition input_sender_offset_public_key :: "('pk, 'sk, 'com) transaction_input \<Rightarrow> (transaction_error, 'pk) outcome" where
  "input_sender_offset_public_key self = (case in_spent_output self of
     OutputHash _ \<Rightarrow> Err MissingTransactionInputData | OutputData _ _ _ _ k _ _ _ \<Rightarrow> Ok k)"

definition input_covenant :: "('pk, 'sk, 'com) transaction_input \<Rightarrow> (transaction_error, ('pk, 'com) covenant) outcome" where
  "input_covenant self = (case in_spent_output self of
     OutputHash _ \<Rightarrow> Err MissingTransactionInputData | OutputData _ _ _ _ _ c _ _ \<Rightarrow> Ok c)"

definition input_encrypted_data :: "('pk, 'sk, 'com) transaction_input \<Rightarrow> (transaction_error, bytes) outcome" where
  "input_encrypted_data self = (case in_spent_output self of
     OutputHash _ \<Rightarrow> Err MissingTransactionInputData | OutputData _ _ _ _ _ _ e _ \<Rightarrow> Ok e)"

definition input_minimum_value_promise :: "('pk, 'sk, 'com) transaction_input \<Rightarrow> (transaction_error, micro_tari) outcome" where
  "input_minimum_value_promise self = (case in_spent_output self of
     OutputHash _ \<Rightarrow> Err MissingTransactionInputData | OutputData _ _ _ _ _ _ _ m \<Rightarrow> Ok m)"

definition input_output_hash :: "('pk, 'sk, 'com) tx_crypto \<Rightarrow> ('pk, 'sk, 'com) transaction_input \<Rightarrow> bytes" where
  "input_output_hash X self = (case in_spent_output self of
     OutputHash h \<Rightarrow> h
   | OutputData version features com script pk cov enc promise \<Rightarrow>
       hash_output X version features com script cov enc pk promise)"

definition input_is_equal_to ::
  "('pk, 'sk, 'com) tx_crypto \<Rightarrow> ('pk, 'sk, 'com) transaction_input \<Rightarrow> ('pk, 'sk, 'com) transaction_output \<Rightarrow> bool" where
  "input_is_equal_to X self out \<longleftrightarrow> input_output_hash X self = output_hash_of X out"

definition input_run_script ::
  "('pk, 'sk, 'com) tx_crypto \<Rightarrow> ('pk, 'sk, 'com) transaction_input \<Rightarrow> 'com script_context \<Rightarrow>
   (transaction_error, 'pk) outcome" where
  "input_run_script X self context = (case in_spent_output self of
     OutputHash _ \<Rightarrow> Err MissingTransactionInputData
   | OutputData _ _ _ script _ _ _ _ \<Rightarrow>
       and_then (map_err ScriptError_Tx (execute_with_context (crypto X) script (in_input_data self) context))
         (\<lambda>item. case item of PublicKey pubkey \<Rightarrow> Ok pubkey | _ \<Rightarrow> Err ScriptExecutionError))"

definition input_validate_script_signature ::
  "('pk, 'sk, 'com) tx_crypto \<Rightarrow> ('pk, 'sk, 'com) transaction_input \<Rightarrow> 'pk \<Rightarrow> (transaction_error, unit) outcome" where
  "input_validate_script_signature X self script_public_key = (case in_spent_output self of
     OutputHash _ \<Rightarrow> Err MissingTransactionInputData
   | OutputData _ _ com script _ _ _ _ \<Rightarrow>
       (let challenge = script_challenge X (in_version self) (fst (in_script_signature self))
              (fst (snd (in_script_signature self))) script (in_input_data self) script_public_key com
        in if verify_com_and_pub X (in_script_signature self) com script_public_key challenge
           then Ok () else Err InvalidSignatureError))"

definition input_run_and_verify_script ::
  "('pk, 'sk, 'com) tx_crypto \<Rightarrow> ('pk, 'sk, 'com) transaction_input \<Rightarrow> 'com script_context \<Rightarrow>
   (transaction_error, 'pk) outcome" where
  "input_run_and_verify_script X self context =
     and_then (input_run_script X self context) (\<lambda>key.
     and_then (input_validate_script_signature X self key) (\<lambda>_. Ok key))"

definition input_is_mature_at :: "('pk, 'sk, 'com) transaction_input \<Rightarrow> u64 \<Rightarrow> (transaction_error, bool) outcome" where
  "input_is_mature_at self height = (case in_spent_output self of
     OutputHash _ \<Rightarrow> Err MissingTransactionInputData
   | OutputData _ f _ _ _ _ _ _ \<Rightarrow> Ok (maturity f \<le> height))"

definition input_is_compact :: "('pk, 'sk, 'com) transaction_input \<Rightarrow> bool" where
  "input_is_compact self \<longleftrightarrow> (case in_spent_output self of OutputHash _ \<Rightarrow> True | _ \<Rightarrow> False)"

definition input_set_maturity ::
  "('pk, 'sk, 'com) transaction_input \<Rightarrow> u64 \<Rightarrow> (transaction_error, ('pk, 'sk, 'com) transaction_input) outcome" where
  "input_set_maturity self m = (case in_spent_output self of
     OutputHash _ \<Rightarrow> Err MissingTransactionInputData
   | OutputData v f c s k cov e p \<Rightarrow> Ok (self\<lparr>in_spent_output := OutputData v (f\<lparr>maturity := m\<rparr>) c s k cov e p\<rparr>))"

definition input_to_compact ::
  "('pk, 'sk, 'com) tx_crypto \<Rightarrow> ('pk, 'sk, 'com) transaction_input \<Rightarrow> ('pk, 'sk, 'com) transaction_input" where
  "input_to_compact X self =
     self\<lparr>in_spent_output := (case in_spent_output self of
        OutputHash h \<Rightarrow> OutputHash h
      | OutputData _ _ _ _ _ _ _ _ \<Rightarrow> OutputHash (input_output_hash X self))\<rparr>"

definition input_add_output_data ::
  "transaction_output_version \<Rightarrow> ('pk, 'sk) output_features \<Rightarrow> 'com \<Rightarrow> 'pk tari_script \<Rightarrow> 'pk \<Rightarrow> ('pk, 'com) covenant \<Rightarrow>
   bytes \<Rightarrow> micro_tari \<Rightarrow> ('pk, 'sk, 'com) transaction_input \<Rightarrow> ('pk, 'sk, 'com) transaction_input" where
  "input_add_output_data v f c s k cov e p self = self\<lparr>in_spent_output := OutputData v f c s k cov e p\<rparr>"

text \<open>\<open>PartialEq\<close> compares the output hash, the script signature and the input data; \<open>Ord\<close> only the output hash.\<close>

definition input_eq ::
  "('pk, 'sk, 'com) tx_crypto \<Rightarrow> ('pk, 'sk, 'com) transaction_input \<Rightarrow> ('pk, 'sk, 'com) transaction_input \<Rightarrow> bool" where
  "input_eq X self other \<longleftrightarrow> input_output_hash X self = input_output_hash X other \<and>
     in_script_signature self = in_script_signature other \<and> in_input_data self = in_input_data other"

subsection \<open>Operations on kernels\<close>

definition COINBASE_KERNEL :: u8 where "COINBASE_KERNEL = 1"

definition BURN_KERNEL :: u8 where "BURN_KERNEL = 2"

definition kernel_is_coinbase :: "('pk, 'sk, 'com) transaction_kernel \<Rightarrow> bool" where
  "kernel_is_coinbase self \<longleftrightarrow> and (ker_features self) COINBASE_KERNEL = COINBASE_KERNEL"

definition kernel_is_burned :: "('pk, 'sk, 'com) transaction_kernel \<Rightarrow> bool" where
  "kernel_is_burned self \<longleftrightarrow> and (ker_features self) BURN_KERNEL = BURN_KERNEL"

definition kernel_verify_signature ::
  "('pk, 'sk, 'com) tx_crypto \<Rightarrow> ('pk, 'sk, 'com) transaction_kernel \<Rightarrow> (transaction_error, unit) outcome" where
  "kernel_verify_signature X self =
     (let excess = com_as_public_key X (ker_excess self);
          c = kernel_challenge X (ker_version self) (fst (ker_excess_sig self)) excess (ker_fee self)
                (ker_lock_height self) (ker_features self) (ker_burn_commitment self)
      in if verify_challenge (crypto X) (ker_excess_sig self) excess c
         then Ok () else Err InvalidSignatureError)"

definition get_burn_commitment :: "('pk, 'sk, 'com) transaction_kernel \<Rightarrow> (transaction_error, 'com) outcome" where
  "get_burn_commitment self = (case ker_burn_commitment self of Some c \<Rightarrow> Ok c | None \<Rightarrow> Err InvalidKernel)"

end
