(* ===== verification/Covenant_Codec.thy ===== *)
theory Covenant_Codec
  imports Transactions
begin

text \<open>
  The byte encoding of covenants: \<open>byte_codes.rs\<close>, \<open>token.rs\<close>, \<open>arguments.rs\<close>, \<open>encoder.rs\<close>, \<open>decoder.rs\<close>, the
  codec parts of \<open>fields.rs\<close>, \<open>filters/filter.rs\<close> and \<open>covenant.rs\<close> under \<open>src/base_layer/core/src/covenants/\<close>.

  A covenant argument may be a covenant, so the decoder is recursive in the nested bytes as well as in the rest of
  the input. It takes fuel; \<open>covenant_from_bytes\<close> starts it with one more than the number of bytes, which
  \<open>tokens_read_fuel\<close> shows to be enough: more fuel never changes the result.
\<close>

subsection \<open>Byte codes\<close>

definition ARG_HASH :: u8 where "ARG_HASH = 0x01"
definition ARG_PUBLIC_KEY :: u8 where "ARG_PUBLIC_KEY = 0x02"
definition ARG_COMMITMENT :: u8 where "ARG_COMMITMENT = 0x03"
definition ARG_TARI_SCRIPT :: u8 where "ARG_TARI_SCRIPT = 0x04"
definition ARG_COVENANT :: u8 where "ARG_COVENANT = 0x05"
definition ARG_UINT :: u8 where "ARG_UINT = 0x06"
definition ARG_OUTPUT_FIELD :: u8 where "ARG_OUTPUT_FIELD = 0x07"
definition ARG_OUTPUT_FIELDS :: u8 where "ARG_OUTPUT_FIELDS = 0x08"
definition ARG_BYTES :: u8 where "ARG_BYTES = 0x09"
definition ARG_OUTPUT_TYPE :: u8 where "ARG_OUTPUT_TYPE = 0x0a"

lemmas arg_codes = ARG_HASH_def ARG_PUBLIC_KEY_def ARG_COMMITMENT_def ARG_TARI_SCRIPT_def ARG_COVENANT_def
  ARG_UINT_def ARG_OUTPUT_FIELD_def ARG_OUTPUT_FIELDS_def ARG_BYTES_def ARG_OUTPUT_TYPE_def

definition ALL_ARGS :: "u8 list" where
  "ALL_ARGS = [ARG_HASH, ARG_PUBLIC_KEY, ARG_COMMITMENT, ARG_TARI_SCRIPT, ARG_COVENANT, ARG_UINT, ARG_OUTPUT_FIELD,
     ARG_OUTPUT_FIELDS, ARG_BYTES, ARG_OUTPUT_TYPE]"

definition is_valid_arg_code :: "u8 \<Rightarrow> bool" where
  "is_valid_arg_code code \<longleftrightarrow> code \<in> set ALL_ARGS"

definition filter_as_byte_code :: "covenant_filter \<Rightarrow> u8" where
  "filter_as_byte_code f = (case f of
     IdentityFilter \<Rightarrow> 0x20 | AndFilter \<Rightarrow> 0x21 | OrFilter \<Rightarrow> 0x22 | XorFilter \<Rightarrow> 0x23 | NotFilter \<Rightarrow> 0x24
   | OutputHashEqFilter \<Rightarrow> 0x30 | FieldsPreservedFilter \<Rightarrow> 0x31 | FieldsHashedEqFilter \<Rightarrow> 0x32 | FieldEqFilter \<Rightarrow> 0x33
   | AbsoluteHeightFilter \<Rightarrow> 0x34)"

definition ALL_FILTERS :: "u8 list" where
  "ALL_FILTERS = [0x20, 0x21, 0x22, 0x23, 0x24, 0x30, 0x31, 0x32, 0x33, 0x34]"

definition is_valid_filter_code :: "u8 \<Rightarrow> bool" where
  "is_valid_filter_code code \<longleftrightarrow> code \<in> set ALL_FILTERS"

definition output_field_as_byte :: "output_field \<Rightarrow> u8" where
  "output_field_as_byte f = (case f of
     CommitmentField \<Rightarrow> 0x00 | ScriptField \<Rightarrow> 0x01 | SenderOffsetPublicKeyField \<Rightarrow> 0x02 | CovenantField \<Rightarrow> 0x03
   | FeaturesField \<Rightarrow> 0x04 | FeaturesOutputTypeField \<Rightarrow> 0x05 | FeaturesMaturityField \<Rightarrow> 0x06
   | FeaturesSideChainFeaturesField \<Rightarrow> 0x08)"

subsection \<open>Errors\<close>

datatype covenant_decode_error =
    UnknownFilterByteCode u8 | UnknownArgByteCode u8 | UnknownByteCode u8 | UnexpectedEof_Covenant
  | ExceededMaxBytes | Io io_error | IoInvalidInput

definition filter_try_from_byte_code :: "u8 \<Rightarrow> (covenant_decode_error, covenant_filter) outcome" where
  "filter_try_from_byte_code code =
     (if code = 0x20 then Ok IdentityFilter else if code = 0x21 then Ok AndFilter else if code = 0x22 then Ok OrFilter
      else if code = 0x23 then Ok XorFilter else if code = 0x24 then Ok NotFilter
      else if code = 0x30 then Ok OutputHashEqFilter else if code = 0x31 then Ok FieldsPreservedFilter
      else if code = 0x33 then Ok FieldEqFilter else if code = 0x32 then Ok FieldsHashedEqFilter
      else if code = 0x34 then Ok AbsoluteHeightFilter else Err (UnknownFilterByteCode code))"

definition output_field_from_byte :: "u8 \<Rightarrow> (covenant_decode_error, output_field) outcome" where
  "output_field_from_byte b =
     (if b = 0x00 then Ok CommitmentField else if b = 0x01 then Ok ScriptField
      else if b = 0x02 then Ok SenderOffsetPublicKeyField else if b = 0x03 then Ok CovenantField
      else if b = 0x04 then Ok FeaturesField else if b = 0x05 then Ok FeaturesOutputTypeField
      else if b = 0x06 then Ok FeaturesMaturityField else if b = 0x08 then Ok FeaturesSideChainFeaturesField
      else Err (UnknownByteCode b))"

subsection \<open>Readers\<close>

definition MAX_COVENANT_ARG_SIZE :: nat where "MAX_COVENANT_ARG_SIZE = 4096"
definition MAX_COVENANT_BYTES :: nat where "MAX_COVENANT_BYTES = 4096"
definition NUM_FIELDS :: nat where "NUM_FIELDS = 10"

definition read_next_byte_code :: "bytes \<Rightarrow> (u8 \<times> bytes) option" where
  "read_next_byte_code bs = (case bs of [] \<Rightarrow> None | b # rest \<Rightarrow> Some (b, rest))"

definition read_variable_length_bytes ::
  "('pk, 'sk, 'com) tx_crypto \<Rightarrow> nat \<Rightarrow> bytes \<Rightarrow> (covenant_decode_error, bytes \<times> bytes) outcome" where
  "read_variable_length_bytes X max_size bs =
     (case u16_read_varint X bs of
        None \<Rightarrow> Err (Io VarintError)
      | Some (len, rest) \<Rightarrow>
          if len > max_size then Err IoInvalidInput
          else if length rest < len then Err (Io UnexpectedEof)
          else Ok (take len rest, drop len rest))"

text \<open>Borsh readers of a fixed number of bytes, of a \<open>u64\<close>, and of a byte vector with a 32-bit length.\<close>

definition borsh_fixed :: "nat \<Rightarrow> bytes \<Rightarrow> (covenant_decode_error, bytes \<times> bytes) outcome" where
  "borsh_fixed n bs = (if length bs < n then Err IoInvalidInput else Ok (take n bs, drop n bs))"

definition borsh_vec :: "bytes \<Rightarrow> (covenant_decode_error, bytes \<times> bytes) outcome" where
  "borsh_vec bs = and_then (borsh_fixed 4 bs) (\<lambda>(l, rest). borsh_fixed (le_value l) rest)"

definition borsh_option :: "('a \<times> bytes) option \<Rightarrow> (covenant_decode_error, 'a \<times> bytes) outcome" where
  "borsh_option r = ok_or IoInvalidInput r"

fun collect_fields :: "bytes \<Rightarrow> (covenant_decode_error, output_field list) outcome" where
  "collect_fields [] = Ok []"
| "collect_fields (b # bs) = and_then (output_field_from_byte b) (\<lambda>f. map_ok (Cons f) (collect_fields bs))"

definition output_fields_read_from ::
  "('pk, 'sk, 'com) tx_crypto \<Rightarrow> bytes \<Rightarrow> (covenant_decode_error, output_field list \<times> bytes) outcome" where
  "output_fields_read_from X bs =
     and_then (read_variable_length_bytes X NUM_FIELDS bs) (\<lambda>(buf, rest).
     map_ok (\<lambda>fs. (fs, rest)) (collect_fields buf))"

text \<open>\<open>arg_read_from\<close> takes the decoder of nested covenants as an argument.\<close>

definition arg_read_from ::
  "('pk, 'sk, 'com) tx_crypto \<Rightarrow> (bytes \<Rightarrow> (covenant_decode_error, ('pk, 'com) covenant) outcome) \<Rightarrow> bytes \<Rightarrow> u8 \<Rightarrow>
   (covenant_decode_error, ('pk, 'com) covenant_arg \<times> bytes) outcome" where
  "arg_read_from X nested reader code =
     (if code = ARG_HASH then map_ok (\<lambda>(h, rest). (ArgHash h, rest)) (borsh_fixed 32 reader)
      else if code = ARG_PUBLIC_KEY then map_ok (\<lambda>(k, rest). (ArgPublicKey k, rest)) (borsh_option (pk_deserialize X reader))
      else if code = ARG_COMMITMENT then map_ok (\<lambda>(c, rest). (ArgCommitment c, rest)) (borsh_option (com_deserialize X reader))
      else if code = ARG_TARI_SCRIPT then
        map_ok (\<lambda>(s, rest). (ArgTariScript s, rest)) (map_err Io (script_borsh_deserialize (crypto X) reader))
      else if code = ARG_COVENANT then
        and_then (read_variable_length_bytes X MAX_COVENANT_ARG_SIZE reader) (\<lambda>(buf, rest).
        map_ok (\<lambda>cov. (ArgCovenant cov, rest)) (nested buf))
      else if code = ARG_OUTPUT_TYPE then
        and_then (borsh_fixed 1 reader) (\<lambda>(b, rest).
        map_ok (\<lambda>t. (ArgOutputType t, rest)) (ok_or IoInvalidInput (output_type_from_byte (hd b))))
      else if code = ARG_UINT then map_ok (\<lambda>(v, rest). (ArgUint (le_value_64 v), rest)) (borsh_fixed 8 reader)
      else if code = ARG_OUTPUT_FIELD then
        and_then (ok_or UnexpectedEof_Covenant (read_next_byte_code reader)) (\<lambda>(v, rest).
        map_ok (\<lambda>f. (ArgOutputField f, rest)) (output_field_from_byte v))
      else if code = ARG_OUTPUT_FIELDS then
        map_ok (\<lambda>(fs, rest). (ArgOutputFields fs, rest)) (output_fields_read_from X reader)
      else if code = ARG_BYTES then map_ok (\<lambda>(b, rest). (ArgBytes b, rest)) (borsh_vec reader)
      else Err (UnknownArgByteCode code))"

definition token_read_from ::
  "('pk, 'sk, 'com) tx_crypto \<Rightarrow> (bytes \<Rightarrow> (covenant_decode_error, ('pk, 'com) covenant) outcome) \<Rightarrow> bytes \<Rightarrow>
   (covenant_decode_error, (('pk, 'com) covenant_token \<times> bytes) option) outcome" where
  "token_read_from X nested reader =
     (case read_next_byte_code reader of
        None \<Rightarrow> Ok None
      | Some (code, rest) \<Rightarrow>
          if is_valid_filter_code code then
            map_ok (\<lambda>f. Some (Filter f, rest)) (filter_try_from_byte_code code)
          else if is_valid_arg_code code then
            map_ok (\<lambda>(a, rest). Some (Arg a, rest)) (arg_read_from X nested rest code)
          else Err (UnknownByteCode code))"

text \<open>
  The token iterator collected into a vector, and \<open>Covenant::from_bytes\<close>, which checks the length before it
  decodes. The nested decoder is \<open>Covenant::from_bytes\<close> again.
\<close>

definition with_size_check ::
  "(bytes \<Rightarrow> (covenant_decode_error, 'a list) outcome) \<Rightarrow> bytes \<Rightarrow> (covenant_decode_error, 'a list) outcome" where
  "with_size_check decode bs =
     (if bs = [] then Ok [] else if length bs > MAX_COVENANT_BYTES then Err ExceededMaxBytes else decode bs)"

fun tokens_read ::
  "('pk, 'sk, 'com) tx_crypto \<Rightarrow> nat \<Rightarrow> bytes \<Rightarrow> (covenant_decode_error, ('pk, 'com) covenant) outcome" where
  "tokens_read X 0 bs = Err UnexpectedEof_Covenant"
| "tokens_read X (Suc fuel) bs =
     and_then (token_read_from X (with_size_check (tokens_read X fuel)) bs) (\<lambda>r.
     case r of
       None \<Rightarrow> Ok []
     | Some (token, rest) \<Rightarrow> map_ok (Cons token) (tokens_read X fuel rest))"

definition covenant_from_bytes ::
  "('pk, 'sk, 'com) tx_crypto \<Rightarrow> bytes \<Rightarrow> (covenant_decode_error, ('pk, 'com) covenant) outcome" where
  "covenant_from_bytes X bs = with_size_check (tokens_read X (length bs + 1)) bs"

subsection \<open>Writers\<close>

text \<open>
  Writing fails for a list of more than \<open>NUM_FIELDS\<close> fields and for a byte vector that does not fit a 32-bit length;
  \<open>to_bytes\<close> and \<open>get_byte_length\<close> unwrap that error.
\<close>

definition output_fields_write_to ::
  "('pk, 'sk, 'com) tx_crypto \<Rightarrow> output_field list \<Rightarrow> (unit, bytes) outcome" where
  "output_fields_write_to X fs =
     (if length fs > NUM_FIELDS then Err ()
      else Ok (usize_write_varint (crypto X) (length fs) @ map output_field_as_byte fs))"

fun unwrap :: "('e, 'a) outcome \<Rightarrow> ('f, 'a) outcome" where
  "unwrap (Ok a) = Ok a"
| "unwrap (Err e) = Panic"
| "unwrap Panic = Panic"

fun arg_write_to :: "('pk, 'sk, 'com) tx_crypto \<Rightarrow> ('pk, 'com) covenant_arg \<Rightarrow> (unit, bytes) outcome"
  and tokens_write_to :: "('pk, 'sk, 'com) tx_crypto \<Rightarrow> ('pk, 'com) covenant_token list \<Rightarrow> (unit, bytes) outcome"
  and token_write_to :: "('pk, 'sk, 'com) tx_crypto \<Rightarrow> ('pk, 'com) covenant_token \<Rightarrow> (unit, bytes) outcome" where
  "arg_write_to X (ArgHash h) = Ok (ARG_HASH # h)"
| "arg_write_to X (ArgPublicKey k) = Ok (ARG_PUBLIC_KEY # pk_serialize X k)"
| "arg_write_to X (ArgCommitment c) = Ok (ARG_COMMITMENT # com_serialize X c)"
| "arg_write_to X (ArgTariScript s) = Ok (ARG_TARI_SCRIPT # script_borsh_serialize (crypto X) s)"
| "arg_write_to X (ArgCovenant cov) =
     and_then (unwrap (tokens_write_to X cov)) (\<lambda>counted.
     and_then (tokens_write_to X cov) (\<lambda>bs.
     Ok (ARG_COVENANT # usize_write_varint (crypto X) (length counted) @ bs)))"
| "arg_write_to X (ArgOutputType t) = Ok [ARG_OUTPUT_TYPE, output_type_as_byte t]"
| "arg_write_to X (ArgUint v) = Ok (ARG_UINT # le_bytes_64 v)"
| "arg_write_to X (ArgOutputField f) = Ok [ARG_OUTPUT_FIELD, output_field_as_byte f]"
| "arg_write_to X (ArgOutputFields fs) = map_ok (Cons ARG_OUTPUT_FIELDS) (output_fields_write_to X fs)"
| "arg_write_to X (ArgBytes b) =
     (if length b < 2 ^ 32 then Ok (ARG_BYTES # le_bytes 4 (length b) @ b) else Err ())"
| "tokens_write_to X [] = Ok []"
| "tokens_write_to X (t # ts) =
     and_then (token_write_to X t) (\<lambda>a. and_then (tokens_write_to X ts) (\<lambda>b. Ok (a @ b)))"
| "token_write_to X (Filter f) = Ok [filter_as_byte_code f]"
| "token_write_to X (Arg a) = arg_write_to X a"

definition covenant_to_bytes :: "('pk, 'sk, 'com) tx_crypto \<Rightarrow> ('pk, 'com) covenant \<Rightarrow> (unit, bytes) outcome" where
  "covenant_to_bytes X cov = unwrap (tokens_write_to X cov)"

definition covenant_get_byte_length :: "('pk, 'sk, 'com) tx_crypto \<Rightarrow> ('pk, 'com) covenant \<Rightarrow> (unit, nat) outcome" where
  "covenant_get_byte_length X cov = map_ok length (unwrap (tokens_write_to X cov))"

definition covenant_borsh_serialize :: "('pk, 'sk, 'com) tx_crypto \<Rightarrow> ('pk, 'com) covenant \<Rightarrow> (unit, bytes) outcome" where
  "covenant_borsh_serialize X cov =
     map_ok (\<lambda>bs. usize_write_varint (crypto X) (length bs) @ bs) (covenant_to_bytes X cov)"

definition covenant_borsh_deserialize ::
  "('pk, 'sk, 'com) tx_crypto \<Rightarrow> bytes \<Rightarrow> (covenant_decode_error, ('pk, 'com) covenant \<times> bytes) outcome" where
  "covenant_borsh_deserialize X buf =
     and_then (map_err Io (read_sized_bytes (crypto X) buf)) (\<lambda>(data, rest).
     and_then (map_err (\<lambda>_. IoInvalidInput) (covenant_from_bytes X data)) (\<lambda>cov. Ok (cov, rest)))"

subsection \<open>The decoder consumes its input\<close>

lemma reader_lengths:
  assumes "tx_laws X"
  shows "pk_deserialize X bs = Some (k, rest) \<Longrightarrow> length rest \<le> length bs"
    and "com_deserialize X bs = Some (c, rest) \<Longrightarrow> length rest \<le> length bs"
    and "u16_read_varint X bs = Some (n, rest) \<Longrightarrow> length rest < length bs"
    and "usize_read_varint (crypto X) bs = Some (n, rest) \<Longrightarrow> length rest < length bs"
  using assms unfolding tx_laws_def prefix_reader_def by blast+

lemma read_variable_shorter:
  assumes "tx_laws X" and "read_variable_length_bytes X m bs = Ok (buf, rest)"
  shows "length buf + length rest < length bs"
  using assms(2) reader_lengths(3) [OF assms(1), of bs]
  by (auto simp: read_variable_length_bytes_def split: option.splits if_splits)

lemma borsh_fixed_shorter: "borsh_fixed n bs = Ok (x, rest) \<Longrightarrow> length rest \<le> length bs"
  by (auto simp: borsh_fixed_def split: if_splits)

lemma read_sized_shorter:
  assumes "tx_laws X" and "read_sized_bytes (crypto X) bs = Ok (buf, rest)"
  shows "length rest \<le> length bs"
  using assms(2) reader_lengths(4) [OF assms(1), of bs]
  by (fastforce simp: read_sized_bytes_def split: option.splits if_splits)

lemma map_err_eq [outcome_simps]:
  "map_err f m = Ok a \<longleftrightarrow> m = Ok a" "map_err f m = Panic \<longleftrightarrow> m = Panic" "map_err f m = Err e \<longleftrightarrow> (\<exists>e'. m = Err e' \<and> e = f e')"
  by (cases m; auto)+

lemma arg_read_shorter:
  assumes "tx_laws X" and "arg_read_from X nested bs code = Ok (a, rest)"
  shows "length rest \<le> length bs"
  using assms(2) reader_lengths [OF assms(1), of bs] read_variable_shorter [OF assms(1)]
  by (fastforce simp: arg_read_from_def outcome_simps borsh_option_def borsh_vec_def output_fields_read_from_def
      script_borsh_deserialize_def read_next_byte_code_def
      split: if_splits prod.splits list.splits
      dest: borsh_fixed_shorter read_sized_shorter [OF assms(1)])

lemma token_read_shorter:
  assumes "tx_laws X" and "token_read_from X nested bs = Ok (Some (t, rest))"
  shows "length rest < length bs"
  using assms(2)
  by (auto simp: token_read_from_def read_next_byte_code_def outcome_simps less_Suc_eq_le
      split: list.splits if_splits dest!: arg_read_shorter [OF assms(1)])

lemma arg_read_cong:
  assumes "tx_laws X" and "\<And>b. length b < length bs \<Longrightarrow> f b = g b"
  shows "arg_read_from X f bs code = arg_read_from X g bs code"
proof -
  have "and_then (read_variable_length_bytes X MAX_COVENANT_ARG_SIZE bs) (\<lambda>(buf, rest). map_ok (\<lambda>cov. (ArgCovenant cov, rest)) (f buf)) =
      and_then (read_variable_length_bytes X MAX_COVENANT_ARG_SIZE bs) (\<lambda>(buf, rest). map_ok (\<lambda>cov. (ArgCovenant cov, rest)) (g buf))"
    using read_variable_shorter [OF assms(1), of MAX_COVENANT_ARG_SIZE bs] assms(2)
    by (cases "read_variable_length_bytes X MAX_COVENANT_ARG_SIZE bs") (fastforce split: prod.splits)+
  then show ?thesis by (simp add: arg_read_from_def)
qed

lemma token_read_cong:
  assumes "tx_laws X" and "\<And>b. length b < length bs \<Longrightarrow> f b = g b"
  shows "token_read_from X f bs = token_read_from X g bs"
proof (cases bs)
  case (Cons c rest)
  have "arg_read_from X f rest c = arg_read_from X g rest c"
    using assms Cons by (intro arg_read_cong) auto
  then show ?thesis by (simp add: token_read_from_def read_next_byte_code_def Cons)
qed (simp add: token_read_from_def read_next_byte_code_def)

text \<open>Fuel beyond the number of bytes is never used.\<close>

lemma tokens_read_fuel:
  assumes "tx_laws X" and "length bs < n" and "length bs < m"
  shows "tokens_read X n bs = tokens_read X m bs"
  using assms(2,3)
proof (induction "length bs" arbitrary: bs n m rule: less_induct)
  case less
  obtain n' m' where nm: "n = Suc n'" "m = Suc m'" using less.prems by (cases n; cases m) auto
  have IH: "tokens_read X n' b = tokens_read X m' b" if "length b < length bs" for b
    by (rule less.hyps [OF that]) (use less.prems nm that in simp_all)
  have head: "token_read_from X (with_size_check (tokens_read X n')) bs = token_read_from X (with_size_check (tokens_read X m')) bs"
    by (rule token_read_cong [OF assms(1)]) (simp add: with_size_check_def IH)
  show ?case
    unfolding nm tokens_read.simps head
  proof (rule and_then_cong [OF refl])
    fix r
    assume r: "token_read_from X (with_size_check (tokens_read X m')) bs = Ok r"
    show "(case r of None \<Rightarrow> Ok [] | Some (t, rest) \<Rightarrow> map_ok (Cons t) (tokens_read X n' rest)) =
        (case r of None \<Rightarrow> Ok [] | Some (t, rest) \<Rightarrow> map_ok (Cons t) (tokens_read X m' rest))"
      using IH token_read_shorter [OF assms(1)] r by (auto split: option.split)
  qed
qed

subsection \<open>Well-formed covenants and their round trip\<close>

fun arg_wf :: "('pk, 'sk, 'com) tx_crypto \<Rightarrow> ('pk, 'com) covenant_arg \<Rightarrow> bool"
  and token_wf :: "('pk, 'sk, 'com) tx_crypto \<Rightarrow> ('pk, 'com) covenant_token \<Rightarrow> bool"
  and covenant_wf :: "('pk, 'sk, 'com) tx_crypto \<Rightarrow> ('pk, 'com) covenant_token list \<Rightarrow> bool" where
  "arg_wf X (ArgHash h) = (length h = 32)"
| "arg_wf X (ArgTariScript s) = (list_all opcode_wf s \<and> length (script_to_bytes (crypto X) s) \<le> ISIZE_MAX)"
| "arg_wf X (ArgCovenant ts) = covenant_wf X ts"
| "arg_wf X (ArgPublicKey k) = True"
| "arg_wf X (ArgCommitment c) = True"
| "arg_wf X (ArgOutputType t) = True"
| "arg_wf X (ArgUint v) = True"
| "arg_wf X (ArgOutputField f) = True"
| "arg_wf X (ArgOutputFields fs) = True"
| "arg_wf X (ArgBytes b) = True"
| "token_wf X (Filter f) = True"
| "token_wf X (Arg a) = arg_wf X a"
| "covenant_wf X [] = True"
| "covenant_wf X (t # ts) = (token_wf X t \<and> covenant_wf X ts)"

lemma output_field_roundtrip [simp]: "output_field_from_byte (output_field_as_byte f) = Ok f"
  by (cases f) (simp_all add: output_field_as_byte_def output_field_from_byte_def)

lemma filter_code_roundtrip [simp]:
  "filter_try_from_byte_code (filter_as_byte_code f) = Ok f" "is_valid_filter_code (filter_as_byte_code f)"
  by (cases f; simp add: filter_as_byte_code_def filter_try_from_byte_code_def is_valid_filter_code_def ALL_FILTERS_def)+

lemma collect_fields_map [simp]: "collect_fields (map output_field_as_byte fs) = Ok fs"
  by (induction fs) auto

lemma borsh_fixed_append [simp]: "length x = n \<Longrightarrow> borsh_fixed n (x @ rest) = Ok (x, rest)"
  by (simp add: borsh_fixed_def)

lemma script_borsh_inverse:
  assumes "tx_laws X" and "list_all opcode_wf s" and "length (script_to_bytes (crypto X) s) \<le> ISIZE_MAX"
  shows "script_borsh_deserialize (crypto X) (script_borsh_serialize (crypto X) s @ rest) = Ok (s, rest)"
  using assms tx_laws_crypto [OF assms(1)]
  by (simp add: script_borsh_deserialize_def script_borsh_serialize_def Let_def read_sized_bytes_write
      script_from_bytes_def script_parse_to_bytes)

lemma read_variable_write:
  assumes "tx_laws X" and "length b \<le> m" and "length b < 2 ^ 16"
  shows "read_variable_length_bytes X m (usize_write_varint (crypto X) (length b) @ b @ rest) = Ok (b, rest)"
  using assms by (simp add: read_variable_length_bytes_def tx_laws_readers)

lemma borsh_vec_write:
  assumes "length b < 2 ^ 32"
  shows "borsh_vec (le_bytes 4 (length b) @ b @ rest) = Ok (b, rest)"
proof -
  have "le_value (le_bytes 4 (length b)) = length b" using assms by (simp add: le_value_le_bytes)
  then show ?thesis by (simp add: borsh_vec_def)
qed

lemma arg_write_code: "arg_write_to X a = Ok bs \<Longrightarrow> \<exists>c body. bs = c # body \<and> is_valid_arg_code c \<and> \<not> is_valid_filter_code c"
  by (cases a)
    (auto simp: outcome_simps is_valid_arg_code_def ALL_ARGS_def is_valid_filter_code_def ALL_FILTERS_def arg_codes
      split: if_splits)

lemma arg_write_nonempty: "Ok [] \<noteq> arg_write_to X a" "arg_write_to X a \<noteq> Ok []"
  using arg_write_code [of X a "[]"] by fastforce+

lemma unwrap_eq [outcome_simps]: "unwrap m = Ok a \<longleftrightarrow> m = Ok a" "unwrap m \<noteq> Err e" "unwrap m = Panic \<longleftrightarrow> (\<forall>a. m \<noteq> Ok a)"
  by (cases m; auto)+

text \<open>What the decoder promises about one argument, given the decoder of the covenants nested in it.\<close>

lemma arg_read_write:
  assumes "tx_laws X" and "arg_wf X a" and "arg_write_to X a = Ok (c # body)" and "length body \<le> MAX_COVENANT_ARG_SIZE"
    and "\<And>cov b. a = ArgCovenant cov \<Longrightarrow> tokens_write_to X cov = Ok b \<Longrightarrow> length b \<le> length body \<Longrightarrow> nested b = Ok cov"
  shows "arg_read_from X nested (body @ rest) c = Ok (a, rest)"
proof (cases a)
  case (ArgCovenant cov)
  with assms(3) obtain b where b: "tokens_write_to X cov = Ok b" "c = ARG_COVENANT"
    "body = usize_write_varint (crypto X) (length b) @ b" by (auto simp: outcome_simps)
  have "read_variable_length_bytes X MAX_COVENANT_ARG_SIZE (body @ rest) = Ok (b, rest)"
    using read_variable_write [OF assms(1), of b MAX_COVENANT_ARG_SIZE rest] assms(4) b
    by (simp add: MAX_COVENANT_ARG_SIZE_def)
  with assms(5) [OF ArgCovenant b(1)] b ArgCovenant show ?thesis by (simp add: arg_read_from_def arg_codes)
next
  case (ArgTariScript s)
  with assms(2,3) script_borsh_inverse [OF assms(1), of s rest] show ?thesis
    by (auto simp: arg_read_from_def arg_codes)
next
  case (ArgOutputFields fs)
  with assms(3) have f: "length fs \<le> NUM_FIELDS" "c = ARG_OUTPUT_FIELDS"
    "body = usize_write_varint (crypto X) (length (map output_field_as_byte fs)) @ map output_field_as_byte fs"
    by (auto simp: outcome_simps output_fields_write_to_def split: if_splits)
  have "read_variable_length_bytes X NUM_FIELDS (body @ rest) = Ok (map output_field_as_byte fs, rest)"
    unfolding f(3) append_assoc by (rule read_variable_write [OF assms(1)]) (use f(1) in \<open>simp_all add: NUM_FIELDS_def\<close>)
  with f ArgOutputFields show ?thesis by (simp add: arg_read_from_def arg_codes output_fields_read_from_def)
next
  case (ArgBytes b)
  with assms(3) show ?thesis
    by (auto simp: arg_read_from_def arg_codes borsh_vec_write split: if_splits)
qed (use assms in \<open>auto simp: arg_read_from_def arg_codes borsh_option_def tx_laws_readers read_next_byte_code_def
      borsh_fixed_def\<close>)

lemma tokens_read_write:
  assumes "tx_laws X" and "covenant_wf X ts" and "tokens_write_to X ts = Ok bs" and "length bs \<le> MAX_COVENANT_BYTES"
    and "length bs < n"
  shows "tokens_read X n bs = Ok ts"
  using assms(2-)
proof (induction "length bs" arbitrary: bs ts n rule: less_induct)
  case less
  obtain n' where n: "n = Suc n'" using less.prems(4) by (cases n) auto
  show ?case
  proof (cases ts)
    case Nil
    with less.prems n show ?thesis by (simp add: token_read_from_def read_next_byte_code_def)
  next
    case (Cons t ts')
    with less.prems(2) obtain a b where ab: "token_write_to X t = Ok a" "tokens_write_to X ts' = Ok b" "bs = a @ b"
      by (auto simp: outcome_simps)
    have wf: "token_wf X t" "covenant_wf X ts'" using less.prems(1) Cons by simp_all
    have "a \<noteq> []" using ab(1) by (cases t) (auto dest: arg_write_code)
    then have rest: "tokens_read X n' b = Ok ts'"
      using less.hyps [of b ts' n'] ab wf less.prems(3,4) n by (cases a) auto
    have "token_read_from X (with_size_check (tokens_read X n')) (a @ b) = Ok (Some (t, b))"
    proof (cases t)
      case (Filter f)
      with ab(1) show ?thesis by (auto simp: token_read_from_def read_next_byte_code_def)
    next
      case (Arg x)
      with ab(1) have w: "arg_write_to X x = Ok a" by simp
      from arg_write_code [OF w] obtain c body
        where c: "a = c # body" "is_valid_arg_code c" "\<not> is_valid_filter_code c" by blast
      have "arg_read_from X (with_size_check (tokens_read X n')) (body @ b) c = Ok (x, b)"
      proof (rule arg_read_write [OF assms(1) _ w [unfolded c(1)]])
        show "arg_wf X x" using wf(1) Arg by simp
        show "length body \<le> MAX_COVENANT_ARG_SIZE"
          using less.prems(3) ab(3) c(1) by (simp add: MAX_COVENANT_ARG_SIZE_def MAX_COVENANT_BYTES_def)
        fix cov d
        assume x: "x = ArgCovenant cov" and d: "tokens_write_to X cov = Ok d" "length d \<le> length body"
        show "with_size_check (tokens_read X n') d = Ok cov"
        proof (cases "d = []")
          case True
          then have "cov = []" using d(1)
            by (cases cov rule: list.exhaust) (auto simp: outcome_simps arg_write_nonempty elim!: token_write_to.elims)
          with True show ?thesis by (simp add: with_size_check_def)
        next
          case False
          have "tokens_read X n' d = Ok cov"
            using less.hyps [of d cov n'] d c(1) ab(3) less.prems(3,4) n wf(1) Arg x by simp
          with False d c(1) ab(3) less.prems(3) show ?thesis by (simp add: with_size_check_def)
        qed
      qed
      with c Arg show ?thesis by (simp add: token_read_from_def read_next_byte_code_def)
    qed
    with rest n ab(3) Cons show ?thesis by simp
  qed
qed

text \<open>
  (C15) Covenant round trip. A well-formed covenant (32-byte hash arguments, script arguments that fit their length
  prefix) whose encoding is at most \<open>MAX_COVENANT_BYTES\<close> long decodes to itself from \<open>to_bytes\<close>, nested covenants and
  scripts included, and the Borsh encoding decodes to it and leaves exactly the bytes that follow it.
\<close>

theorem covenant_roundtrip:
  assumes "tx_laws X" and "covenant_wf X cov" and "covenant_to_bytes X cov = Ok bs" and "length bs \<le> MAX_COVENANT_BYTES"
  shows "covenant_from_bytes X bs = Ok cov \<and>
    (\<exists>enc. covenant_borsh_serialize X cov = Ok enc \<and> covenant_borsh_deserialize X (enc @ rest) = Ok (cov, rest))"
proof -
  have w: "tokens_write_to X cov = Ok bs" using assms(3) by (simp add: covenant_to_bytes_def outcome_simps)
  have "tokens_read X (length bs + 1) bs = Ok cov"
    by (rule tokens_read_write [OF assms(1,2) w assms(4)]) simp
  moreover have "cov = []" if "bs = []"
    using w that by (cases cov rule: list.exhaust) (auto simp: outcome_simps arg_write_nonempty elim!: token_write_to.elims)
  ultimately have dec: "covenant_from_bytes X bs = Ok cov"
    using assms(4) by (auto simp: covenant_from_bytes_def with_size_check_def)
  have "length bs \<le> ISIZE_MAX" using assms(4) by (simp add: MAX_COVENANT_BYTES_def ISIZE_MAX_def)
  then show ?thesis
    using dec assms(3) tx_laws_crypto [OF assms(1)]
    by (simp add: covenant_borsh_serialize_def covenant_borsh_deserialize_def read_sized_bytes_write)
qed

definition sample_covenant :: "(u8, u8) covenant" where
  "sample_covenant =
     [Filter FieldEqFilter, Arg (ArgOutputField CovenantField),
      Arg (ArgCovenant [Filter IdentityFilter, Arg (ArgUint 7)])]"

theorem covenant_roundtrip_witness:
  "\<exists>bs. covenant_to_bytes sample_tx sample_covenant = Ok bs \<and> covenant_from_bytes sample_tx bs = Ok sample_covenant"
proof -
  have w: "covenant_wf sample_tx sample_covenant" by (simp add: sample_covenant_def)
  have e: "covenant_to_bytes sample_tx sample_covenant =
      Ok ([0x33, ARG_OUTPUT_FIELD, 3, ARG_COVENANT] @ le_bytes 8 10 @ [0x20, ARG_UINT] @ le_bytes_64 7)"
    by (simp add: covenant_to_bytes_def sample_covenant_def filter_as_byte_code_def output_field_as_byte_def
        sample_tx_def sample_crypto_def)
  show ?thesis
    using covenant_roundtrip [OF sample_tx_laws w e] by (simp add: e MAX_COVENANT_BYTES_def)
qed



end
