(* ===== verification/Covenant_Exec.thy ===== *)
theory Covenant_Exec
  imports Covenant_Codec
begin

text \<open>
  Execution of covenants: \<open>context.rs\<close>, \<open>output_set.rs\<close>, the comparisons of \<open>fields.rs\<close>, the filters under
  \<open>filters/\<close> and \<open>Covenant::execute\<close> of \<open>src/base_layer/core/src/covenants/\<close>.

  A covenant is a token sequence in prefix notation; running it narrows the set of the transaction's outputs. The
  abstract side is a covenant expression with a Boolean meaning on one output; the theorems say that running the
  tokens of an expression computes exactly that meaning, and that nothing but the tokens of an expression is accepted.
\<close>

subsection \<open>Errors, token collection, arguments\<close>

datatype covenant_error =
    UnexpectedEndOfTokens | ExpectedArgButGotFilter | ExpectedFilterButGotArg | UnexpectedArgument
  | NoMatchingOutputs | RemainingTokens | InvalidArgument

definition next_arg ::
  "('pk, 'com) covenant \<Rightarrow> (covenant_error, ('pk, 'com) covenant_arg \<times> ('pk, 'com) covenant) outcome" where
  "next_arg tokens = (case tokens of
     [] \<Rightarrow> Err UnexpectedEndOfTokens
   | Arg a # rest \<Rightarrow> Ok (a, rest)
   | Filter _ # rest \<Rightarrow> Err ExpectedArgButGotFilter)"

definition require_next_filter ::
  "('pk, 'com) covenant \<Rightarrow> (covenant_error, covenant_filter \<times> ('pk, 'com) covenant) outcome" where
  "require_next_filter tokens = (case tokens of
     [] \<Rightarrow> Err UnexpectedEndOfTokens
   | Filter f # rest \<Rightarrow> Ok (f, rest)
   | Arg _ # rest \<Rightarrow> Err ExpectedFilterButGotArg)"

definition require_hash :: "('pk, 'com) covenant_arg \<Rightarrow> (covenant_error, bytes) outcome" where
  "require_hash a = (case a of ArgHash h \<Rightarrow> Ok h | _ \<Rightarrow> Err UnexpectedArgument)"

definition require_outputfield :: "('pk, 'com) covenant_arg \<Rightarrow> (covenant_error, output_field) outcome" where
  "require_outputfield a = (case a of ArgOutputField f \<Rightarrow> Ok f | _ \<Rightarrow> Err UnexpectedArgument)"

definition require_outputfields :: "('pk, 'com) covenant_arg \<Rightarrow> (covenant_error, output_field list) outcome" where
  "require_outputfields a = (case a of ArgOutputFields fs \<Rightarrow> Ok fs | _ \<Rightarrow> Err UnexpectedArgument)"

definition require_uint :: "('pk, 'com) covenant_arg \<Rightarrow> (covenant_error, u64) outcome" where
  "require_uint a = (case a of ArgUint v \<Rightarrow> Ok v | _ \<Rightarrow> Err UnexpectedArgument)"

subsection \<open>The output set\<close>

text \<open>
  A \<open>BTreeSet\<close> of outputs ordered by index: the list of its elements in ascending order of index.
\<close>

type_synonym 'o output_set = "(nat \<times> 'o) list"

definition output_set_new :: "'o list \<Rightarrow> 'o output_set" where
  "output_set_new outputs = List.enumerate 0 outputs"

fun retain_from ::
  "('o \<Rightarrow> ('e, bool) outcome) \<Rightarrow> 'e option \<Rightarrow> 'o output_set \<Rightarrow> ('e, 'o output_set) outcome" where
  "retain_from f err [] = (case err of Some e \<Rightarrow> Err e | None \<Rightarrow> Ok [])"
| "retain_from f err ((i, out) # rest) = (case f out of
     Ok b \<Rightarrow> map_ok (\<lambda>kept. if b then (i, out) # kept else kept) (retain_from f err rest)
   | Err e \<Rightarrow> retain_from f (Some e) rest
   | Panic \<Rightarrow> Panic)"

definition retain :: "('o \<Rightarrow> ('e, bool) outcome) \<Rightarrow> 'o output_set \<Rightarrow> ('e, 'o output_set) outcome" where
  "retain f outs = retain_from f None outs"

fun set_union :: "'o output_set \<Rightarrow> 'o output_set \<Rightarrow> 'o output_set" where
  "set_union [] ys = ys"
| "set_union (x # xs) [] = x # xs"
| "set_union (x # xs) (y # ys) =
     (if fst x < fst y then x # set_union xs (y # ys)
      else if fst y < fst x then y # set_union (x # xs) ys
      else x # set_union xs ys)"

definition set_difference :: "'o output_set \<Rightarrow> 'o output_set \<Rightarrow> 'o output_set" where
  "set_difference xs ys = filter (\<lambda>x. fst x \<notin> fst ` set ys) xs"

fun symmetric_difference :: "'o output_set \<Rightarrow> 'o output_set \<Rightarrow> 'o output_set" where
  "symmetric_difference [] ys = ys"
| "symmetric_difference (x # xs) [] = x # xs"
| "symmetric_difference (x # xs) (y # ys) =
     (if fst x < fst y then x # symmetric_difference xs (y # ys)
      else if fst y < fst x then y # symmetric_difference (x # xs) ys
      else symmetric_difference xs ys)"

definition find_inplace :: "('o \<Rightarrow> bool) \<Rightarrow> 'o output_set \<Rightarrow> 'o output_set" where
  "find_inplace pred outs = (case find (\<lambda>x. pred (snd x)) outs of Some x \<Rightarrow> [x] | None \<Rightarrow> [])"

subsection \<open>Fields of outputs\<close>

text \<open>
  \<open>&dyn Any\<close> over the types of output fields and covenant arguments; a downcast succeeds exactly for the matching
  constructor.
\<close>

datatype ('pk, 'sk, 'com) any_value =
    AnyCommitment 'com | AnyScript "'pk tari_script" | AnyPublicKey 'pk | AnyCovenant "('pk, 'com) covenant"
  | AnyFeatures "('pk, 'sk) output_features" | AnyOutputType output_type | AnyU64 u64
  | AnySideChain "('pk, 'sk) side_chain_feature option" | AnyHash bytes | AnyBytes bytes

definition get_field_value_ref ::
  "output_field \<Rightarrow> ('pk, 'sk, 'com) transaction_output \<Rightarrow> ('pk, 'sk, 'com) any_value" where
  "get_field_value_ref field out = (case field of
     CommitmentField \<Rightarrow> AnyCommitment (out_commitment out)
   | ScriptField \<Rightarrow> AnyScript (out_script out)
   | SenderOffsetPublicKeyField \<Rightarrow> AnyPublicKey (out_sender_offset_public_key out)
   | CovenantField \<Rightarrow> AnyCovenant (out_covenant out)
   | FeaturesField \<Rightarrow> AnyFeatures (out_features out)
   | FeaturesOutputTypeField \<Rightarrow> AnyOutputType (output_type (out_features out))
   | FeaturesMaturityField \<Rightarrow> AnyU64 (maturity (out_features out))
   | FeaturesSideChainFeaturesField \<Rightarrow> AnySideChain (sidechain_feature (out_features out)))"

definition get_field_value_bytes ::
  "('pk, 'sk, 'com) tx_crypto \<Rightarrow> output_field \<Rightarrow> ('pk, 'sk, 'com) transaction_output \<Rightarrow> (unit, bytes) outcome" where
  "get_field_value_bytes X field out = (case field of
     CommitmentField \<Rightarrow> Ok (com_serialize X (out_commitment out))
   | ScriptField \<Rightarrow> Ok (script_borsh_serialize (crypto X) (out_script out))
   | SenderOffsetPublicKeyField \<Rightarrow> Ok (pk_serialize X (out_sender_offset_public_key out))
   | CovenantField \<Rightarrow> covenant_borsh_serialize X (out_covenant out)
   | FeaturesField \<Rightarrow> Ok (features_serialize X (out_features out))
   | FeaturesOutputTypeField \<Rightarrow> Ok [output_type_as_byte (output_type (out_features out))]
   | FeaturesMaturityField \<Rightarrow> Ok (le_bytes_64 (maturity (out_features out)))
   | FeaturesSideChainFeaturesField \<Rightarrow> Ok (sidechain_serialize X (sidechain_feature (out_features out))))"

fun map_or_false :: "('a \<Rightarrow> bool) \<Rightarrow> ('e, 'a) outcome \<Rightarrow> bool" where
  "map_or_false p (Ok a) = p a"
| "map_or_false p (Err e) = False"
| "map_or_false p Panic = False"

definition is_eq_input ::
  "output_field \<Rightarrow> ('pk, 'sk, 'com) transaction_input \<Rightarrow> ('pk, 'sk, 'com) transaction_output \<Rightarrow> bool" where
  "is_eq_input field input out = (case field of
     CommitmentField \<Rightarrow> map_or_false (\<lambda>c. c = out_commitment out) (input_commitment input)
   | ScriptField \<Rightarrow> map_or_false (\<lambda>s. s = out_script out) (input_script input)
   | SenderOffsetPublicKeyField \<Rightarrow>
       map_or_false (\<lambda>k. k = out_sender_offset_public_key out) (input_sender_offset_public_key input)
   | CovenantField \<Rightarrow> map_or_false (\<lambda>c. c = out_covenant out) (input_covenant input)
   | FeaturesField \<Rightarrow> map_or_false (\<lambda>f. f = out_features out) (input_features input)
   | FeaturesOutputTypeField \<Rightarrow>
       map_or_false (\<lambda>f. output_type f = output_type (out_features out)) (input_features input)
   | FeaturesMaturityField \<Rightarrow> map_or_false (\<lambda>f. maturity f = maturity (out_features out)) (input_features input)
   | FeaturesSideChainFeaturesField \<Rightarrow>
       map_or_false (\<lambda>f. sidechain_feature f = sidechain_feature (out_features out)) (input_features input))"

text \<open>
  \<open>is_eq\<close> at the argument types \<open>field_eq\<close> calls it with. None of them is \<open>SideChainFeature\<close>, so both downcasts of the
  side-chain field fail; for the other fields the downcast succeeds when the argument has the type of the field.
\<close>

definition is_eq ::
  "output_field \<Rightarrow> ('pk, 'sk, 'com) transaction_output \<Rightarrow> ('pk, 'sk, 'com) any_value \<Rightarrow> (covenant_error, bool) outcome" where
  "is_eq field out val = (case (get_field_value_ref field out, val) of
     (AnyCommitment a, AnyCommitment b) \<Rightarrow> Ok (a = b)
   | (AnyScript a, AnyScript b) \<Rightarrow> Ok (a = b)
   | (AnyPublicKey a, AnyPublicKey b) \<Rightarrow> Ok (a = b)
   | (AnyCovenant a, AnyCovenant b) \<Rightarrow> Ok (a = b)
   | (AnyOutputType a, AnyOutputType b) \<Rightarrow> Ok (a = b)
   | _ \<Rightarrow> Err InvalidArgument)"

definition field_eq_test ::
  "output_field \<Rightarrow> ('pk, 'com) covenant_arg \<Rightarrow> ('pk, 'sk, 'com) transaction_output \<Rightarrow> (covenant_error, bool) outcome" where
  "field_eq_test field a out = (case a of
     ArgHash h \<Rightarrow> is_eq field out (AnyHash h)
   | ArgPublicKey k \<Rightarrow> is_eq field out (AnyPublicKey k)
   | ArgCommitment c \<Rightarrow> is_eq field out (AnyCommitment c)
   | ArgTariScript s \<Rightarrow> is_eq field out (AnyScript s)
   | ArgCovenant c \<Rightarrow> is_eq field out (AnyCovenant c)
   | ArgOutputType t \<Rightarrow> is_eq field out (AnyOutputType t)
   | ArgUint i \<Rightarrow> (case get_field_value_ref field out of AnyU64 v \<Rightarrow> Ok (v = i) | _ \<Rightarrow> Err InvalidArgument)
   | ArgBytes b \<Rightarrow> is_eq field out (AnyBytes b)
   | ArgOutputField _ \<Rightarrow> Err InvalidArgument
   | ArgOutputFields _ \<Rightarrow> Err InvalidArgument)"

fun fields_bytes ::
  "('pk, 'sk, 'com) tx_crypto \<Rightarrow> output_field list \<Rightarrow> ('pk, 'sk, 'com) transaction_output \<Rightarrow> (unit, bytes) outcome" where
  "fields_bytes X [] out = Ok []"
| "fields_bytes X (f # fs) out =
     and_then (get_field_value_bytes X f out) (\<lambda>a. map_ok (append a) (fields_bytes X fs out))"

definition construct_challenge_from ::
  "('pk, 'sk, 'com) tx_crypto \<Rightarrow> output_field list \<Rightarrow> ('pk, 'sk, 'com) transaction_output \<Rightarrow> (unit, bytes) outcome" where
  "construct_challenge_from X fs out =
     map_ok (\<lambda>bs. blake256 (crypto X) (covenants_domain_tag X @ bs)) (unwrap (fields_bytes X fs out))"

subsection \<open>Filters\<close>

definition output_hash_eq_filter where
  "output_hash_eq_filter X tokens outs =
     and_then (next_arg tokens) (\<lambda>(a, tokens).
     and_then (require_hash a) (\<lambda>hash.
     Ok (tokens, find_inplace (\<lambda>out. output_hash_of X out = hash) outs)))"

definition fields_preserved_filter where
  "fields_preserved_filter input tokens outs =
     and_then (next_arg tokens) (\<lambda>(a, tokens).
     and_then (require_outputfields a) (\<lambda>fs.
     map_ok (\<lambda>outs. (tokens, outs)) (retain (\<lambda>out. Ok (list_all (\<lambda>f. is_eq_input f input out) fs)) outs)))"

definition field_eq_filter where
  "field_eq_filter tokens outs =
     and_then (next_arg tokens) (\<lambda>(a, tokens).
     and_then (require_outputfield a) (\<lambda>field.
     and_then (next_arg tokens) (\<lambda>(a, tokens).
     map_ok (\<lambda>outs. (tokens, outs)) (retain (field_eq_test field a) outs))))"

definition fields_hashed_eq_filter where
  "fields_hashed_eq_filter X tokens outs =
     and_then (next_arg tokens) (\<lambda>(a, tokens).
     and_then (require_outputfields a) (\<lambda>fs.
     and_then (next_arg tokens) (\<lambda>(a, tokens).
     and_then (require_hash a) (\<lambda>hash.
     map_ok (\<lambda>outs. (tokens, outs))
       (retain (\<lambda>out. map_ok (\<lambda>c. c = hash) (unwrap (construct_challenge_from X fs out))) outs)))))"

definition absolute_height_filter where
  "absolute_height_filter (current_height :: u64) tokens outs =
     and_then (next_arg tokens) (\<lambda>(a, tokens).
     and_then (require_uint a) (\<lambda>abs_height.
     Ok (tokens, if current_height < abs_height then [] else outs)))"

text \<open>
  \<open>require_next_filter\<close> followed by \<open>filter\<close> of what it returned. Every call takes a token, so the number of tokens
  is enough fuel: at fuel 0 there is no token left, and the result is the one \<open>require_next_filter\<close> has then.
\<close>

fun run_next_filter ::
  "('pk, 'sk, 'com) tx_crypto \<Rightarrow> ('pk, 'sk, 'com) transaction_input \<Rightarrow> u64 \<Rightarrow> nat \<Rightarrow> ('pk, 'com) covenant \<Rightarrow>
   ('pk, 'sk, 'com) transaction_output output_set \<Rightarrow>
   (covenant_error, ('pk, 'com) covenant \<times> ('pk, 'sk, 'com) transaction_output output_set) outcome" where
  "run_next_filter X input h 0 tokens outs = Err UnexpectedEndOfTokens"
| "run_next_filter X input h (Suc fuel) tokens outs =
     and_then (require_next_filter tokens) (\<lambda>(f, tokens). case f of
       IdentityFilter \<Rightarrow> Ok (tokens, outs)
     | AndFilter \<Rightarrow>
         and_then (run_next_filter X input h fuel tokens outs) (\<lambda>(tokens, outs).
         run_next_filter X input h fuel tokens outs)
     | OrFilter \<Rightarrow>
         and_then (run_next_filter X input h fuel tokens outs) (\<lambda>(tokens, outs_a).
         and_then (run_next_filter X input h fuel tokens outs) (\<lambda>(tokens, outs_b).
         Ok (tokens, set_union outs_a outs_b)))
     | XorFilter \<Rightarrow>
         and_then (run_next_filter X input h fuel tokens outs) (\<lambda>(tokens, outs_a).
         and_then (run_next_filter X input h fuel tokens outs) (\<lambda>(tokens, outs_b).
         Ok (tokens, symmetric_difference outs_a outs_b)))
     | NotFilter \<Rightarrow>
         and_then (run_next_filter X input h fuel tokens outs) (\<lambda>(tokens, outs_copy).
         Ok (tokens, set_difference outs outs_copy))
     | OutputHashEqFilter \<Rightarrow> output_hash_eq_filter X tokens outs
     | FieldsPreservedFilter \<Rightarrow> fields_preserved_filter input tokens outs
     | FieldEqFilter \<Rightarrow> field_eq_filter tokens outs
     | FieldsHashedEqFilter \<Rightarrow> fields_hashed_eq_filter X tokens outs
     | AbsoluteHeightFilter \<Rightarrow> absolute_height_filter h tokens outs)"

definition covenant_execute ::
  "('pk, 'sk, 'com) tx_crypto \<Rightarrow> ('pk, 'com) covenant \<Rightarrow> u64 \<Rightarrow> ('pk, 'sk, 'com) transaction_input \<Rightarrow>
   ('pk, 'sk, 'com) transaction_output list \<Rightarrow> (covenant_error, nat) outcome" where
  "covenant_execute X tokens height input outputs =
     (if tokens = [] then Ok (length outputs)
      else and_then (run_next_filter X input height (length tokens) tokens (output_set_new outputs)) (\<lambda>(rest, outs).
        if rest \<noteq> [] then Err RemainingTokens
        else if outs = [] then Err NoMatchingOutputs
        else Ok (length outs)))"

subsection \<open>Set operations on selections of one set\<close>

lemma retain_from_error: "retain_from f (Some e) outs \<noteq> Ok r"
  by (induction outs arbitrary: e r) (auto simp: outcome_simps split: outcome.splits)

lemma retain_eq_filter:
  assumes "\<forall>x\<in>set outs. f (snd x) = Ok (p (snd x))"
  shows "retain f outs = Ok (filter (\<lambda>x. p (snd x)) outs)"
  using assms unfolding retain_def by (induction outs) auto

abbreviation ascending :: "'o output_set \<Rightarrow> bool" where "ascending outs \<equiv> sorted_wrt (<) (map fst outs)"

lemma set_union_Cons_less: "\<forall>y\<in>set ys. fst x < fst y \<Longrightarrow> set_union (x # xs) ys = x # set_union xs ys"
  by (cases ys; cases xs) auto

lemma set_union_less_Cons: "\<forall>x\<in>set xs. fst y < fst x \<Longrightarrow> set_union xs (y # ys) = y # set_union xs ys"
  by (cases xs) auto

lemma set_union_filter:
  "ascending outs \<Longrightarrow> set_union (filter p outs) (filter q outs) = filter (\<lambda>x. p x \<or> q x) outs"
  by (induction outs) (auto simp: set_union_Cons_less set_union_less_Cons)

lemma symdiff_Cons_less:
  "\<forall>y\<in>set ys. fst x < fst y \<Longrightarrow> symmetric_difference (x # xs) ys = x # symmetric_difference xs ys"
  by (cases ys; cases xs) auto

lemma symdiff_less_Cons:
  "\<forall>x\<in>set xs. fst y < fst x \<Longrightarrow> symmetric_difference xs (y # ys) = y # symmetric_difference xs ys"
  by (cases xs) auto

lemma symdiff_filter:
  "ascending outs \<Longrightarrow> symmetric_difference (filter p outs) (filter q outs) = filter (\<lambda>x. p x \<noteq> q x) outs"
  by (induction outs) (auto simp: symdiff_Cons_less symdiff_less_Cons)

lemma difference_filter:
  assumes "ascending outs"
  shows "set_difference outs (filter p outs) = filter (\<lambda>x. \<not> p x) outs"
proof -
  have "distinct (map fst outs)" using assms strict_sorted_iff by blast
  then show ?thesis
    unfolding set_difference_def by (intro filter_cong) (auto simp: distinct_map inj_on_def)
qed

lemma find_filter:
  assumes "distinct (map (g \<circ> snd) outs)"
  shows "find_inplace (\<lambda>out. g out = h) outs = filter (\<lambda>x. g (snd x) = h) outs"
  using assms
proof (induction outs)
  case (Cons x xs)
  have "filter (\<lambda>y. g (snd y) = h) xs = []" if "g (snd x) = h"
    using Cons.prems that by (auto simp: filter_empty_conv image_iff)
  with Cons show ?case by (auto simp: find_inplace_def)
qed (simp add: find_inplace_def)

lemma output_set_new_ascending: "ascending (output_set_new outputs)"
  by (simp add: output_set_new_def enumerate_map_upt strict_sorted_iff)

lemma output_set_new_snd: "map snd (output_set_new outputs) = outputs"
  by (simp add: output_set_new_def)

subsection \<open>Covenant expressions\<close>

datatype ('pk, 'com) covenant_expr =
    EIdentity
  | EAnd "('pk, 'com) covenant_expr" "('pk, 'com) covenant_expr"
  | EOr "('pk, 'com) covenant_expr" "('pk, 'com) covenant_expr"
  | EXor "('pk, 'com) covenant_expr" "('pk, 'com) covenant_expr"
  | ENot "('pk, 'com) covenant_expr"
  | EOutputHashEq bytes
  | EFieldsPreserved "output_field list"
  | EFieldEq output_field "('pk, 'com) covenant_arg"
  | EFieldsHashedEq "output_field list" bytes
  | EAbsoluteHeight u64

fun expr_tokens :: "('pk, 'com) covenant_expr \<Rightarrow> ('pk, 'com) covenant" where
  "expr_tokens EIdentity = [Filter IdentityFilter]"
| "expr_tokens (EAnd a b) = Filter AndFilter # expr_tokens a @ expr_tokens b"
| "expr_tokens (EOr a b) = Filter OrFilter # expr_tokens a @ expr_tokens b"
| "expr_tokens (EXor a b) = Filter XorFilter # expr_tokens a @ expr_tokens b"
| "expr_tokens (ENot a) = Filter NotFilter # expr_tokens a"
| "expr_tokens (EOutputHashEq h) = [Filter OutputHashEqFilter, Arg (ArgHash h)]"
| "expr_tokens (EFieldsPreserved fs) = [Filter FieldsPreservedFilter, Arg (ArgOutputFields fs)]"
| "expr_tokens (EFieldEq f a) = [Filter FieldEqFilter, Arg (ArgOutputField f), Arg a]"
| "expr_tokens (EFieldsHashedEq fs h) = [Filter FieldsHashedEqFilter, Arg (ArgOutputFields fs), Arg (ArgHash h)]"
| "expr_tokens (EAbsoluteHeight n) = [Filter AbsoluteHeightFilter, Arg (ArgUint n)]"

text \<open>The Boolean meaning of an expression on one output, and the outputs on which no field comparison fails.\<close>

fun expr_matches ::
  "('pk, 'sk, 'com) tx_crypto \<Rightarrow> ('pk, 'sk, 'com) transaction_input \<Rightarrow> u64 \<Rightarrow> ('pk, 'com) covenant_expr \<Rightarrow>
   ('pk, 'sk, 'com) transaction_output \<Rightarrow> bool" where
  "expr_matches X input h EIdentity out = True"
| "expr_matches X input h (EAnd a b) out = (expr_matches X input h a out \<and> expr_matches X input h b out)"
| "expr_matches X input h (EOr a b) out = (expr_matches X input h a out \<or> expr_matches X input h b out)"
| "expr_matches X input h (EXor a b) out = (expr_matches X input h a out \<noteq> expr_matches X input h b out)"
| "expr_matches X input h (ENot a) out = (\<not> expr_matches X input h a out)"
| "expr_matches X input h (EOutputHashEq hash) out = (output_hash_of X out = hash)"
| "expr_matches X input h (EFieldsPreserved fs) out = list_all (\<lambda>f. is_eq_input f input out) fs"
| "expr_matches X input h (EFieldEq f a) out = (field_eq_test f a out = Ok True)"
| "expr_matches X input h (EFieldsHashedEq fs hash) out = (construct_challenge_from X fs out = Ok hash)"
| "expr_matches X input h (EAbsoluteHeight n) out = (n \<le> h)"

fun expr_defined ::
  "('pk, 'sk, 'com) tx_crypto \<Rightarrow> ('pk, 'com) covenant_expr \<Rightarrow> ('pk, 'sk, 'com) transaction_output \<Rightarrow> bool" where
  "expr_defined X (EAnd a b) out = (expr_defined X a out \<and> expr_defined X b out)"
| "expr_defined X (EOr a b) out = (expr_defined X a out \<and> expr_defined X b out)"
| "expr_defined X (EXor a b) out = (expr_defined X a out \<and> expr_defined X b out)"
| "expr_defined X (ENot a) out = expr_defined X a out"
| "expr_defined X (EFieldEq f a) out = (field_eq_test f a out \<noteq> Err InvalidArgument)"
| "expr_defined X (EFieldsHashedEq fs hash) out = (construct_challenge_from X fs out \<noteq> Panic)"
| "expr_defined X EIdentity out = True"
| "expr_defined X (EOutputHashEq hash) out = True"
| "expr_defined X (EFieldsPreserved fs) out = True"
| "expr_defined X (EAbsoluteHeight n) out = True"

lemma field_eq_test_cases: "field_eq_test f a out = Err InvalidArgument \<or> (\<exists>b. field_eq_test f a out = Ok b)"
  by (cases a; cases f) (simp_all add: field_eq_test_def is_eq_def get_field_value_ref_def)

lemma construct_challenge_cases: "construct_challenge_from X fs out = Panic \<or> (\<exists>b. construct_challenge_from X fs out = Ok b)"
  by (cases "fields_bytes X fs out") (simp_all add: construct_challenge_from_def)

lemmas filter_defs = output_hash_eq_filter_def fields_preserved_filter_def field_eq_filter_def fields_hashed_eq_filter_def
  absolute_height_filter_def next_arg_def require_hash_def require_outputfield_def require_outputfields_def require_uint_def
  require_next_filter_def

definition selection where
  "selection X input h e outs = filter (\<lambda>x. expr_matches X input h e (snd x)) outs"

lemma leaf_filters:
  assumes "\<forall>x\<in>set outs. expr_defined X e (snd x)" and "distinct (map (output_hash_of X \<circ> snd) outs)"
  shows "e = EOutputHashEq hh \<Longrightarrow> output_hash_eq_filter X (Arg (ArgHash hh) # rest) outs = Ok (rest, selection X input h e outs)"
    and "e = EFieldsPreserved fs \<Longrightarrow>
      fields_preserved_filter input (Arg (ArgOutputFields fs) # rest) outs = Ok (rest, selection X input h e outs)"
    and "e = EFieldEq f a \<Longrightarrow>
      field_eq_filter (Arg (ArgOutputField f) # Arg a # rest) outs = Ok (rest, selection X input h e outs)"
    and "e = EFieldsHashedEq fs hh \<Longrightarrow>
      fields_hashed_eq_filter X (Arg (ArgOutputFields fs) # Arg (ArgHash hh) # rest) outs = Ok (rest, selection X input h e outs)"
    and "e = EAbsoluteHeight n \<Longrightarrow>
      absolute_height_filter h (Arg (ArgUint n) # rest) outs = Ok (rest, selection X input h e outs)"
proof -
  show "output_hash_eq_filter X (Arg (ArgHash hh) # rest) outs = Ok (rest, selection X input h e outs)" if "e = EOutputHashEq hh"
    using assms(2) that by (simp add: filter_defs find_filter selection_def)
  show "fields_preserved_filter input (Arg (ArgOutputFields fs) # rest) outs = Ok (rest, selection X input h e outs)"
    if "e = EFieldsPreserved fs"
    using that retain_eq_filter [of outs "\<lambda>out. Ok (list_all (\<lambda>f. is_eq_input f input out) fs) :: (covenant_error, bool) outcome"
      "\<lambda>out. list_all (\<lambda>f. is_eq_input f input out) fs"]
    by (simp add: filter_defs selection_def)
  have "\<forall>x\<in>set outs. field_eq_test f a (snd x) = Ok (field_eq_test f a (snd x) = Ok True)" if "e = EFieldEq f a"
    using assms(1) that field_eq_test_cases [of f a] by fastforce
  then show "field_eq_filter (Arg (ArgOutputField f) # Arg a # rest) outs = Ok (rest, selection X input h e outs)"
    if "e = EFieldEq f a"
    using that retain_eq_filter [of outs "field_eq_test f a" "\<lambda>out. field_eq_test f a out = Ok True"] by (simp add: filter_defs selection_def)
  have "\<forall>x\<in>set outs. map_ok (\<lambda>c. c = hh) (unwrap (construct_challenge_from X fs (snd x))) =
      (Ok (construct_challenge_from X fs (snd x) = Ok hh) :: (covenant_error, bool) outcome)" if "e = EFieldsHashedEq fs hh"
    using assms(1) that construct_challenge_cases [of X fs] by fastforce
  then show "fields_hashed_eq_filter X (Arg (ArgOutputFields fs) # Arg (ArgHash hh) # rest) outs = Ok (rest, selection X input h e outs)"
    if "e = EFieldsHashedEq fs hh"
    using that retain_eq_filter [of outs "\<lambda>out. map_ok (\<lambda>c. c = hh) (unwrap (construct_challenge_from X fs out)) :: (covenant_error, bool) outcome"
      "\<lambda>out. construct_challenge_from X fs out = Ok hh"]
    by (simp add: filter_defs selection_def)
  show "absolute_height_filter h (Arg (ArgUint n) # rest) outs = Ok (rest, selection X input h e outs)" if "e = EAbsoluteHeight n"
    using that by (cases "n \<le> h") (auto simp: filter_defs selection_def not_le)
qed

lemma selection_preserves:
  assumes "ascending outs" and "distinct (map (output_hash_of X \<circ> snd) outs)" and "\<forall>x\<in>set outs. Q (snd x)"
  shows "ascending (selection X input h e outs) \<and> distinct (map (output_hash_of X \<circ> snd) (selection X input h e outs)) \<and>
    (\<forall>x\<in>set (selection X input h e outs). Q (snd x))"
  using assms unfolding selection_def
  by (auto simp: sorted_wrt_map distinct_map inj_on_def intro: sorted_wrt_filter)

lemma run_expr:
  assumes "length (expr_tokens e) \<le> n" and "ascending outs" and "distinct (map (output_hash_of X \<circ> snd) outs)"
    and "\<forall>x\<in>set outs. expr_defined X e (snd x)"
  shows "run_next_filter X input h n (expr_tokens e @ rest) outs = Ok (rest, selection X input h e outs)"
  using assms
proof (induction e arbitrary: n outs rest)
  case (EAnd a b)
  obtain m where m: "n = Suc m" using EAnd.prems(1) by (cases n) auto
  have "\<forall>x\<in>set outs. expr_defined X a (snd x)" "\<forall>x\<in>set outs. expr_defined X b (snd x)" using EAnd.prems(4) by simp_all
  note sel = selection_preserves [OF EAnd.prems(2,3) this(2), of input h a] and def_a = this(1)
  have "run_next_filter X input h m (expr_tokens a @ expr_tokens b @ rest) outs =
      Ok (expr_tokens b @ rest, selection X input h a outs)"
    using EAnd.prems m def_a by (intro EAnd.IH(1)) auto
  moreover have "run_next_filter X input h m (expr_tokens b @ rest) (selection X input h a outs) =
      Ok (rest, selection X input h b (selection X input h a outs))"
    using EAnd.prems(1) m sel by (intro EAnd.IH(2)) (simp_all add: comp_def)
  moreover have "selection X input h b (selection X input h a outs) = selection X input h (EAnd a b) outs"
    by (auto simp: selection_def intro: filter_cong)
  ultimately show ?case by (simp add: m require_next_filter_def)
next
  case (EOr a b)
  obtain m where m: "n = Suc m" using EOr.prems(1) by (cases n) auto
  have "run_next_filter X input h m (expr_tokens a @ expr_tokens b @ rest) outs =
      Ok (expr_tokens b @ rest, selection X input h a outs)"
    "run_next_filter X input h m (expr_tokens b @ rest) outs = Ok (rest, selection X input h b outs)"
    using EOr.prems m by (intro EOr.IH; auto)+
  then show ?case
    using set_union_filter [OF EOr.prems(2)] by (simp add: m require_next_filter_def selection_def)
next
  case (EXor a b)
  obtain m where m: "n = Suc m" using EXor.prems(1) by (cases n) auto
  have "run_next_filter X input h m (expr_tokens a @ expr_tokens b @ rest) outs =
      Ok (expr_tokens b @ rest, selection X input h a outs)"
    "run_next_filter X input h m (expr_tokens b @ rest) outs = Ok (rest, selection X input h b outs)"
    using EXor.prems m by (intro EXor.IH; auto)+
  then show ?case
    using symdiff_filter [OF EXor.prems(2)] by (simp add: m require_next_filter_def selection_def)
next
  case (ENot a)
  obtain m where m: "n = Suc m" using ENot.prems(1) by (cases n) auto
  have "run_next_filter X input h m (expr_tokens a @ rest) outs = Ok (rest, selection X input h a outs)"
    using ENot.prems m by (intro ENot.IH) auto
  then show ?case
    using difference_filter [OF ENot.prems(2)] by (simp add: m require_next_filter_def selection_def)
next
  case EIdentity
  then show ?case by (cases n) (auto simp: require_next_filter_def selection_def)
next
  case (EOutputHashEq hh)
  then show ?case by (cases n) (auto simp: require_next_filter_def comp_def intro!: leaf_filters)
next
  case (EFieldsPreserved fs)
  then show ?case by (cases n) (auto simp: require_next_filter_def comp_def intro!: leaf_filters)
next
  case (EFieldEq f a)
  then show ?case by (cases n) (auto simp: require_next_filter_def comp_def intro!: leaf_filters)
next
  case (EFieldsHashedEq fs hh)
  then show ?case by (cases n) (auto simp: require_next_filter_def comp_def intro!: leaf_filters)
next
  case (EAbsoluteHeight k)
  then show ?case by (cases n) (auto simp: require_next_filter_def comp_def intro!: leaf_filters)
qed

text \<open>
  (C17) Running a covenant computes its meaning. For the token sequence of a covenant expression, outputs with distinct
  hashes and no ill-typed field comparison on them, \<open>Covenant::execute\<close> succeeds exactly when some output satisfies the
  expression, and then returns the number of outputs that do.
\<close>

theorem covenant_execute_meaning:
  assumes "distinct (map (output_hash_of X) outputs)" and "\<forall>out\<in>set outputs. expr_defined X e out"
  shows "covenant_execute X (expr_tokens e) height input outputs =
    (let matching = filter (expr_matches X input height e) outputs
     in if matching = [] then Err NoMatchingOutputs else Ok (length matching))"
proof -
  have "distinct (map (output_hash_of X \<circ> snd) (output_set_new outputs))"
    using assms(1) by (metis map_map output_set_new_snd)
  moreover have "\<forall>x\<in>set (output_set_new outputs). expr_defined X e (snd x)"
    using assms(2) output_set_new_snd [of outputs] by (metis list.set_map imageI)
  ultimately have run: "run_next_filter X input height (length (expr_tokens e)) (expr_tokens e) (output_set_new outputs) =
      Ok ([], selection X input height e (output_set_new outputs))"
    using run_expr [of e "length (expr_tokens e)" "output_set_new outputs" X input height "[]"]
      output_set_new_ascending [of outputs]
    by simp
  have "map snd (selection X input height e (output_set_new outputs)) = filter (expr_matches X input height e) outputs"
    unfolding selection_def by (simp add: filter_map [unfolded comp_def, symmetric] output_set_new_snd)
  moreover have "expr_tokens e \<noteq> []" by (cases e) simp_all
  ultimately show ?thesis
    by (simp add: covenant_execute_def run Let_def) (metis length_map map_is_Nil_conv)
qed

lemma token_reads [outcome_simps]:
  "next_arg ts = Ok (a, rest) \<longleftrightarrow> ts = Arg a # rest"
  "require_next_filter ts = Ok (f, rest) \<longleftrightarrow> ts = Filter f # rest"
  "require_hash a = Ok hh \<longleftrightarrow> a = ArgHash hh"
  "require_outputfield a = Ok field \<longleftrightarrow> a = ArgOutputField field"
  "require_outputfields a = Ok fs \<longleftrightarrow> a = ArgOutputFields fs"
  "require_uint a = Ok n \<longleftrightarrow> a = ArgUint n"
  by (auto simp: filter_defs split: list.splits covenant_token.splits covenant_arg.splits)

lemma expr_parses:
  "\<exists>e. [Filter IdentityFilter] = expr_tokens e"
  "\<exists>e. Filter AndFilter # expr_tokens a @ expr_tokens b = expr_tokens e"
  "\<exists>e. Filter OrFilter # expr_tokens a @ expr_tokens b = expr_tokens e"
  "\<exists>e. Filter XorFilter # expr_tokens a @ expr_tokens b = expr_tokens e"
  "\<exists>e. Filter NotFilter # expr_tokens a = expr_tokens e"
  "\<exists>e. [Filter OutputHashEqFilter, Arg (ArgHash hh)] = expr_tokens e"
  "\<exists>e. [Filter FieldsPreservedFilter, Arg (ArgOutputFields fs)] = expr_tokens e"
  "\<exists>e. [Filter FieldEqFilter, Arg (ArgOutputField f), Arg x] = expr_tokens e"
  "\<exists>e. [Filter FieldsHashedEqFilter, Arg (ArgOutputFields fs), Arg (ArgHash hh)] = expr_tokens e"
  "\<exists>e. [Filter AbsoluteHeightFilter, Arg (ArgUint n)] = expr_tokens e"
  by (rule exI, rule expr_tokens.simps [symmetric])+

lemma run_next_filter_parses:
  assumes "run_next_filter X input h n tokens outs = Ok (rest, outs')"
  shows "\<exists>e. tokens = expr_tokens e @ rest"
  using assms
proof (induction n arbitrary: tokens outs rest outs')
  case (Suc n)
  from Suc.prems obtain f ts where t: "tokens = Filter f # ts" by (auto simp: outcome_simps)
  have two: "\<exists>a b. ts = expr_tokens a @ expr_tokens b @ rest"
    if "run_next_filter X input h n ts outs = Ok (ts1, o1)" "run_next_filter X input h n ts1 o2 = Ok (rest, o3)" for ts1 o1 o2 o3
    using Suc.IH [OF that(1)] Suc.IH [OF that(2)] by auto
  have run: "require_next_filter tokens = Ok (f, ts)" using t by (simp add: outcome_simps)
  show ?case
    using Suc.prems unfolding t run [unfolded t] run_next_filter.simps
    by (cases f)
      (auto simp: outcome_simps output_hash_eq_filter_def fields_preserved_filter_def field_eq_filter_def
        fields_hashed_eq_filter_def absolute_height_filter_def expr_parses dest!: two Suc.IH)
qed simp


definition sample_output :: "u8 \<Rightarrow> u64 \<Rightarrow> (u8, u8, u8) transaction_output" where
  "sample_output c m = \<lparr>out_version = OutputV0, out_features = output_features_default\<lparr>maturity := m\<rparr>, out_commitment = c,
     out_proof = None, out_script = [], out_sender_offset_public_key = 1, out_metadata_signature = (0, 0, 0, 0, 0),
     out_covenant = [], out_encrypted_data = [], out_minimum_value_promise = 0\<rparr>"

definition sample_input :: "(u8, u8, u8) transaction_input" where
  "sample_input = \<lparr>in_version = InputV0, in_spent_output = OutputData OutputV0 output_features_default 9 [] 1 [] [] 0,
     in_input_data = [], in_script_signature = (0, 0, 0, 0, 0)\<rparr>"

lemmas sample_output_simps = sample_output_def sample_tx_def output_hash_of_def hash_output_def output_features_default_def
  field_eq_test_def get_field_value_ref_def

theorem covenant_execute_meaning_witness:
  "covenant_execute sample_tx
     (expr_tokens (EAnd (EFieldEq FeaturesMaturityField (ArgUint 42)) (ENot (EAbsoluteHeight 100)))) 99 sample_input
     [sample_output 1 42, sample_output 2 7, sample_output 3 42] = Ok 2"
  using covenant_execute_meaning [of sample_tx "[sample_output 1 42, sample_output 2 7, sample_output 3 42]"
      "EAnd (EFieldEq FeaturesMaturityField (ArgUint 42)) (ENot (EAbsoluteHeight 100))" 99 sample_input]
  by (simp add: sample_output_simps)


end
