(* ===== verification/Aggregate_Body.thy ===== *)
theory Aggregate_Body
  imports Covenant_Exec "HOL-Library.Multiset"
begin

text \<open>
  Aggregate bodies and transactions: \<open>aggregated_body.rs\<close>, \<open>transaction_components/transaction.rs\<close> and the body weight
  of \<open>weight.rs\<close> under \<open>src/base_layer/core/src/transactions/\<close>.

  \<open>slice::sort\<close> is a stable sort by \<open>Ord\<close>, here \<open>sort_key\<close>: inputs are ordered by output hash, outputs by commitment,
  kernels by excess signature. A size in bytes is a \<open>usize\<close> of 64 bits.
\<close>

subsection \<open>Bodies\<close>

record ('pk, 'sk, 'com) aggregate_body =
  body_sorted :: bool
  body_inputs :: "('pk, 'sk, 'com) transaction_input list"
  body_outputs :: "('pk, 'sk, 'com) transaction_output list"
  body_kernels :: "('pk, 'sk, 'com) transaction_kernel list"

definition body_new ::
  "('pk, 'sk, 'com) transaction_input list \<Rightarrow> ('pk, 'sk, 'com) transaction_output list \<Rightarrow>
   ('pk, 'sk, 'com) transaction_kernel list \<Rightarrow> ('pk, 'sk, 'com) aggregate_body" where
  "body_new inputs outputs kernels =
     \<lparr>body_sorted = False, body_inputs = inputs, body_outputs = outputs, body_kernels = kernels\<rparr>"

definition new_sorted_unchecked ::
  "('pk, 'sk, 'com) transaction_input list \<Rightarrow> ('pk, 'sk, 'com) transaction_output list \<Rightarrow>
   ('pk, 'sk, 'com) transaction_kernel list \<Rightarrow> ('pk, 'sk, 'com) aggregate_body" where
  "new_sorted_unchecked inputs outputs kernels =
     \<lparr>body_sorted = True, body_inputs = inputs, body_outputs = outputs, body_kernels = kernels\<rparr>"

definition body_empty :: "('pk, 'sk, 'com) aggregate_body" where
  "body_empty = new_sorted_unchecked [] [] []"

definition add_input :: "('pk, 'sk, 'com) transaction_input \<Rightarrow> ('pk, 'sk, 'com) aggregate_body \<Rightarrow> ('pk, 'sk, 'com) aggregate_body" where
  "add_input i self = self\<lparr>body_inputs := body_inputs self @ [i], body_sorted := False\<rparr>"

definition add_inputs :: "('pk, 'sk, 'com) transaction_input list \<Rightarrow> ('pk, 'sk, 'com) aggregate_body \<Rightarrow> ('pk, 'sk, 'com) aggregate_body" where
  "add_inputs ins self = self\<lparr>body_inputs := body_inputs self @ ins, body_sorted := False\<rparr>"

definition add_output :: "('pk, 'sk, 'com) transaction_output \<Rightarrow> ('pk, 'sk, 'com) aggregate_body \<Rightarrow> ('pk, 'sk, 'com) aggregate_body" where
  "add_output out self = self\<lparr>body_outputs := body_outputs self @ [out], body_sorted := False\<rparr>"

definition add_outputs :: "('pk, 'sk, 'com) transaction_output list \<Rightarrow> ('pk, 'sk, 'com) aggregate_body \<Rightarrow> ('pk, 'sk, 'com) aggregate_body" where
  "add_outputs outs self = self\<lparr>body_outputs := body_outputs self @ outs, body_sorted := False\<rparr>"

definition add_kernel :: "('pk, 'sk, 'com) transaction_kernel \<Rightarrow> ('pk, 'sk, 'com) aggregate_body \<Rightarrow> ('pk, 'sk, 'com) aggregate_body" where
  "add_kernel k self = self\<lparr>body_kernels := body_kernels self @ [k]\<rparr>"

definition add_kernels :: "('pk, 'sk, 'com) transaction_kernel list \<Rightarrow> ('pk, 'sk, 'com) aggregate_body \<Rightarrow> ('pk, 'sk, 'com) aggregate_body" where
  "add_kernels ks self = self\<lparr>body_kernels := body_kernels self @ ks, body_sorted := False\<rparr>"

definition set_kernel :: "('pk, 'sk, 'com) transaction_kernel \<Rightarrow> ('pk, 'sk, 'com) aggregate_body \<Rightarrow> ('pk, 'sk, 'com) aggregate_body" where
  "set_kernel k self = self\<lparr>body_kernels := [k]\<rparr>"

text \<open>The two loops over indices: adjacent elements, and all pairs.\<close>

fun adjacent_equal :: "('a \<Rightarrow> 'a \<Rightarrow> bool) \<Rightarrow> 'a list \<Rightarrow> bool" where
  "adjacent_equal eq (x # y # rest) = (eq y x \<or> adjacent_equal eq (y # rest))"
| "adjacent_equal eq [x] = False"
| "adjacent_equal eq [] = False"

fun pair_equal :: "('a \<Rightarrow> 'a \<Rightarrow> bool) \<Rightarrow> 'a list \<Rightarrow> bool" where
  "pair_equal eq [] = False"
| "pair_equal eq (x # rest) = (list_ex (eq x) rest \<or> pair_equal eq rest)"

definition contains_duplicated_inputs :: "('pk, 'sk, 'com) tx_crypto \<Rightarrow> ('pk, 'sk, 'com) aggregate_body \<Rightarrow> bool" where
  "contains_duplicated_inputs X self =
     (if body_sorted self then adjacent_equal (input_eq X) (body_inputs self)
      else pair_equal (input_eq X) (body_inputs self))"

definition contains_duplicated_outputs :: "('pk, 'sk, 'com) aggregate_body \<Rightarrow> bool" where
  "contains_duplicated_outputs self =
     (if body_sorted self then adjacent_equal (=) (body_outputs self) else pair_equal (=) (body_outputs self))"

definition body_sort :: "('pk, 'sk, 'com) tx_crypto \<Rightarrow> ('pk, 'sk, 'com) aggregate_body \<Rightarrow> ('pk, 'sk, 'com) aggregate_body" where
  "body_sort X self =
     (if body_sorted self then self
      else self\<lparr>body_inputs := sort_key (input_output_hash X) (body_inputs self),
                body_outputs := sort_key (\<lambda>out. com_key X (out_commitment out)) (body_outputs self),
                body_kernels := sort_key (\<lambda>k. sig_key X (ker_excess_sig k)) (body_kernels self),
                body_sorted := True\<rparr>)"

subsection \<open>Checks\<close>

fun check_each :: "('a \<Rightarrow> ('e, unit) outcome) \<Rightarrow> 'a list \<Rightarrow> ('e, unit) outcome" where
  "check_each f [] = Ok ()"
| "check_each f (x # xs) = and_then (f x) (\<lambda>_. check_each f xs)"

definition verify_kernel_signatures ::
  "('pk, 'sk, 'com) tx_crypto \<Rightarrow> ('pk, 'sk, 'com) aggregate_body \<Rightarrow> (transaction_error, unit) outcome" where
  "verify_kernel_signatures X self = check_each (kernel_verify_signature X) (body_kernels self)"

definition get_total_fee :: "('pk, 'sk, 'com) aggregate_body \<Rightarrow> ('e, micro_tari) outcome" where
  "get_total_fee self = sum_from 0 (map ker_fee (body_kernels self))"

definition check_kernel_rules :: "('pk, 'sk, 'com) aggregate_body \<Rightarrow> u64 \<Rightarrow> (transaction_error, unit) outcome" where
  "check_kernel_rules self height =
     check_each (\<lambda>k. if ker_lock_height k > height then Err InvalidKernel else Ok ()) (body_kernels self)"

text \<open>The loop over the outputs: the counter and the last coinbase output seen.\<close>

fun scan_coinbase_outputs ::
  "u64 \<Rightarrow> u64 \<Rightarrow> nat \<Rightarrow> ('pk, 'sk, 'com) transaction_output option \<Rightarrow> ('pk, 'sk, 'com) transaction_output list \<Rightarrow>
   (transaction_error, nat \<times> ('pk, 'sk, 'com) transaction_output option) outcome" where
  "scan_coinbase_outputs height lock n found [] = Ok (n, found)"
| "scan_coinbase_outputs height lock n found (utxo # rest) =
     (if output_type (out_features utxo) = Coinbase then
        and_then (add_u64 height lock) (\<lambda>least.
        if maturity (out_features utxo) < least then Err InvalidCoinbaseMaturity
        else scan_coinbase_outputs height lock (n + 1) (Some utxo) rest)
      else scan_coinbase_outputs height lock n found rest)"

fun scan_coinbase_kernels ::
  "nat \<Rightarrow> ('pk, 'sk, 'com) transaction_kernel option \<Rightarrow> ('pk, 'sk, 'com) transaction_kernel list \<Rightarrow>
   nat \<times> ('pk, 'sk, 'com) transaction_kernel option" where
  "scan_coinbase_kernels n found [] = (n, found)"
| "scan_coinbase_kernels n found (k # rest) =
     (if kernel_is_coinbase k then scan_coinbase_kernels (n + 1) (Some k) rest else scan_coinbase_kernels n found rest)"

definition check_coinbase_output ::
  "('pk, 'sk, 'com) tx_crypto \<Rightarrow> ('pk, 'sk, 'com) aggregate_body \<Rightarrow> micro_tari \<Rightarrow> u64 \<Rightarrow> u64 \<Rightarrow>
   (transaction_error, unit) outcome" where
  "check_coinbase_output X self reward coinbase_lock_height height =
     and_then (scan_coinbase_outputs height coinbase_lock_height 0 None (body_outputs self)) (\<lambda>(counter, coinbase_utxo).
     if counter > 1 then Err MoreThanOneCoinbase
     else if counter = 0 then Err NoCoinbase
     else (case scan_coinbase_kernels 0 None (body_kernels self) of (counter, coinbase_kernel) \<Rightarrow>
       if counter \<noteq> 1 then Err MoreThanOneCoinbase
       else (case (coinbase_utxo, coinbase_kernel) of
           (Some utxo, Some ker) \<Rightarrow>
             if com_add (crypto X) (ker_excess ker) (commit_value X (sk_default X) reward) \<noteq> out_commitment utxo
             then Err InvalidCoinbase else Ok ()
         | _ \<Rightarrow> Panic)))"

definition check_output_features ::
  "('pk, 'sk, 'com) aggregate_body \<Rightarrow> 32 word \<Rightarrow> (transaction_error, unit) outcome" where
  "check_output_features self max_coinbase_metadata_size =
     check_each (\<lambda>out.
       if \<not> output_is_coinbase out \<and> coinbase_extra (out_features out) \<noteq> [] then Err NonCoinbaseHasOutputFeaturesCoinbaseExtra
       else if output_is_coinbase out \<and> (of_nat (length (coinbase_extra (out_features out))) :: 32 word) > max_coinbase_metadata_size
       then Err (InvalidOutputFeaturesCoinbaseExtraSize (length (coinbase_extra (out_features out))) max_coinbase_metadata_size)
       else Ok ()) (body_outputs self)"

definition check_utxo_rules :: "('pk, 'sk, 'com) aggregate_body \<Rightarrow> u64 \<Rightarrow> (transaction_error, unit) outcome" where
  "check_utxo_rules self height =
     check_each (\<lambda>i. and_then (input_features i) (\<lambda>f. if maturity f > height then Err InputMaturity else Ok ()))
       (body_inputs self)"

subsection \<open>Maturity\<close>

definition maturity_or :: "u64 \<Rightarrow> ('pk, 'sk, 'com) transaction_input \<Rightarrow> u64" where
  "maturity_or missing i = (case input_features i of Ok f \<Rightarrow> maturity f | _ \<Rightarrow> missing)"

definition min_input_maturity :: "('pk, 'sk, 'com) aggregate_body \<Rightarrow> u64" where
  "min_input_maturity self = foldl (\<lambda>m i. min m (maturity_or (- 1) i)) (- 1) (body_inputs self)"

definition max_input_maturity :: "('pk, 'sk, 'com) aggregate_body \<Rightarrow> u64" where
  "max_input_maturity self = foldl (\<lambda>m i. max m (maturity_or 0 i)) 0 (body_inputs self)"

definition max_kernel_timelock :: "('pk, 'sk, 'com) aggregate_body \<Rightarrow> u64" where
  "max_kernel_timelock self = foldl (\<lambda>m k. max m (ker_lock_height k)) 0 (body_kernels self)"

definition min_spendable_height :: "('pk, 'sk, 'com) aggregate_body \<Rightarrow> u64" where
  "min_spendable_height self = max (max_kernel_timelock self) (max_input_maturity self)"

definition body_to_compact ::
  "('pk, 'sk, 'com) tx_crypto \<Rightarrow> ('pk, 'sk, 'com) aggregate_body \<Rightarrow> ('pk, 'sk, 'com) aggregate_body" where
  "body_to_compact X self =
     \<lparr>body_sorted = body_sorted self, body_inputs = map (input_to_compact X) (body_inputs self),
      body_outputs = body_outputs self, body_kernels = body_kernels self\<rparr>"

subsection \<open>Weight\<close>

definition get_features_and_scripts_size ::
  "('pk, 'sk, 'com) tx_crypto \<Rightarrow> ('pk, 'sk, 'com) transaction_output \<Rightarrow> (unit, u64) outcome" where
  "get_features_and_scripts_size X self =
     and_then (add_u64 (of_nat (length (features_serialize X (out_features self))))
       (of_nat (length (script_borsh_serialize (crypto X) (out_script self))))) (\<lambda>fs.
     and_then (unwrap (covenant_borsh_serialize X (out_covenant self))) (\<lambda>cov.
     add_u64 fs (of_nat (length cov))))"

fun sum_sizes :: "(('pk, 'sk, 'com) transaction_output \<Rightarrow> (unit, u64) outcome) \<Rightarrow> u64 \<Rightarrow>
  ('pk, 'sk, 'com) transaction_output list \<Rightarrow> (unit, u64) outcome" where
  "sum_sizes f acc [] = Ok acc"
| "sum_sizes f acc (out # rest) = and_then (f out) (\<lambda>s. and_then (add_u64 acc s) (\<lambda>acc. sum_sizes f acc rest))"

definition sum_features_and_scripts_size ::
  "('pk, 'sk, 'com) tx_crypto \<Rightarrow> ('pk, 'sk, 'com) aggregate_body \<Rightarrow> (unit, u64) outcome" where
  "sum_features_and_scripts_size X self = sum_sizes (get_features_and_scripts_size X) 0 (body_outputs self)"

definition calculate_normalised_total_features_and_scripts_size ::
  "('pk, 'sk, 'com) tx_crypto \<Rightarrow> weight_params \<Rightarrow> ('pk, 'sk, 'com) aggregate_body \<Rightarrow> (unit, u64) outcome" where
  "calculate_normalised_total_features_and_scripts_size X params body =
     sum_sizes (\<lambda>out. map_ok (round_up_features_and_scripts_size params) (get_features_and_scripts_size X out)) 0 (body_outputs body)"

definition calculate_body ::
  "('pk, 'sk, 'com) tx_crypto \<Rightarrow> weight_params \<Rightarrow> ('pk, 'sk, 'com) aggregate_body \<Rightarrow> (unit, u64) outcome" where
  "calculate_body X params body =
     and_then (calculate_normalised_total_features_and_scripts_size X params body) (\<lambda>sz.
     weight_calculate params (of_nat (length (body_kernels body))) (of_nat (length (body_inputs body)))
       (of_nat (length (body_outputs body))) sz)"

subsection \<open>Transactions\<close>

record ('pk, 'sk, 'com) transaction =
  tx_offset :: 'sk
  tx_body :: "('pk, 'sk, 'com) aggregate_body"
  tx_script_offset :: 'sk

definition transaction_new where
  "transaction_new inputs outputs kernels offset script_offset =
     \<lparr>tx_offset = offset, tx_body = body_new inputs outputs kernels, tx_script_offset = script_offset\<rparr>"

definition transaction_calculate_weight ::
  "('pk, 'sk, 'com) tx_crypto \<Rightarrow> weight_params \<Rightarrow> ('pk, 'sk, 'com) transaction \<Rightarrow> (unit, u64) outcome" where
  "transaction_calculate_weight X params self = calculate_body X params (tx_body self)"

definition transaction_min_spendable_height :: "('pk, 'sk, 'com) transaction \<Rightarrow> u64" where
  "transaction_min_spendable_height self = min_spendable_height (tx_body self)"

definition first_kernel_excess_sig :: "('pk, 'sk, 'com) transaction \<Rightarrow> ('pk, 'sk) schnorr option" where
  "first_kernel_excess_sig self =
     (case body_kernels (tx_body self) of [] \<Rightarrow> None | k # _ \<Rightarrow> Some (ker_excess_sig k))"

definition add_no_cut_through ::
  "('pk, 'sk, 'com) tx_crypto \<Rightarrow> ('pk, 'sk, 'com) transaction \<Rightarrow> ('pk, 'sk, 'com) transaction \<Rightarrow> ('pk, 'sk, 'com) transaction" where
  "add_no_cut_through X self other =
     self\<lparr>tx_offset := sk_add X (tx_offset self) (tx_offset other),
          tx_script_offset := sk_add X (tx_script_offset self) (tx_script_offset other),
          tx_body := add_kernels (body_kernels (tx_body other))
            (add_outputs (body_outputs (tx_body other)) (add_inputs (body_inputs (tx_body other)) (tx_body self)))\<rparr>"

lemmas body_ops = add_input_def add_inputs_def add_output_def add_outputs_def add_kernel_def add_kernels_def set_kernel_def
  add_no_cut_through_def body_new_def new_sorted_unchecked_def body_empty_def

subsection \<open>Loops\<close>

lemma check_each_eq_Ok: "check_each f xs = Ok u \<longleftrightarrow> (\<forall>x\<in>set xs. f x = Ok ())"
  by (induction xs) (auto simp: outcome_simps)

lemma foldl_max_le: "foldl (\<lambda>m i. max m (g i)) a xs \<le> (h :: u64) \<longleftrightarrow> a \<le> h \<and> (\<forall>x\<in>set xs. g x \<le> h)"
  by (induction xs arbitrary: a) auto

lemma scan_kernels: "scan_coinbase_kernels n found ks =
  (n + length (filter kernel_is_coinbase ks), (case rev (filter kernel_is_coinbase ks) of [] \<Rightarrow> found | k # _ \<Rightarrow> Some k))"
  by (induction ks arbitrary: n found) (auto split: list.splits)

lemma scan_outputs_eq_Ok:
  "scan_coinbase_outputs height lock n found outs = Ok (m, r) \<longleftrightarrow>
     (\<forall>out\<in>set (filter output_is_coinbase outs). \<exists>least. add_u64 height lock = (Ok least :: (transaction_error, u64) outcome) \<and>
        least \<le> maturity (out_features out)) \<and>
     m = n + length (filter output_is_coinbase outs) \<and>
     r = (case rev (filter output_is_coinbase outs) of [] \<Rightarrow> found | out # _ \<Rightarrow> Some out)"
  by (induction outs arbitrary: n found)
    (auto simp: output_is_coinbase_def outcome_simps not_less split: list.splits)

subsection \<open>Properties of bodies\<close>

text \<open>
  (C19) Coinbase check. \<open>check_coinbase_output\<close> accepts a body exactly when it has one coinbase output and one coinbase
  kernel, the lock height can be added to the height, the output does not mature before their sum, and its commitment
  is the kernel's excess plus a commitment to the reward.
\<close>

theorem check_coinbase_output_correct:
  "check_coinbase_output X body reward lock height = Ok () \<longleftrightarrow>
   (\<exists>utxo ker. filter output_is_coinbase (body_outputs body) = [utxo] \<and>
      filter kernel_is_coinbase (body_kernels body) = [ker] \<and>
      unat height + unat lock < 2 ^ 64 \<and> unat height + unat lock \<le> unat (maturity (out_features utxo)) \<and>
      out_commitment utxo = com_add (crypto X) (ker_excess ker) (commit_value X (sk_default X) reward))"
  (is "?l \<longleftrightarrow> ?r")
proof
  assume l: ?l
  then obtain n r where sc: "scan_coinbase_outputs height lock 0 None (body_outputs body) = Ok (n, r)" and n: "n = 1"
    by (auto simp: check_coinbase_output_def outcome_simps split: if_splits)
  note facts = scan_outputs_eq_Ok [THEN iffD1, OF sc]
  from facts n obtain utxo where u: "filter output_is_coinbase (body_outputs body) = [utxo]"
    by (auto simp: length_Suc_conv dest!: sym [of "Suc 0"])
  with facts have "\<exists>least. add_u64 height lock = (Ok least :: (transaction_error, u64) outcome) \<and> least \<le> maturity (out_features utxo)"
    by (simp only: list.set ball_simps)
  then obtain least where
    least: "add_u64 height lock = (Ok least :: (transaction_error, u64) outcome)" "least \<le> maturity (out_features utxo)" by blast
  have scan: "scan_coinbase_outputs height lock 0 None (body_outputs body) = Ok (1, Some utxo)"
    using u least by (auto simp: scan_outputs_eq_Ok)
  from l scan obtain ker where "filter kernel_is_coinbase (body_kernels body) = [ker]"
    "com_add (crypto X) (ker_excess ker) (commit_value X (sk_default X) reward) = out_commitment utxo"
    by (auto simp: check_coinbase_output_def scan_kernels length_Suc_conv split: if_splits)
  with u least unat_less_u64 [of least] show ?r
    by (auto simp: u64_simps word_le_nat_alt)
next
  assume ?r
  then obtain utxo ker where r: "filter output_is_coinbase (body_outputs body) = [utxo]"
      "filter kernel_is_coinbase (body_kernels body) = [ker]"
      "unat height + unat lock < 2 ^ 64" "unat height + unat lock \<le> unat (maturity (out_features utxo))"
      "out_commitment utxo = com_add (crypto X) (ker_excess ker) (commit_value X (sk_default X) reward)" by blast
  from add_u64_ok [OF r(3)] obtain least where
    "add_u64 height lock = (Ok least :: (transaction_error, u64) outcome)" "unat least = unat height + unat lock" by blast
  then have "scan_coinbase_outputs height lock 0 None (body_outputs body) = Ok (1, Some utxo)"
    using r(1,4) by (auto simp: scan_outputs_eq_Ok word_le_nat_alt)
  then show ?l
    using r(2,5) by (simp add: check_coinbase_output_def scan_kernels)
qed

lemma maturity_rule:
  "\<not> input_is_compact i \<Longrightarrow>
   and_then (input_features i) (\<lambda>f. if maturity f > height then Err InputMaturity else Ok ()) = Ok () \<longleftrightarrow> maturity_or 0 i \<le> height"
  by (cases "in_spent_output i") (auto simp: input_is_compact_def input_features_def maturity_or_def)


text \<open>
  (C23) After \<open>sort\<close>, a kernel pushed by \<open>add_kernel\<close> leaves the body marked as sorted, and sorting again has no effect:
  the kernels are then in order only if the new kernel happens to belong at the end.
\<close>

theorem sort_after_add_kernel:
  "let before = body_sort X (body_new inputs outputs kernels);
       after = body_sort X (add_kernel k before);
       key = (\<lambda>k. sig_key X (ker_excess_sig k))
   in body_sorted after \<and> body_kernels after = body_kernels before @ [k] \<and>
      (sorted (map key (body_kernels after)) \<longleftrightarrow> (\<forall>k' \<in> set kernels. key k' \<le> key k))"
  by (auto simp: body_sort_def body_ops sorted_append)

subsection \<open>Duplicates\<close>

lemma adjacent_equal_sorted:
  assumes "sorted (map f xs)" and "\<forall>x\<in>set xs. \<forall>y\<in>set xs. eq x y \<longleftrightarrow> f x = f y"
  shows "adjacent_equal eq xs \<longleftrightarrow> \<not> distinct (map f xs)"
  using assms
proof (induction eq xs rule: adjacent_equal.induct)
  case (1 eq x y rest)
  have "f x \<in> f ` set rest \<Longrightarrow> f x = f y" using "1.prems"(1) by (auto intro: order_antisym)
  with 1 show ?case by auto
qed simp_all

lemma pair_equal_distinct:
  assumes "\<forall>x\<in>set xs. \<forall>y\<in>set xs. eq x y \<longleftrightarrow> f x = f y"
  shows "pair_equal eq xs \<longleftrightarrow> \<not> distinct (map f xs)"
  using assms by (induction xs) (auto simp: list_ex_iff image_iff)

lemma input_eq_hash: "input_eq X i j \<Longrightarrow> input_output_hash X i = input_output_hash X j"
  by (simp add: input_eq_def)

text \<open>
  When inputs that spend the same output are equal, the linear duplicate check of a sorted body and the quadratic
  check of an unsorted one agree, and both detect exactly that some output is spent twice.
\<close>

theorem duplicated_inputs_agree:
  assumes "\<forall>i\<in>set inputs. \<forall>j\<in>set inputs. input_output_hash X i = input_output_hash X j \<longrightarrow> input_eq X i j"
  shows "contains_duplicated_inputs X (body_sort X (body_new inputs outputs kernels)) =
      contains_duplicated_inputs X (body_new inputs outputs kernels) \<and>
    contains_duplicated_inputs X (body_new inputs outputs kernels) = (\<not> distinct (map (input_output_hash X) inputs))"
proof -
  have eq: "\<forall>i\<in>set inputs. \<forall>j\<in>set inputs. input_eq X i j \<longleftrightarrow> input_output_hash X i = input_output_hash X j"
    using assms input_eq_hash by blast
  have "mset (map (input_output_hash X) (sort_key (input_output_hash X) inputs)) = mset (map (input_output_hash X) inputs)"
    by simp
  then have "distinct (map (input_output_hash X) (sort_key (input_output_hash X) inputs)) = distinct (map (input_output_hash X) inputs)"
    by (rule mset_eq_imp_distinct_iff)
  then show ?thesis
    using adjacent_equal_sorted [of "input_output_hash X" "sort_key (input_output_hash X) inputs" "input_eq X"]
      pair_equal_distinct [OF eq] eq
    by (simp add: contains_duplicated_inputs_def body_sort_def body_ops)
qed

text \<open>
  (C22) Two inputs that spend the same output with different script signatures or input data hide a duplicate from the
  check of a sorted body: the unsorted body with the inputs \<open>i, j, i\<close> is reported, the sorted one is not.
\<close>

theorem sorted_duplicates_missed:
  assumes "input_output_hash X i = input_output_hash X j" and "\<not> input_eq X i j"
  shows "contains_duplicated_inputs X (body_new [i, j, i] outputs kernels) \<and>
    \<not> contains_duplicated_inputs X (body_sort X (body_new [i, j, i] outputs kernels))"
proof -
  have "\<not> input_eq X j i" using assms(2) by (auto simp: input_eq_def)
  moreover have "input_eq X i i" by (simp add: input_eq_def)
  moreover have "sort_key (input_output_hash X) [i, j, i] = [i, j, i]" using assms(1) by simp
  ultimately show ?thesis
    using assms(2) by (simp add: contains_duplicated_inputs_def body_sort_def body_ops)
qed

subsection \<open>Weight of a body\<close>

text \<open>
  Bodies far below the width of the machine: every output's features, script and covenant serialise to less than
  \<open>2 ^ 32\<close> bytes, and there are fewer than \<open>2 ^ 20\<close> inputs, outputs and kernels.
\<close>

definition output_size :: "('pk, 'sk, 'com) tx_crypto \<Rightarrow> ('pk, 'sk, 'com) transaction_output \<Rightarrow> nat" where
  "output_size X out = (case get_features_and_scripts_size X out of Ok s \<Rightarrow> unat s | _ \<Rightarrow> 0)"

definition body_small :: "('pk, 'sk, 'com) tx_crypto \<Rightarrow> ('pk, 'sk, 'com) aggregate_body \<Rightarrow> bool" where
  "body_small X body \<longleftrightarrow> length (body_inputs body) < 2 ^ 20 \<and> length (body_outputs body) < 2 ^ 20 \<and>
     length (body_kernels body) < 2 ^ 20 \<and>
     list_all (\<lambda>out. (\<exists>s. get_features_and_scripts_size X out = Ok s) \<and> output_size X out < 2 ^ 32) (body_outputs body)"

definition body_weight_v1 :: "('pk, 'sk, 'com) tx_crypto \<Rightarrow> ('pk, 'sk, 'com) aggregate_body \<Rightarrow> nat" where
  "body_weight_v1 X body = 10 * length (body_kernels body) + 8 * length (body_inputs body) +
     (\<Sum>out\<leftarrow>body_outputs body. 53 + (output_size X out + 15) div 16)"

lemma round_up_16: "16 * ((n + 15) div 16) = (if n mod 16 = 0 then n else n + (16 - n mod 16))" for n :: nat
proof -
  define q r where "q = n div 16" and "r = n mod 16"
  have n: "n = 16 * q + r" and r: "r < 16" by (simp_all add: q_def r_def)
  have "(n + 15) div 16 = q + (r + 15) div 16" unfolding n by simp
  moreover have "(r + 15) div 16 = (if r = 0 then 0 else 1)" using r by auto
  ultimately show ?thesis using n r unfolding r_def [symmetric] by simp
qed

lemma round_up_v1:
  assumes "unat s < 2 ^ 32"
  shows "unat (round_up_features_and_scripts_size weight_params_v1 s) = 16 * ((unat s + 15) div 16)"
proof -
  define r where "r = s mod 16"
  have r: "unat r = unat s mod 16" by (simp add: r_def unat_mod)
  show ?thesis
  proof (cases "r = 0")
    case True
    then have "unat s mod 16 = 0" using r by simp
    moreover have "round_up_features_and_scripts_size weight_params_v1 s = s"
      using True by (simp add: round_up_features_and_scripts_size_def weight_params_v1_def r_def)
    ultimately show ?thesis by (simp add: round_up_16)
  next
    case False
    then have nz: "unat s mod 16 \<noteq> 0" using r by (metis unat_eq_zero)
    have "r \<le> 16" using r by (simp add: word_le_nat_alt)
    then have d: "unat (16 - r) = 16 - unat s mod 16" using r by (simp add: unat_sub)
    define c where "c = (of_nat (unat s + (16 - unat s mod 16)) :: u64)"
    have c: "unat c = unat s + (16 - unat s mod 16)" using assms unfolding c_def by (subst unat_of_nat) simp
    then have "checked_add_u64 s (16 - r) = Some c" by (simp add: checked_add_u64_Some d)
    then have "unat (round_up_features_and_scripts_size weight_params_v1 s) = unat s + (16 - unat s mod 16)"
      using False c
      by (simp add: round_up_features_and_scripts_size_def weight_params_v1_def r_def [symmetric] Let_def)
    with nz show ?thesis by (simp add: round_up_16)
  qed
qed

lemma sum_sizes_bounded:
  assumes "\<forall>out\<in>set outs. \<exists>s. f out = Ok s \<and> unat s = g out" and "unat acc + sum_list (map g outs) < 2 ^ 64"
  shows "\<exists>t. sum_sizes f acc outs = Ok t \<and> unat t = unat acc + sum_list (map g outs)"
  using assms
proof (induction outs arbitrary: acc)
  case (Cons out rest)
  then obtain s where s: "f out = Ok s" "unat s = g out" by auto
  with Cons.prems(2) have "unat acc + unat s < 2 ^ 64" by simp
  from add_u64_ok [OF this, where ?'a = unit] obtain acc' where "add_u64 acc s = (Ok acc' :: (unit, u64) outcome)" "unat acc' = unat acc + unat s"
    by blast
  with Cons.IH [of acc'] Cons.prems s show ?case by (simp add: add.assoc)
qed simp

lemma calculate_body_v1:
  assumes "body_small X body"
  shows "\<exists>w. calculate_body X weight_params_v1 body = Ok w \<and> unat w = body_weight_v1 X body"
proof -
  let ?outs = "body_outputs body" and ?g = "\<lambda>out. 16 * ((output_size X out + 15) div 16)"
  have rounded: "\<forall>out\<in>set ?outs. \<exists>s. map_ok (round_up_features_and_scripts_size weight_params_v1) (get_features_and_scripts_size X out) = Ok s
      \<and> unat s = ?g out"
    using assms by (fastforce simp: body_small_def list_all_iff output_size_def round_up_v1)
  have lens: "length (body_inputs body) < 2 ^ 20" "length ?outs < 2 ^ 20" "length (body_kernels body) < 2 ^ 20"
    and small: "\<forall>out\<in>set ?outs. ?g out \<le> 2 ^ 33"
    using assms by (auto simp: body_small_def list_all_iff)
  have "sum_list (map ?g ?outs) \<le> sum_list (map (\<lambda>_. 2 ^ 33) ?outs)"
    using small by (intro sum_list_mono) auto
  then have total: "sum_list (map ?g ?outs) < 2 ^ 53"
    using lens(2) by (simp add: sum_list_triv)
  then obtain sz where sz: "calculate_normalised_total_features_and_scripts_size X weight_params_v1 body = Ok sz"
      "unat sz = sum_list (map ?g ?outs)"
    using sum_sizes_bounded [OF rounded, of 0] by (auto simp: calculate_normalised_total_features_and_scripts_size_def)
  have g: "sum_list (map ?g outs) div 16 = (\<Sum>out\<leftarrow>outs. (output_size X out + 15) div 16)" for outs
    by (induction outs) simp_all
  define w where "w = (of_nat (body_weight_v1 X body) :: u64)"
  have spec: "weight_spec weight_params_v1 (length (body_kernels body)) (length (body_inputs body)) (length ?outs) (unat sz) =
      body_weight_v1 X body"
    by (simp add: weight_spec_def weight_params_v1_def sz(2) g body_weight_v1_def sum_list_addf sum_list_triv)
  have "weight_spec weight_params_v1 (length (body_kernels body)) (length (body_inputs body)) (length ?outs) (unat sz) < 2 ^ 64"
    using lens total sz(2) by (simp add: weight_spec_def weight_params_v1_def)
  then have "unat w = body_weight_v1 X body" unfolding w_def spec by (subst unat_of_nat) simp
  moreover have "weight_calculate weight_params_v1 (of_nat (length (body_kernels body))) (of_nat (length (body_inputs body)))
      (of_nat (length ?outs)) sz = (Ok w :: (unit, u64) outcome)"
    using lens spec calculation by (simp add: weight_calculate_eq_Ok unat_of_nat)
  ultimately show ?thesis by (simp add: calculate_body_def sz(1))
qed

text \<open>
  (C21) Weight of transactions. With the version 1 parameters the weight of a body is 10 grams for each kernel, 8 for each
  input, and for each output 53 plus one for every started 16 bytes of features, script and covenant; so aggregating
  two transactions adds their weights exactly, without rounding loss.
\<close>

theorem transaction_weight_additive:
  assumes "body_small X (tx_body a)" and "body_small X (tx_body b)"
    and "body_small X (tx_body (add_no_cut_through X a b))"
  shows "\<exists>w v. transaction_calculate_weight X weight_params_v1 a = Ok w \<and> transaction_calculate_weight X weight_params_v1 b = Ok v \<and>
    transaction_calculate_weight X weight_params_v1 (add_no_cut_through X a b) = Ok (w + v) \<and>
    unat w = body_weight_v1 X (tx_body a) \<and> unat (w + v) = unat w + unat v"
proof -
  obtain w v u where w: "calculate_body X weight_params_v1 (tx_body a) = Ok w" "unat w = body_weight_v1 X (tx_body a)"
    and v: "calculate_body X weight_params_v1 (tx_body b) = Ok v" "unat v = body_weight_v1 X (tx_body b)"
    and u: "calculate_body X weight_params_v1 (tx_body (add_no_cut_through X a b)) = Ok u"
      "unat u = body_weight_v1 X (tx_body (add_no_cut_through X a b))"
    using assms [THEN calculate_body_v1] by blast
  have sum: "unat u = unat w + unat v" by (simp add: u(2) v(2) w(2) body_weight_v1_def body_ops)
  then have "unat (w + v) = unat w + unat v" using unat_less_u64 [of u] by (simp add: unat_word_ariths)
  moreover from this sum have "u = w + v" by (simp add: word_unat_eq_iff)
  ultimately show ?thesis using u(1) v(1) w by (simp add: transaction_calculate_weight_def)
qed

subsection \<open>Witnesses\<close>

definition sample_kernel :: "u8 \<Rightarrow> u64 \<Rightarrow> (u8, u8, u8) transaction_kernel" where
  "sample_kernel s h = \<lparr>ker_version = KernelV0, ker_features = 0, ker_fee = 5, ker_lock_height = h, ker_excess = s,
     ker_excess_sig = (s, s), ker_burn_commitment = None\<rparr>"

definition sample_transaction :: "u8 \<Rightarrow> (u8, u8, u8) transaction" where
  "sample_transaction c = transaction_new [sample_input] [sample_output c 42] [sample_kernel c 7] 1 2"


lemma sample_kernel_key: "sig_key sample_tx (ker_excess_sig (sample_kernel s h)) = [s, s]"
  by (simp add: sample_kernel_def sample_tx_def)

theorem sort_after_add_kernel_witness:
  "\<not> sorted (map (\<lambda>k. sig_key sample_tx (ker_excess_sig k))
     (body_kernels (body_sort sample_tx (add_kernel (sample_kernel 3 0) (body_sort sample_tx (body_new [] [] [sample_kernel 5 0]))))))"
  using sort_after_add_kernel [of sample_tx "[]" "[]" "[sample_kernel 5 0]" "sample_kernel 3 0"]
  unfolding Let_def by (auto simp: sample_kernel_key)

theorem duplicated_inputs_agree_witness:
  "contains_duplicated_inputs sample_tx (body_sort sample_tx (body_new [sample_input, sample_input] [] []))"
  using duplicated_inputs_agree [of "[sample_input, sample_input]" sample_tx "[]" "[]"]
  by (simp add: input_eq_def)

theorem sorted_duplicates_missed_witness:
  "\<exists>i j. contains_duplicated_inputs sample_tx (body_new [i, j, i] [] []) \<and>
     \<not> contains_duplicated_inputs sample_tx (body_sort sample_tx (body_new [i, j, i] [] []))"
  using sorted_duplicates_missed [of sample_tx sample_input "sample_input\<lparr>in_script_signature := (1, 0, 0, 0, 0)\<rparr>" "[]" "[]"]
  by (auto simp: input_eq_def input_output_hash_def sample_input_def)

lemma sample_size: "get_features_and_scripts_size sample_tx (sample_output c m) = Ok 26"
  by (simp add: get_features_and_scripts_size_def sample_tx_def sample_output_def output_features_default_def
      covenant_borsh_serialize_def covenant_to_bytes_def script_borsh_serialize_def sample_crypto_def script_to_bytes_def Let_def
      add_u64_def checked_add_u64_def u64_of_nat_def)

theorem transaction_weight_additive_witness:
  "\<exists>w v. transaction_calculate_weight sample_tx weight_params_v1 (sample_transaction 1) = Ok w \<and> unat w = 73 \<and>
     transaction_calculate_weight sample_tx weight_params_v1 (add_no_cut_through sample_tx (sample_transaction 1) (sample_transaction 2)) =
       Ok (w + v)"
proof -
  have small: "body_small sample_tx (tx_body (sample_transaction 1))" "body_small sample_tx (tx_body (sample_transaction 2))"
    "body_small sample_tx (tx_body (add_no_cut_through sample_tx (sample_transaction 1) (sample_transaction 2)))"
    by (simp_all add: body_small_def sample_transaction_def transaction_new_def body_ops sample_size output_size_def)
  have "body_weight_v1 sample_tx (tx_body (sample_transaction 1)) = 73"
    by (simp add: body_weight_v1_def sample_transaction_def transaction_new_def body_ops sample_size output_size_def)
  with transaction_weight_additive [OF small] show ?thesis by auto
qed

end
