(* ===== verification/Pool_Index.thy ===== *)
theory Pool_Index
  imports Prelude "HOL-Library.AList"
begin

text \<open>
  The indexes of the memory pools: a \<open>HashMap\<close> from a key to the vector of the identifiers of the transactions that
  carry the key, as \<open>txs_by_signature\<close> and \<open>txs_by_output\<close> of the unconfirmed pool and \<open>txs_by_signature\<close> and
  \<open>txs_by_height\<close> of the reorg pool. A \<open>HashMap\<close> is an association list with distinct keys.

  The locale \<open>multi_index\<close> is what the pools rely on; \<open>tracks\<close>, proved in it, says that an index agrees with the
  transactions: it holds every identifier under every key exactly as often as the transaction has the key.
\<close>

type_synonym ('k, 'v) index = "('k \<times> 'v list) list"

definition idx_get :: "('k, 'v) index \<Rightarrow> 'k \<Rightarrow> 'v list" where
  "idx_get idx k = (case map_of idx k of None \<Rightarrow> [] | Some vs \<Rightarrow> vs)"

definition idx_contains :: "('k, 'v) index \<Rightarrow> 'k \<Rightarrow> bool" where
  "idx_contains idx k \<longleftrightarrow> map_of idx k \<noteq> None"

text \<open>\<open>entry(k).or_default().push(v)\<close>\<close>

definition idx_push :: "'k \<Rightarrow> 'v \<Rightarrow> ('k, 'v) index \<Rightarrow> ('k, 'v) index" where
  "idx_push k v idx = AList.update k (idx_get idx k @ [v]) idx"

text \<open>
  The removal of one identifier: the entry, if there is one, loses the first position that holds the identifier, and
  is removed when it becomes empty. The variants differ in what they panic on.
\<close>

definition idx_remove :: "'k \<Rightarrow> 'v \<Rightarrow> ('k, 'v) index \<Rightarrow> ('k, 'v) index" where
  "idx_remove k v idx = (case map_of idx k of
     None \<Rightarrow> idx
   | Some vs \<Rightarrow> (let vs' = remove1 v vs in if vs' = [] then AList.delete k idx else AList.update k vs' idx))"

definition idx_remove_expect :: "'k \<Rightarrow> 'v \<Rightarrow> ('k, 'v) index \<Rightarrow> ('e, ('k, 'v) index) outcome" where
  "idx_remove_expect k v idx = (case map_of idx k of
     None \<Rightarrow> Ok idx
   | Some vs \<Rightarrow> if v \<in> set vs then Ok (idx_remove k v idx) else Panic)"

definition idx_remove_strict :: "'k \<Rightarrow> 'v \<Rightarrow> ('k, 'v) index \<Rightarrow> ('e, ('k, 'v) index) outcome" where
  "idx_remove_strict k v idx = (case map_of idx k of
     None \<Rightarrow> Panic
   | Some vs \<Rightarrow> if v \<in> set vs then Ok (idx_remove k v idx) else Panic)"

fun idx_push_all :: "'k list \<Rightarrow> 'v \<Rightarrow> ('k, 'v) index \<Rightarrow> ('k, 'v) index" where
  "idx_push_all [] v idx = idx"
| "idx_push_all (k # ks) v idx = idx_push_all ks v (idx_push k v idx)"

fun idx_remove_all :: "'k list \<Rightarrow> 'v \<Rightarrow> ('k, 'v) index \<Rightarrow> ('k, 'v) index" where
  "idx_remove_all [] v idx = idx"
| "idx_remove_all (k # ks) v idx = idx_remove_all ks v (idx_remove k v idx)"

fun idx_try_all ::
  "('k \<Rightarrow> 'v \<Rightarrow> ('k, 'v) index \<Rightarrow> ('e, ('k, 'v) index) outcome) \<Rightarrow> 'k list \<Rightarrow> 'v \<Rightarrow> ('k, 'v) index \<Rightarrow>
   ('e, ('k, 'v) index) outcome" where
  "idx_try_all f [] v idx = Ok idx"
| "idx_try_all f (k # ks) v idx = and_then (f k v idx) (\<lambda>idx. idx_try_all f ks v idx)"

subsection \<open>The contract of an index\<close>

locale multi_index =
  fixes get :: "'m \<Rightarrow> 'k \<Rightarrow> 'v list"
    and push :: "'k \<Rightarrow> 'v \<Rightarrow> 'm \<Rightarrow> 'm"
    and remove :: "'k \<Rightarrow> 'v \<Rightarrow> 'm \<Rightarrow> 'm"
  assumes get_push: "get (push k v m) k' = (if k' = k then get m k @ [v] else get m k')"
    and get_remove: "get (remove k v m) k' = (if k' = k then remove1 v (get m k) else get m k')"
begin

fun push_list :: "'k list \<Rightarrow> 'v \<Rightarrow> 'm \<Rightarrow> 'm" where
  "push_list [] v m = m"
| "push_list (k # ks) v m = push_list ks v (push k v m)"

fun remove_list :: "'k list \<Rightarrow> 'v \<Rightarrow> 'm \<Rightarrow> 'm" where
  "remove_list [] v m = m"
| "remove_list (k # ks) v m = remove_list ks v (remove k v m)"

definition tracks :: "'m \<Rightarrow> ('v \<Rightarrow> 'k list) \<Rightarrow> bool" where
  "tracks m keys \<longleftrightarrow> (\<forall>k v. count_list (get m k) v = count_list (keys v) k)"

lemma count_push_list:
  "count_list (get (push_list ks v m) k) u = count_list (get m k) u + (if u = v then count_list ks k else 0)"
  by (induction ks arbitrary: m) (auto simp: get_push)

lemma count_remove_list:
  "count_list (get (remove_list ks v m) k) u = count_list (get m k) u - (if u = v then count_list ks k else 0)"
proof (induction ks arbitrary: m)
  case (Cons a ks)
  have "count_list (remove1 v xs) u = count_list xs u - (if u = v then 1 else 0)" for xs
    by (induction xs) auto
  with Cons show ?case by (auto simp: get_remove)
qed simp

lemma tracks_push_list:
  assumes "tracks m keys" and "keys v = []"
  shows "tracks (push_list ks v m) (keys(v := ks))"
  using assms by (auto simp: tracks_def count_push_list)

lemma tracks_remove_list:
  assumes "tracks m keys"
  shows "tracks (remove_list (keys v) v m) (keys(v := []))"
  using assms by (auto simp: tracks_def count_remove_list)

lemma tracks_member:
  assumes "tracks m keys"
  shows "v \<in> set (get m k) \<longleftrightarrow> k \<in> set (keys v)"
  using assms unfolding tracks_def by (metis count_list_0_iff)

end

subsection \<open>Association lists implement the contract\<close>

definition idx_wf :: "('k, 'v) index \<Rightarrow> bool" where
  "idx_wf idx \<longleftrightarrow> distinct (map fst idx) \<and> [] \<notin> snd ` set idx"

lemma idx_get_push: "idx_get (idx_push k v idx) k' = (if k' = k then idx_get idx k @ [v] else idx_get idx k')"
  by (simp add: idx_get_def idx_push_def update_conv')

lemma idx_get_remove: "idx_get (idx_remove k v idx) k' = (if k' = k then remove1 v (idx_get idx k) else idx_get idx k')"
  by (auto simp: idx_get_def idx_remove_def update_conv' delete_conv' Let_def split: option.splits)

interpretation mi: multi_index idx_get idx_push idx_remove
  by unfold_locales (rule idx_get_push idx_get_remove)+

lemma idx_all_lists: "idx_push_all ks v idx = mi.push_list ks v idx" "idx_remove_all ks v idx = mi.remove_list ks v idx"
  by (induction ks arbitrary: idx) simp_all

lemma idx_wf_empty: "idx_wf []"
  by (simp add: idx_wf_def)

lemma snd_update: "snd ` set (AList.update k v al) \<subseteq> insert v (snd ` set al)"
  by (induction al) auto

lemma idx_wf_push: "idx_wf idx \<Longrightarrow> idx_wf (idx_push k v idx)"
  using snd_update [of k "idx_get idx k @ [v]" idx]
  by (auto simp: idx_wf_def idx_push_def distinct_update)

lemma idx_wf_remove:
  assumes "idx_wf idx"
  shows "idx_wf (idx_remove k v idx)"
proof (cases "map_of idx k")
  case (Some vs)
  have "idx_wf (AList.delete k idx)"
    using assms distinct_delete [of idx k] by (auto simp: idx_wf_def) (auto simp: AList.delete_eq image_iff)
  moreover have "idx_wf (AList.update k vs' idx)" if "vs' \<noteq> []" for vs'
    using assms that snd_update [of k vs' idx] by (auto simp: idx_wf_def distinct_update)
  ultimately show ?thesis using Some by (simp add: idx_remove_def Let_def)
qed (use assms in \<open>simp add: idx_remove_def\<close>)

lemma idx_wf_push_all: "idx_wf idx \<Longrightarrow> idx_wf (idx_push_all ks v idx)"
  by (induction ks arbitrary: idx) (auto simp: idx_wf_push)

lemma idx_wf_remove_all: "idx_wf idx \<Longrightarrow> idx_wf (idx_remove_all ks v idx)"
  by (induction ks arbitrary: idx) (auto simp: idx_wf_remove)

lemma idx_contains_get: "idx_wf idx \<Longrightarrow> idx_contains idx k \<longleftrightarrow> idx_get idx k \<noteq> []"
  by (auto simp: idx_wf_def idx_contains_def idx_get_def split: option.splits dest!: map_of_SomeD) (metis image_eqI snd_conv)

text \<open>
  The removals that panic do not panic on an index that holds the identifier under each of its keys often enough, and
  then agree with the removal that never panics.
\<close>

lemma idx_try_all_ok:
  assumes "f = idx_remove_expect \<or> f = idx_remove_strict" and "\<forall>k. count_list ks k \<le> count_list (idx_get idx k) v"
  shows "idx_try_all f ks v idx = Ok (idx_remove_all ks v idx)"
  using assms(2)
proof (induction ks arbitrary: idx)
  case (Cons k ks)
  have "v \<in> set (idx_get idx k)" using Cons.prems [rule_format, of k] count_notin [of v "idx_get idx k"] by fastforce
  then obtain vs where "map_of idx k = Some vs" "v \<in> set vs" by (cases "map_of idx k") (auto simp: idx_get_def)
  then have step: "f k v idx = Ok (idx_remove k v idx)"
    using assms(1) by (auto simp: idx_remove_expect_def idx_remove_strict_def)
  have "count_list (remove1 v xs) v = count_list xs v - 1" for xs :: "'b list" by (induction xs) auto
  then have "\<forall>k'. count_list ks k' \<le> count_list (idx_get (idx_remove k v idx) k') v"
    using Cons.prems by (auto simp: idx_get_remove split: if_splits)
  with Cons.IH step show ?case by simp
qed simp

end
