(* ===== verification/Unconfirmed_Pool.thy ===== *)
theory Unconfirmed_Pool
  imports Aggregate_Body Pool_Index
begin

text \<open>
  The pool of unconfirmed transactions: \<open>priority/prioritized_transaction.rs\<close> and
  \<open>unconfirmed_pool/unconfirmed_pool.rs\<close> under \<open>src/base_layer/core/src/mempool/\<close>.

  A \<open>HashMap\<close> is an association list with distinct keys, a \<open>BTreeMap\<close> one in ascending order of its keys; a set of
  identifiers collected from a \<open>HashSet\<close> is a list without repetitions, in an order the source leaves open.
  \<open>fee_rate\<close> stands for the computation of the fee per gram in floating point,
  \<open>((fee as f64 / weight as f64) * 1000.0) as u64\<close>, and \<open>now\<close> for the seconds since the epoch. The map
  \<open>txs_by_unique_id\<close> is never written and is left out.

  \<open>get_all_dependent_transactions\<close> recurses along dependencies between transactions and need not return; it takes fuel,
  and \<open>None\<close> is the result when the fuel does not suffice.
\<close>

subsection \<open>Prioritised transactions\<close>

record ('pk, 'sk, 'com) prioritized_transaction =
  ptx_key :: nat
  ptx_transaction :: "('pk, 'sk, 'com) transaction"
  ptx_priority :: bytes
  ptx_weight :: u64
  ptx_dependent_output_hashes :: "bytes list"

definition be_bytes_64 :: "u64 \<Rightarrow> bytes" where
  "be_bytes_64 v = rev (le_bytes_64 v)"

definition fee_priority_new ::
  "('pk, 'sk, 'com) tx_crypto \<Rightarrow> (u64 \<Rightarrow> u64 \<Rightarrow> u64) \<Rightarrow> ('pk, 'sk, 'com) transaction \<Rightarrow> u64 \<Rightarrow> u64 \<Rightarrow> (unit, bytes) outcome" where
  "fee_priority_new X fee_rate tx insert_epoch weight =
     and_then (get_total_fee (tx_body tx)) (\<lambda>fee.
     let (agg_sig, agg_nonce) =
           foldl (\<lambda>(agg_sk, agg_nonce) k. (sk_add X agg_sk (snd (ker_excess_sig k)),
               pk_add (crypto X) agg_nonce (fst (ker_excess_sig k))))
             (sk_default X, pk_default (crypto X)) (body_kernels (tx_body tx))
     in Ok (be_bytes_64 (fee_rate fee weight) @ be_bytes_64 (- 1 - insert_epoch) @
         sk_as_bytes (crypto X) agg_sig @ pk_as_bytes (crypto X) agg_nonce))"

definition prioritized_new ::
  "('pk, 'sk, 'com) tx_crypto \<Rightarrow> (u64 \<Rightarrow> u64 \<Rightarrow> u64) \<Rightarrow> u64 \<Rightarrow> nat \<Rightarrow> weight_params \<Rightarrow> ('pk, 'sk, 'com) transaction \<Rightarrow>
   bytes list option \<Rightarrow> (unit, ('pk, 'sk, 'com) prioritized_transaction) outcome" where
  "prioritized_new X fee_rate now key weighting tx dependent_outputs =
     and_then (transaction_calculate_weight X weighting tx) (\<lambda>weight.
     and_then (fee_priority_new X fee_rate tx now weight) (\<lambda>priority.
     Ok \<lparr>ptx_key = key, ptx_transaction = tx, ptx_priority = priority, ptx_weight = weight,
         ptx_dependent_output_hashes = (case dependent_outputs of None \<Rightarrow> [] | Some ds \<Rightarrow> ds)\<rparr>))"

subsection \<open>The pool\<close>

record ('pk, 'sk, 'com) unconfirmed_pool =
  up_storage_capacity :: nat
  up_weight_tx_skip_count :: nat
  up_key_counter :: nat
  up_tx_by_key :: "(nat \<times> ('pk, 'sk, 'com) prioritized_transaction) list"
  up_txs_by_signature :: "('sk, nat) index"
  up_tx_by_priority :: "(bytes \<times> nat) list"
  up_txs_by_output :: "(bytes, nat) index"

datatype unconfirmed_pool_error = StorageOutofSync

definition up_new :: "nat \<Rightarrow> nat \<Rightarrow> ('pk, 'sk, 'com) unconfirmed_pool" where
  "up_new storage_capacity weight_tx_skip_count =
     \<lparr>up_storage_capacity = storage_capacity, up_weight_tx_skip_count = weight_tx_skip_count, up_key_counter = 0,
      up_tx_by_key = [], up_txs_by_signature = [], up_tx_by_priority = [], up_txs_by_output = []\<rparr>"

definition tx_signatures :: "('pk, 'sk, 'com) transaction \<Rightarrow> 'sk list" where
  "tx_signatures tx = map (\<lambda>k. snd (ker_excess_sig k)) (body_kernels (tx_body tx))"

definition tx_output_hashes :: "('pk, 'sk, 'com) tx_crypto \<Rightarrow> ('pk, 'sk, 'com) transaction \<Rightarrow> bytes list" where
  "tx_output_hashes X tx = map (output_hash_of X) (body_outputs (tx_body tx))"

definition tx_input_hashes :: "('pk, 'sk, 'com) tx_crypto \<Rightarrow> ('pk, 'sk, 'com) transaction \<Rightarrow> bytes list" where
  "tx_input_hashes X tx = map (input_output_hash X) (body_inputs (tx_body tx))"

text \<open>\<open>BTreeMap::insert\<close>, which overwrites the value of an equal key; \<open>usize::MAX\<close> is \<open>2 ^ 64 - 1\<close>.\<close>

fun btree_insert :: "'k :: linorder \<Rightarrow> 'v \<Rightarrow> ('k \<times> 'v) list \<Rightarrow> ('k \<times> 'v) list" where
  "btree_insert k v [] = [(k, v)]"
| "btree_insert k v ((k', v') # rest) =
     (if k < k' then (k, v) # (k', v') # rest else if k = k' then (k, v) # rest else (k', v') # btree_insert k v rest)"

definition up_get_next_key :: "('pk, 'sk, 'com) unconfirmed_pool \<Rightarrow> nat \<times> ('pk, 'sk, 'com) unconfirmed_pool" where
  "up_get_next_key self =
     (up_key_counter self, self\<lparr>up_key_counter := (up_key_counter self + 1) mod (2 ^ 64 - 1)\<rparr>)"

definition remove_transaction ::
  "('pk, 'sk, 'com) tx_crypto \<Rightarrow> nat \<Rightarrow> ('pk, 'sk, 'com) unconfirmed_pool \<Rightarrow>
   (unit, ('pk, 'sk, 'com) unconfirmed_pool \<times> ('pk, 'sk, 'com) transaction option) outcome" where
  "remove_transaction X tx_key self =
     (case map_of (up_tx_by_key self) tx_key of
        None \<Rightarrow> Ok (self, None)
      | Some ptx \<Rightarrow>
          and_then (idx_try_all idx_remove_expect (tx_signatures (ptx_transaction ptx)) tx_key (up_txs_by_signature self)) (\<lambda>sigs.
          Ok (self\<lparr>up_tx_by_key := AList.delete tx_key (up_tx_by_key self),
                   up_tx_by_priority := AList.delete (ptx_priority ptx) (up_tx_by_priority self),
                   up_txs_by_signature := sigs,
                   up_txs_by_output := idx_remove_all (tx_output_hashes X (ptx_transaction ptx)) tx_key (up_txs_by_output self)\<rparr>,
              Some (ptx_transaction ptx))))"

definition remove_lowest_priority_tx ::
  "('pk, 'sk, 'com) tx_crypto \<Rightarrow> ('pk, 'sk, 'com) unconfirmed_pool \<Rightarrow> (unit, ('pk, 'sk, 'com) unconfirmed_pool) outcome" where
  "remove_lowest_priority_tx X self =
     (case up_tx_by_priority self of
        [] \<Rightarrow> Ok self
      | (_, tx_key) # _ \<Rightarrow> map_ok fst (remove_transaction X tx_key self))"

definition lowest_priority :: "('pk, 'sk, 'com) unconfirmed_pool \<Rightarrow> (unit, bytes) outcome" where
  "lowest_priority self = (case up_tx_by_priority self of [] \<Rightarrow> Panic | (p, _) # _ \<Rightarrow> Ok p)"

definition store_prioritized ::
  "('pk, 'sk, 'com) tx_crypto \<Rightarrow> nat \<Rightarrow> ('pk, 'sk, 'com) prioritized_transaction \<Rightarrow> ('pk, 'sk, 'com) unconfirmed_pool \<Rightarrow>
   ('pk, 'sk, 'com) unconfirmed_pool" where
  "store_prioritized X new_key ptx self =
     self\<lparr>up_tx_by_priority := btree_insert (ptx_priority ptx) new_key (up_tx_by_priority self),
          up_txs_by_output := idx_push_all (tx_output_hashes X (ptx_transaction ptx)) new_key (up_txs_by_output self),
          up_txs_by_signature := idx_push_all (tx_signatures (ptx_transaction ptx)) new_key (up_txs_by_signature self),
          up_tx_by_key := AList.update new_key ptx (up_tx_by_key self)\<rparr>"

definition up_insert ::
  "('pk, 'sk, 'com) tx_crypto \<Rightarrow> (u64 \<Rightarrow> u64 \<Rightarrow> u64) \<Rightarrow> u64 \<Rightarrow> ('pk, 'sk, 'com) transaction \<Rightarrow> bytes list option \<Rightarrow>
   weight_params \<Rightarrow> ('pk, 'sk, 'com) unconfirmed_pool \<Rightarrow> (unit, ('pk, 'sk, 'com) unconfirmed_pool) outcome" where
  "up_insert X fee_rate now tx dependent_outputs weighting self =
     (if list_all (idx_contains (up_txs_by_signature self)) (tx_signatures tx) then Ok self
      else (case up_get_next_key self of (new_key, self) \<Rightarrow>
        and_then (prioritized_new X fee_rate now new_key weighting tx dependent_outputs) (\<lambda>ptx.
        if length (up_tx_by_key self) \<ge> up_storage_capacity self then
          and_then (lowest_priority self) (\<lambda>lowest.
          if ptx_priority ptx < lowest then Ok self
          else map_ok (store_prioritized X new_key ptx) (remove_lowest_priority_tx X self))
        else Ok (store_prioritized X new_key ptx self))))"

definition contains_all_outputs :: "bytes list \<Rightarrow> ('pk, 'sk, 'com) unconfirmed_pool \<Rightarrow> bool" where
  "contains_all_outputs outputs self \<longleftrightarrow> list_all (idx_contains (up_txs_by_output self)) outputs"

definition up_has_tx_with_excess_sig :: "('pk, 'sk) schnorr \<Rightarrow> ('pk, 'sk, 'com) unconfirmed_pool \<Rightarrow> bool" where
  "up_has_tx_with_excess_sig excess_sig self \<longleftrightarrow> idx_contains (up_txs_by_signature self) (snd excess_sig)"

definition up_len :: "('pk, 'sk, 'com) unconfirmed_pool \<Rightarrow> nat" where
  "up_len self = length (up_txs_by_signature self)"

definition up_snapshot :: "('pk, 'sk, 'com) unconfirmed_pool \<Rightarrow> ('pk, 'sk, 'com) transaction list" where
  "up_snapshot self = map (\<lambda>(_, ptx). ptx_transaction ptx) (up_tx_by_key self)"

definition drain_all_mempool_transactions ::
  "('pk, 'sk, 'com) unconfirmed_pool \<Rightarrow> ('pk, 'sk, 'com) unconfirmed_pool \<times> ('pk, 'sk, 'com) transaction list" where
  "drain_all_mempool_transactions self =
     (self\<lparr>up_txs_by_signature := [], up_tx_by_priority := [], up_txs_by_output := [], up_tx_by_key := []\<rparr>,
      up_snapshot self)"

fun remove_transactions ::
  "('pk, 'sk, 'com) tx_crypto \<Rightarrow> nat list \<Rightarrow> ('pk, 'sk, 'com) unconfirmed_pool \<Rightarrow>
   (unit, ('pk, 'sk, 'com) unconfirmed_pool \<times> ('pk, 'sk, 'com) transaction list) outcome" where
  "remove_transactions X [] self = Ok (self, [])"
| "remove_transactions X (key # keys) self =
     and_then (remove_transaction X key self) (\<lambda>(self, tx).
     map_ok (\<lambda>(self, txs). (self, case tx of None \<Rightarrow> txs | Some tx \<Rightarrow> tx # txs)) (remove_transactions X keys self))"

definition find_matching_block_input ::
  "('pk, 'sk, 'com) tx_crypto \<Rightarrow> ('pk, 'sk, 'com) prioritized_transaction \<Rightarrow> bytes list \<Rightarrow> bool" where
  "find_matching_block_input X ptx block_hashes \<longleftrightarrow>
     list_ex (\<lambda>h. h \<in> set block_hashes) (tx_input_hashes X (ptx_transaction ptx))"

definition remove_published_and_discard_deprecated_transactions ::
  "('pk, 'sk, 'com) tx_crypto \<Rightarrow> ('pk, 'sk, 'com) aggregate_body \<Rightarrow> ('pk, 'sk, 'com) unconfirmed_pool \<Rightarrow>
   (unit, ('pk, 'sk, 'com) unconfirmed_pool \<times> ('pk, 'sk, 'com) transaction list) outcome" where
  "remove_published_and_discard_deprecated_transactions X block_body self =
     (let to_remove = concat (map (\<lambda>k. idx_get (up_txs_by_signature self) (snd (ker_excess_sig k))) (body_kernels block_body))
      in and_then (remove_transactions X to_remove self) (\<lambda>(self, removed_kernels).
     let block_hashes = map (input_output_hash X) (body_inputs block_body);
         to_remove = map fst (filter (\<lambda>(_, ptx). find_matching_block_input X ptx block_hashes) (up_tx_by_key self))
      in and_then (remove_transactions X to_remove self) (\<lambda>(self, removed_inputs).
     let to_remove = concat (map (\<lambda>out. idx_get (up_txs_by_output self) (output_hash_of X out)) (body_outputs block_body))
      in and_then (remove_transactions X to_remove self) (\<lambda>(self, removed_outputs).
     Ok (self, removed_kernels @ removed_inputs @ removed_outputs)))))"

fun lookup_all :: "(nat \<times> 'a) list \<Rightarrow> nat list \<Rightarrow> ('e, 'a list) outcome" where
  "lookup_all al [] = Ok []"
| "lookup_all al (key # keys) =
     (case map_of al key of None \<Rightarrow> Panic | Some tx \<Rightarrow> map_ok (Cons tx) (lookup_all al keys))"

definition up_retrieve_by_excess_sigs ::
  "'sk list \<Rightarrow> ('pk, 'sk, 'com) unconfirmed_pool \<Rightarrow> (unit, ('pk, 'sk, 'com) transaction list \<times> 'sk list) outcome" where
  "up_retrieve_by_excess_sigs excess_sigs self =
     (let found = remdups (concat (map (idx_get (up_txs_by_signature self)) excess_sigs));
          remaining = filter (\<lambda>sig. \<not> idx_contains (up_txs_by_signature self) sig) excess_sigs
      in map_ok (\<lambda>found. (map ptx_transaction found, remaining)) (lookup_all (up_tx_by_key self) found))"

subsection \<open>The invariant\<close>

definition keys_of ::
  "(('pk, 'sk, 'com) transaction \<Rightarrow> 'k list) \<Rightarrow> (nat \<times> ('pk, 'sk, 'com) prioritized_transaction) list \<Rightarrow> nat \<Rightarrow> 'k list" where
  "keys_of f txs key = (case map_of txs key of None \<Rightarrow> [] | Some ptx \<Rightarrow> f (ptx_transaction ptx))"

definition prio_entry :: "nat \<times> ('pk, 'sk, 'com) prioritized_transaction \<Rightarrow> bytes \<times> nat" where
  "prio_entry e = (ptx_priority (snd e), fst e)"

definition up_wf :: "('pk, 'sk, 'com) tx_crypto \<Rightarrow> ('pk, 'sk, 'com) unconfirmed_pool \<Rightarrow> bool" where
  "up_wf X pool \<longleftrightarrow>
     distinct (map fst (up_tx_by_key pool)) \<and>
     (\<forall>e \<in> set (up_tx_by_key pool). ptx_key (snd e) = fst e \<and> fst e < up_key_counter pool) \<and>
     sorted_wrt (<) (map fst (up_tx_by_priority pool)) \<and>
     set (up_tx_by_priority pool) = prio_entry ` set (up_tx_by_key pool) \<and>
     idx_wf (up_txs_by_signature pool) \<and> idx_wf (up_txs_by_output pool) \<and>
     mi.tracks (up_txs_by_signature pool) (keys_of tx_signatures (up_tx_by_key pool)) \<and>
     mi.tracks (up_txs_by_output pool) (keys_of (tx_output_hashes X) (up_tx_by_key pool)) \<and>
     length (up_tx_by_key pool) \<le> up_storage_capacity pool"

lemma keys_of_delete: "keys_of f (AList.delete k txs) = (keys_of f txs)(k := [])"
  by (auto simp: keys_of_def delete_conv')

lemma keys_of_update: "keys_of f (AList.update k ptx txs) = (keys_of f txs)(k := f (ptx_transaction ptx))"
  by (auto simp: keys_of_def update_conv')

lemma btree_insert_fresh:
  assumes "k \<notin> fst ` set m" and "sorted_wrt (<) (map fst m)"
  shows "set (btree_insert k v m) = insert (k, v) (set m) \<and> sorted_wrt (<) (map fst (btree_insert k v m))"
  using assms by (induction k v m rule: btree_insert.induct) (auto simp: not_less order_less_le)

lemma delete_filter: "AList.delete k xs = filter (\<lambda>e. fst e \<noteq> k) xs"
  by (auto simp: AList.delete_eq intro!: filter_cong)

lemma update_fresh: "k \<notin> fst ` set xs \<Longrightarrow> AList.update k v xs = xs @ [(k, v)]"
  by (induction xs) auto

lemma delete_priority:
  assumes "distinct (map fst txs)" and "sorted_wrt (<) (map fst prio)" and "set prio = prio_entry ` set txs"
    and "(k, p) \<in> set txs"
  shows "set (AList.delete (ptx_priority p) prio) = prio_entry ` set (AList.delete k txs)"
proof -
  have inj: "ptx_priority (snd e) = ptx_priority p \<longleftrightarrow> e = (k, p)" if "e \<in> set txs" for e
  proof
    assume eq: "ptx_priority (snd e) = ptx_priority p"
    have "distinct (map fst prio)" using assms(2) strict_sorted_iff by blast
    moreover have "prio_entry e \<in> set prio" "prio_entry (k, p) \<in> set prio" using assms(3,4) that by auto
    ultimately have "fst e = k" using eq by (auto simp: prio_entry_def eq_key_imp_eq_value)
    with assms(1,4) that show "e = (k, p)" by (metis eq_key_imp_eq_value prod.collapse)
  qed simp
  have "{e \<in> set txs. fst e \<noteq> k} = {e \<in> set txs. ptx_priority (snd e) \<noteq> ptx_priority p}"
    using inj assms(1,4) by (metis (no_types, lifting) eq_key_imp_eq_value fst_conv prod.collapse)
  then show ?thesis using assms(3) by (auto simp: delete_filter prio_entry_def)
qed

lemma remove_transaction_ok:
  assumes "up_wf X pool"
  shows "\<exists>pool'. remove_transaction X k pool = Ok (pool', map_option ptx_transaction (map_of (up_tx_by_key pool) k)) \<and>
    up_wf X pool' \<and> up_tx_by_key pool' = AList.delete k (up_tx_by_key pool) \<and>
    up_storage_capacity pool' = up_storage_capacity pool \<and> up_key_counter pool' = up_key_counter pool"
proof (cases "map_of (up_tx_by_key pool) k")
  case None
  then have "AList.delete k (up_tx_by_key pool) = up_tx_by_key pool" by (simp add: map_of_eq_None_iff)
  with None assms show ?thesis by (simp add: remove_transaction_def)
next
  case (Some p)
  let ?sigs = "tx_signatures (ptx_transaction p)" and ?outs = "tx_output_hashes X (ptx_transaction p)"
  have keys: "keys_of tx_signatures (up_tx_by_key pool) k = ?sigs" "keys_of (tx_output_hashes X) (up_tx_by_key pool) k = ?outs"
    using Some by (simp_all add: keys_of_def)
  have tr: "mi.tracks (up_txs_by_signature pool) (keys_of tx_signatures (up_tx_by_key pool))"
    "mi.tracks (up_txs_by_output pool) (keys_of (tx_output_hashes X) (up_tx_by_key pool))"
    using assms by (simp_all add: up_wf_def)
  have "\<forall>s. count_list ?sigs s \<le> count_list (idx_get (up_txs_by_signature pool) s) k"
    using tr(1) keys(1) by (simp add: mi.tracks_def)
  then have step: "idx_try_all idx_remove_expect ?sigs k (up_txs_by_signature pool) =
      (Ok (idx_remove_all ?sigs k (up_txs_by_signature pool)) :: (unit, _) outcome)"
    by (intro idx_try_all_ok) simp_all
  have kp: "(k, p) \<in> set (up_tx_by_key pool)" using Some by (rule map_of_SomeD)
  have len: "length (AList.delete k (up_tx_by_key pool)) \<le> up_storage_capacity pool"
    using assms length_delete_le [of k "up_tx_by_key pool"] by (simp add: up_wf_def)
  have prio: "set (AList.delete (ptx_priority p) (up_tx_by_priority pool)) = prio_entry ` set (AList.delete k (up_tx_by_key pool))"
    "sorted_wrt (<) (map fst (AList.delete (ptx_priority p) (up_tx_by_priority pool)))"
    using delete_priority [OF _ _ _ kp] assms by (auto simp: up_wf_def delete_filter sorted_wrt_map intro: sorted_wrt_filter)
  have idx: "mi.tracks (idx_remove_all ?sigs k (up_txs_by_signature pool)) (keys_of tx_signatures (AList.delete k (up_tx_by_key pool)))"
    "mi.tracks (idx_remove_all ?outs k (up_txs_by_output pool)) (keys_of (tx_output_hashes X) (AList.delete k (up_tx_by_key pool)))"
    using mi.tracks_remove_list [OF tr(1), of k] mi.tracks_remove_list [OF tr(2), of k] keys
    by (simp_all add: idx_all_lists keys_of_delete)
  show ?thesis
    using assms prio idx len
    by (simp add: remove_transaction_def Some step up_wf_def idx_wf_remove_all distinct_delete)
      (simp add: delete_filter)
qed

lemma remove_transactions_ok:
  assumes "up_wf X pool"
  shows "\<exists>pool' txs. remove_transactions X keys pool = Ok (pool', txs) \<and> up_wf X pool' \<and>
    up_tx_by_key pool' = filter (\<lambda>e. fst e \<notin> set keys) (up_tx_by_key pool) \<and>
    set txs = (\<lambda>e. ptx_transaction (snd e)) ` {e \<in> set (up_tx_by_key pool). fst e \<in> set keys} \<and>
    up_storage_capacity pool' = up_storage_capacity pool \<and> up_key_counter pool' = up_key_counter pool"
  using assms
proof (induction keys arbitrary: pool)
  case (Cons k keys)
  from remove_transaction_ok [OF Cons.prems, of k] obtain pool1 where
    one: "remove_transaction X k pool = Ok (pool1, map_option ptx_transaction (map_of (up_tx_by_key pool) k))"
      "up_wf X pool1" "up_tx_by_key pool1 = AList.delete k (up_tx_by_key pool)"
      "up_storage_capacity pool1 = up_storage_capacity pool" "up_key_counter pool1 = up_key_counter pool" by blast
  from Cons.IH [OF one(2)] obtain pool' txs where
    rest: "remove_transactions X keys pool1 = Ok (pool', txs)" "up_wf X pool'"
      "up_tx_by_key pool' = filter (\<lambda>e. fst e \<notin> set keys) (up_tx_by_key pool1)"
      "set txs = (\<lambda>e. ptx_transaction (snd e)) ` {e \<in> set (up_tx_by_key pool1). fst e \<in> set keys}"
      "up_storage_capacity pool' = up_storage_capacity pool1" "up_key_counter pool' = up_key_counter pool1" by blast
  have d: "distinct (map fst (up_tx_by_key pool))" using Cons.prems by (simp add: up_wf_def)
  have txs: "set (case map_option ptx_transaction (map_of (up_tx_by_key pool) k) of None \<Rightarrow> txs | Some tx \<Rightarrow> tx # txs) =
      (\<lambda>e. ptx_transaction (snd e)) ` {e \<in> set (up_tx_by_key pool). fst e \<in> set (k # keys)}"
  proof (cases "map_of (up_tx_by_key pool) k")
    case None
    then have "k \<notin> fst ` set (up_tx_by_key pool)" by (simp add: map_of_eq_None_iff)
    then show ?thesis using None rest(4) one(3) by (auto simp: delete_filter image_iff)
  next
    case (Some p)
    then have "{e \<in> set (up_tx_by_key pool). fst e \<in> set (k # keys)} =
        insert (k, p) {e \<in> set (up_tx_by_key pool). fst e \<noteq> k \<and> fst e \<in> set keys}"
      using d by (auto dest: map_of_SomeD simp: eq_key_imp_eq_value)
    then show ?thesis using Some rest(4) one(3) by (auto simp: delete_filter)
  qed
  show ?case
    using one rest txs by (auto simp: delete_filter intro!: filter_cong)
qed auto

abbreviation contents :: "('pk, 'sk, 'com) unconfirmed_pool \<Rightarrow> ('pk, 'sk, 'com) prioritized_transaction set" where
  "contents pool \<equiv> snd ` set (up_tx_by_key pool)"

lemma signature_index:
  assumes "up_wf X pool"
  shows "k \<in> set (idx_get (up_txs_by_signature pool) sig) \<longleftrightarrow>
    (\<exists>p. (k, p) \<in> set (up_tx_by_key pool) \<and> sig \<in> set (tx_signatures (ptx_transaction p)))"
proof -
  have "distinct (map fst (up_tx_by_key pool))" using assms by (simp add: up_wf_def)
  with assms show ?thesis
    by (auto simp: up_wf_def mi.tracks_member keys_of_def split: option.splits dest: map_of_SomeD)
qed

lemma output_index:
  assumes "up_wf X pool"
  shows "k \<in> set (idx_get (up_txs_by_output pool) out) \<longleftrightarrow>
    (\<exists>p. (k, p) \<in> set (up_tx_by_key pool) \<and> out \<in> set (tx_output_hashes X (ptx_transaction p)))"
proof -
  have "distinct (map fst (up_tx_by_key pool))" using assms by (simp add: up_wf_def)
  with assms show ?thesis
    by (auto simp: up_wf_def mi.tracks_member keys_of_def split: option.splits dest: map_of_SomeD)
qed

lemma index_entry:
  assumes "up_wf X pool" and "(k, p) \<in> set (up_tx_by_key pool)"
  shows "k \<in> set (idx_get (up_txs_by_signature pool) sig) \<longleftrightarrow> sig \<in> set (tx_signatures (ptx_transaction p))"
    and "k \<in> set (idx_get (up_txs_by_output pool) out) \<longleftrightarrow> out \<in> set (tx_output_hashes X (ptx_transaction p))"
proof -
  have "q = p" if "(k, q) \<in> set (up_tx_by_key pool)" for q
    using assms that by (auto simp: up_wf_def dest: eq_key_imp_eq_value)
  then show "k \<in> set (idx_get (up_txs_by_signature pool) sig) \<longleftrightarrow> sig \<in> set (tx_signatures (ptx_transaction p))"
    "k \<in> set (idx_get (up_txs_by_output pool) out) \<longleftrightarrow> out \<in> set (tx_output_hashes X (ptx_transaction p))"
    using assms(2) unfolding signature_index [OF assms(1)] output_index [OF assms(1)] by blast+
qed

lemma contains_signature:
  assumes "up_wf X pool"
  shows "idx_contains (up_txs_by_signature pool) sig \<longleftrightarrow> (\<exists>p \<in> contents pool. sig \<in> set (tx_signatures (ptx_transaction p)))"
proof -
  have "idx_contains (up_txs_by_signature pool) sig \<longleftrightarrow> (\<exists>k. k \<in> set (idx_get (up_txs_by_signature pool) sig))"
    using assms by (auto simp: up_wf_def idx_contains_get) (metis list.set_intros(1) neq_Nil_conv)
  then show ?thesis by (force simp: signature_index [OF assms])
qed

lemma filter_keys:
  assumes "distinct (map fst al)" and "e \<in> set al"
  shows "fst e \<in> set (map fst (filter P al)) \<longleftrightarrow> P e"
  using assms by (cases e) (auto dest: eq_key_imp_eq_value intro!: image_eqI [of _ fst e])

lemma remove_matching:
  assumes "up_wf X pool" and "\<forall>e \<in> set (up_tx_by_key pool). fst e \<in> set keys \<longleftrightarrow> P (snd e)"
  shows "\<exists>pool' txs. remove_transactions X keys pool = Ok (pool', txs) \<and> up_wf X pool' \<and>
    up_tx_by_key pool' = filter (\<lambda>e. \<not> P (snd e)) (up_tx_by_key pool) \<and>
    set txs = (\<lambda>e. ptx_transaction (snd e)) ` {e \<in> set (up_tx_by_key pool). P (snd e)}"
proof -
  have "filter (\<lambda>e. fst e \<notin> set keys) (up_tx_by_key pool) = filter (\<lambda>e. \<not> P (snd e)) (up_tx_by_key pool)"
    "{e \<in> set (up_tx_by_key pool). fst e \<in> set keys} = {e \<in> set (up_tx_by_key pool). P (snd e)}"
    using assms(2) by (auto intro!: filter_cong)
  with remove_transactions_ok [OF assms(1), of keys] show ?thesis by auto
qed

text \<open>
  A pool transaction conflicts with a block when they share a kernel signature, the block spends an input of the
  transaction, or the block creates an output of it.
\<close>

definition conflicts ::
  "('pk, 'sk, 'com) tx_crypto \<Rightarrow> ('pk, 'sk, 'com) aggregate_body \<Rightarrow> ('pk, 'sk, 'com) prioritized_transaction \<Rightarrow> bool" where
  "conflicts X block ptx \<longleftrightarrow>
     (\<exists>k \<in> set (body_kernels block). snd (ker_excess_sig k) \<in> set (tx_signatures (ptx_transaction ptx))) \<or>
     (\<exists>i \<in> set (body_inputs block). input_output_hash X i \<in> set (tx_input_hashes X (ptx_transaction ptx))) \<or>
     (\<exists>out \<in> set (body_outputs block). output_hash_of X out \<in> set (tx_output_hashes X (ptx_transaction ptx)))"

text \<open>
  (C25) Publishing a block. On a consistent pool \<open>remove_published_and_discard_deprecated_transactions\<close> does not panic,
  keeps the pool consistent, removes exactly the transactions that conflict with the block, and returns them.
\<close>

theorem remove_published_exact:
  assumes "up_wf X pool"
  shows "\<exists>pool' txs. remove_published_and_discard_deprecated_transactions X block pool = Ok (pool', txs) \<and> up_wf X pool' \<and>
    contents pool' = {p \<in> contents pool. \<not> conflicts X block p} \<and>
    set txs = ptx_transaction ` {p \<in> contents pool. conflicts X block p}"
proof -
  let ?K = "\<lambda>p. \<exists>k \<in> set (body_kernels block). snd (ker_excess_sig k) \<in> set (tx_signatures (ptx_transaction p))"
  let ?I = "\<lambda>p. \<exists>i \<in> set (body_inputs block). input_output_hash X i \<in> set (tx_input_hashes X (ptx_transaction p))"
  let ?O = "\<lambda>p. \<exists>out \<in> set (body_outputs block). output_hash_of X out \<in> set (tx_output_hashes X (ptx_transaction p))"
  define k1 where "k1 = concat (map (\<lambda>k. idx_get (up_txs_by_signature pool) (snd (ker_excess_sig k))) (body_kernels block))"
  have "\<forall>e \<in> set (up_tx_by_key pool). fst e \<in> set k1 \<longleftrightarrow> ?K (snd e)"
    by (auto simp: k1_def index_entry [OF assms])
  from remove_matching [OF assms, of k1 ?K, OF this] obtain p1 t1 where
    r1: "remove_transactions X k1 pool = Ok (p1, t1)" "up_wf X p1"
      "up_tx_by_key p1 = filter (\<lambda>e. \<not> ?K (snd e)) (up_tx_by_key pool)"
      "set t1 = (\<lambda>e. ptx_transaction (snd e)) ` {e \<in> set (up_tx_by_key pool). ?K (snd e)}" by blast
  define k2 where "k2 = map fst (filter (\<lambda>(_, ptx). find_matching_block_input X ptx (map (input_output_hash X) (body_inputs block))) (up_tx_by_key p1))"
  have "\<forall>e \<in> set (up_tx_by_key p1). fst e \<in> set k2 \<longleftrightarrow> ?I (snd e)"
    using r1(2) unfolding k2_def up_wf_def
    by (auto simp only: filter_keys) (auto simp: find_matching_block_input_def list_ex_iff)
  from remove_matching [OF r1(2), of k2 ?I, OF this] obtain p2 t2 where
    r2: "remove_transactions X k2 p1 = Ok (p2, t2)" "up_wf X p2"
      "up_tx_by_key p2 = filter (\<lambda>e. \<not> ?I (snd e)) (up_tx_by_key p1)"
      "set t2 = (\<lambda>e. ptx_transaction (snd e)) ` {e \<in> set (up_tx_by_key p1). ?I (snd e)}" by blast
  define k3 where "k3 = concat (map (\<lambda>out. idx_get (up_txs_by_output p2) (output_hash_of X out)) (body_outputs block))"
  have "\<forall>e \<in> set (up_tx_by_key p2). fst e \<in> set k3 \<longleftrightarrow> ?O (snd e)"
    by (auto simp: k3_def index_entry [OF r2(2)])
  from remove_matching [OF r2(2), of k3 ?O, OF this] obtain p3 t3 where
    r3: "remove_transactions X k3 p2 = Ok (p3, t3)" "up_wf X p3"
      "up_tx_by_key p3 = filter (\<lambda>e. \<not> ?O (snd e)) (up_tx_by_key p2)"
      "set t3 = (\<lambda>e. ptx_transaction (snd e)) ` {e \<in> set (up_tx_by_key p2). ?O (snd e)}" by blast
  have c: "conflicts X block p \<longleftrightarrow> ?K p \<or> ?I p \<or> ?O p" for p by (simp add: conflicts_def)
  have run: "remove_published_and_discard_deprecated_transactions X block pool = Ok (p3, t1 @ t2 @ t3)"
    using r1(1) r2(1) r3(1)
    by (simp add: remove_published_and_discard_deprecated_transactions_def Let_def k1_def k2_def k3_def)
  have "contents p3 = {p \<in> contents pool. \<not> conflicts X block p}"
    unfolding r3(3) r2(3) r1(3) c by auto
  moreover have "set (t1 @ t2 @ t3) = (\<lambda>e. ptx_transaction (snd e)) ` {e \<in> set (up_tx_by_key pool). conflicts X block (snd e)}"
    unfolding set_append r1(4) r2(4) r3(4) r2(3) r1(3) c image_Un [symmetric] by (rule arg_cong [of _ _ "image _"]) auto
  then have "set (t1 @ t2 @ t3) = ptx_transaction ` {p \<in> contents pool. conflicts X block p}" by force
  ultimately show ?thesis using run r3(2) by blast
qed

text \<open>
  The empty pool is consistent.
\<close>

lemma up_wf_new: "up_wf X (up_new capacity skip)"
  by (simp add: up_wf_def up_new_def idx_wf_empty mi.tracks_def keys_of_def idx_get_def)

lemma store_prioritized_ok:
  assumes "up_wf X pool" and "k < up_key_counter pool" and "k \<notin> fst ` set (up_tx_by_key pool)" and "ptx_key ptx = k"
    and "ptx_priority ptx \<notin> ptx_priority ` contents pool" and "length (up_tx_by_key pool) < up_storage_capacity pool"
  shows "up_wf X (store_prioritized X k ptx pool) \<and> contents (store_prioritized X k ptx pool) = insert ptx (contents pool)"
proof -
  have "ptx_priority ptx \<notin> fst ` set (up_tx_by_priority pool)"
    using assms(1,5) by (auto simp: up_wf_def prio_entry_def image_iff)
  then have prio: "set (btree_insert (ptx_priority ptx) k (up_tx_by_priority pool)) = insert (ptx_priority ptx, k) (set (up_tx_by_priority pool))"
    "sorted_wrt (<) (map fst (btree_insert (ptx_priority ptx) k (up_tx_by_priority pool)))"
    using btree_insert_fresh [of "ptx_priority ptx" "up_tx_by_priority pool" k] assms(1) by (auto simp: up_wf_def)
  have nonek: "keys_of tx_signatures (up_tx_by_key pool) k = []" "keys_of (tx_output_hashes X) (up_tx_by_key pool) k = []"
    using assms(3) by (simp_all add: keys_of_def map_of_eq_None_iff [symmetric])
  have tr: "mi.tracks (idx_push_all (tx_signatures (ptx_transaction ptx)) k (up_txs_by_signature pool))
      (keys_of tx_signatures (AList.update k ptx (up_tx_by_key pool)))"
    "mi.tracks (idx_push_all (tx_output_hashes X (ptx_transaction ptx)) k (up_txs_by_output pool))
      (keys_of (tx_output_hashes X) (AList.update k ptx (up_tx_by_key pool)))"
    using assms(1) nonek by (auto simp: up_wf_def idx_all_lists keys_of_update intro!: mi.tracks_push_list)
  show ?thesis
    using assms prio tr
    by (simp add: store_prioritized_def up_wf_def idx_wf_push_all update_fresh prio_entry_def)
qed

lemma contents_card:
  assumes "up_wf X pool"
  shows "card (contents pool) = length (up_tx_by_key pool)" "finite (contents pool)"
proof -
  have "inj_on snd (set (up_tx_by_key pool))"
    using assms unfolding up_wf_def inj_on_def by (metis prod.collapse)
  moreover have "distinct (up_tx_by_key pool)" using assms by (auto simp: up_wf_def distinct_map)
  ultimately show "card (contents pool) = length (up_tx_by_key pool)" by (simp add: card_image distinct_card)
qed simp

lemma prio_member:
  assumes "up_wf X pool" and "(k, p) \<in> set (up_tx_by_key pool)"
  shows "(ptx_priority p, k) \<in> set (up_tx_by_priority pool)"
proof -
  have "set (up_tx_by_priority pool) = prio_entry ` set (up_tx_by_key pool)" using assms(1) by (simp add: up_wf_def)
  with imageI [OF assms(2), of prio_entry] show ?thesis by (simp add: prio_entry_def)
qed

lemma priority_unique:
  assumes "up_wf X pool" and "(k, p) \<in> set (up_tx_by_key pool)" and "(j, q) \<in> set (up_tx_by_key pool)"
    and "ptx_priority p = ptx_priority q"
  shows "j = k \<and> q = p"
proof -
  have "distinct (map fst (up_tx_by_priority pool))" using assms(1) strict_sorted_iff unfolding up_wf_def by blast
  moreover have "(ptx_priority p, k) \<in> set (up_tx_by_priority pool)" "(ptx_priority p, j) \<in> set (up_tx_by_priority pool)"
    using prio_member [OF assms(1,2)] prio_member [OF assms(1,3)] assms(4) by simp_all
  ultimately have "j = k" by (auto dest: eq_key_imp_eq_value)
  with assms(1-3) show ?thesis by (auto simp: up_wf_def dest: eq_key_imp_eq_value)
qed

lemma key_unique:
  assumes "up_wf X pool" and "(k, p) \<in> set (up_tx_by_key pool)" and "(k, q) \<in> set (up_tx_by_key pool)"
  shows "q = p"
  using assms by (auto simp: up_wf_def dest: eq_key_imp_eq_value)

lemma lowest_entry:
  assumes "up_wf X pool" and "up_tx_by_key pool \<noteq> []"
  obtains k p rest where "up_tx_by_priority pool = (ptx_priority p, k) # rest" "(k, p) \<in> set (up_tx_by_key pool)"
    "ptx_priority p = Min (ptx_priority ` contents pool)"
proof (cases "up_tx_by_priority pool")
  case Nil
  with assms show ?thesis by (simp add: up_wf_def)
next
  case (Cons e rest)
  then have "e \<in> prio_entry ` set (up_tx_by_key pool)" using assms(1) by (auto simp: up_wf_def)
  then obtain k p where kp: "e = (ptx_priority p, k)" "(k, p) \<in> set (up_tx_by_key pool)" by (auto simp: prio_entry_def)
  have "ptx_priority p \<le> ptx_priority q" if q: "(j, q) \<in> set (up_tx_by_key pool)" for j q
  proof -
    have "(ptx_priority q, j) \<in> set (up_tx_by_priority pool)" by (rule prio_member [OF assms(1) q])
    then show ?thesis using assms(1) Cons kp(1) by (auto simp: up_wf_def intro: order_less_imp_le)
  qed
  then have "ptx_priority p = Min (ptx_priority ` contents pool)"
    using kp(2) by (intro Min_eqI [symmetric]) (auto intro!: image_eqI [of _ _ "(k, p)"])
  with that kp Cons show ?thesis by blast
qed

text \<open>
  The specification of insertion on the set of stored transactions: nothing changes when all kernels are known; a
  pool with room takes the transaction; a full pool refuses it if its priority is below the lowest, and otherwise
  drops the transaction of lowest priority for it.
\<close>

definition insert_spec ::
  "nat \<Rightarrow> ('pk, 'sk, 'com) prioritized_transaction \<Rightarrow> ('pk, 'sk, 'com) prioritized_transaction set \<Rightarrow>
   ('pk, 'sk, 'com) prioritized_transaction set" where
  "insert_spec capacity ptx S =
     (if \<forall>sig \<in> set (tx_signatures (ptx_transaction ptx)). \<exists>p \<in> S. sig \<in> set (tx_signatures (ptx_transaction p)) then S
      else if card S < capacity then insert ptx S
      else if ptx_priority ptx < Min (ptx_priority ` S) then S
      else insert ptx (S - {p. ptx_priority p = Min (ptx_priority ` S)}))"

lemma prioritized_new_fields:
  "prioritized_new X fee_rate now key weighting tx deps = Ok ptx \<Longrightarrow> ptx_key ptx = key \<and> ptx_transaction ptx = tx"
  by (auto simp: prioritized_new_def outcome_simps)

text \<open>
  (C24) Insertion. On a consistent pool of positive capacity, for a transaction whose priority key is not yet in use and
  before the key counter wraps, \<open>UnconfirmedPool::insert\<close> does not panic, keeps the pool consistent (its indexes exact
  and its size within capacity) and implements the specification on the set of stored transactions.
\<close>

theorem up_insert_refines:
  assumes "up_wf X pool" and "0 < up_storage_capacity pool" and "up_key_counter pool + 1 < 2 ^ 64 - 1"
    and "prioritized_new X fee_rate now (up_key_counter pool) weighting tx deps = Ok ptx"
    and "ptx_priority ptx \<notin> ptx_priority ` contents pool"
  shows "\<exists>pool'. up_insert X fee_rate now tx deps weighting pool = Ok pool' \<and> up_wf X pool' \<and>
    contents pool' = insert_spec (up_storage_capacity pool) ptx (contents pool)"
proof -
  define pool1 where "pool1 = pool\<lparr>up_key_counter := up_key_counter pool + 1\<rparr>"
  have next_key: "up_get_next_key pool = (up_key_counter pool, pool1)"
    using assms(3) by (simp add: up_get_next_key_def pool1_def)
  have wf1: "up_wf X pool1" using assms(1) by (auto simp: up_wf_def pool1_def)
  have fresh: "up_key_counter pool \<notin> fst ` set (up_tx_by_key pool1)" using assms(1) by (auto simp: up_wf_def pool1_def)
  have same: "up_tx_by_key pool1 = up_tx_by_key pool" "up_storage_capacity pool1 = up_storage_capacity pool" by (simp_all add: pool1_def)
  note ptx = prioritized_new_fields [OF assms(4)]
  let ?known = "list_all (idx_contains (up_txs_by_signature pool)) (tx_signatures tx)"
  have spec: "insert_spec (up_storage_capacity pool) ptx (contents pool) =
      (if ?known then contents pool else if length (up_tx_by_key pool) < up_storage_capacity pool then insert ptx (contents pool)
       else if ptx_priority ptx < Min (ptx_priority ` contents pool) then contents pool
       else insert ptx (contents pool - {p. ptx_priority p = Min (ptx_priority ` contents pool)}))"
    unfolding insert_spec_def contents_card [OF assms(1)] using ptx by (simp add: list_all_iff contains_signature [OF assms(1)])
  consider (known) ?known | (room) "\<not> ?known" "length (up_tx_by_key pool) < up_storage_capacity pool"
    | (full) "\<not> ?known" "\<not> length (up_tx_by_key pool) < up_storage_capacity pool" by blast
  then show ?thesis
  proof cases
    case known
    with assms(1) show ?thesis unfolding spec by (simp add: up_insert_def)
  next
    case room
    have "up_wf X (store_prioritized X (up_key_counter pool) ptx pool1) \<and>
        contents (store_prioritized X (up_key_counter pool) ptx pool1) = insert ptx (contents pool1)"
      using room(2) fresh wf1 ptx assms(5) by (intro store_prioritized_ok) (simp_all add: pool1_def)
    with room show ?thesis unfolding spec by (simp add: up_insert_def next_key assms(4) same)
  next
    case full
    then have "up_tx_by_key pool1 \<noteq> []" using assms(2) same by auto
    from lowest_entry [OF wf1 this] obtain k p rest where low: "up_tx_by_priority pool1 = (ptx_priority p, k) # rest"
      "(k, p) \<in> set (up_tx_by_key pool1)" "ptx_priority p = Min (ptx_priority ` contents pool1)" by blast
    from remove_transaction_ok [OF wf1, of k] obtain pool2 where
      rm: "map_ok fst (remove_transaction X k pool1) = Ok pool2" "up_wf X pool2" "up_tx_by_key pool2 = AList.delete k (up_tx_by_key pool1)"
        "up_storage_capacity pool2 = up_storage_capacity pool1" "up_key_counter pool2 = up_key_counter pool1" by auto
    have c2: "contents pool2 = contents pool - {q. ptx_priority q = Min (ptx_priority ` contents pool)}"
    proof -
      have "fst e \<noteq> k \<longleftrightarrow> ptx_priority (snd e) \<noteq> ptx_priority p" if "e \<in> set (up_tx_by_key pool)" for e
        using priority_unique [OF wf1 low(2), of "fst e" "snd e"] key_unique [OF wf1 low(2), of "snd e"] that
        unfolding same by (cases e) auto
      then have "{e \<in> set (up_tx_by_key pool). fst e \<noteq> k} = {e \<in> set (up_tx_by_key pool). ptx_priority (snd e) \<noteq> ptx_priority p}"
        by blast
      then show ?thesis unfolding rm(3) delete_filter same low(3) [unfolded same, symmetric] by auto
    qed
    have "length (up_tx_by_key pool2) < length (up_tx_by_key pool1)"
      unfolding rm(3) delete_filter by (rule length_filter_less [OF low(2)]) simp
    then have "up_wf X (store_prioritized X (up_key_counter pool) ptx pool2) \<and>
        contents (store_prioritized X (up_key_counter pool) ptx pool2) = insert ptx (contents pool2)"
      using fresh rm ptx assms(5) c2 wf1 dom_delete_subset [of k "up_tx_by_key pool1"]
      by (intro store_prioritized_ok) (auto simp: pool1_def up_wf_def)
    then show ?thesis
      unfolding spec using full low rm(1) wf1 c2
      by (auto simp: up_insert_def next_key assms(4) same lowest_priority_def remove_lowest_priority_tx_def)
  qed
qed

subsection \<open>Sample transactions\<close>

text \<open>
  \<open>sample_spend hashes c fee s\<close> spends the outputs with the given hashes, creates an output with commitment \<open>c\<close>, and has one
  kernel with signature \<open>s\<close>; the priority of the samples is their fee.
\<close>

definition sample_spend :: "bytes list \<Rightarrow> u8 \<Rightarrow> u64 \<Rightarrow> u8 \<Rightarrow> (u8, u8, u8) transaction" where
  "sample_spend hashes c fee s =
     transaction_new (map (\<lambda>h. sample_input\<lparr>in_spent_output := OutputHash h\<rparr>) hashes) [sample_output c 0]
       [(sample_kernel s 0)\<lparr>ker_fee := fee\<rparr>] 0 0"

definition sample_hash :: "u8 \<Rightarrow> bytes" where
  "sample_hash c = output_hash_of sample_tx (sample_output c 0)"

lemma sample_hash_inject [simp]: "sample_hash c = sample_hash d \<longleftrightarrow> c = d"
  by (simp add: sample_hash_def sample_output_simps)

definition sample_priority :: "u64 \<Rightarrow> u8 \<Rightarrow> bytes" where
  "sample_priority fee s = be_bytes_64 fee @ be_bytes_64 (- 1) @ pad32 s @ pad32 s"

lemma sample_spend_simps [simp]:
  "tx_signatures (sample_spend hashes c fee s) = [s]"
  "tx_output_hashes sample_tx (sample_spend hashes c fee s) = [sample_hash c]"
  "tx_input_hashes sample_tx (sample_spend hashes c fee s) = hashes"
  by (simp_all add: sample_spend_def tx_signatures_def tx_output_hashes_def tx_input_hashes_def transaction_new_def body_new_def
      sample_kernel_def sample_hash_def input_output_hash_def comp_def)

definition sample_ptx :: "nat \<Rightarrow> bytes list \<Rightarrow> u8 \<Rightarrow> u64 \<Rightarrow> u8 \<Rightarrow> bytes list \<Rightarrow> (u8, u8, u8) prioritized_transaction" where
  "sample_ptx k hashes c fee s deps =
     \<lparr>ptx_key = k, ptx_transaction = sample_spend hashes c fee s, ptx_priority = sample_priority fee s,
      ptx_weight = of_nat (65 + 8 * length hashes), ptx_dependent_output_hashes = deps\<rparr>"

lemma sample_prioritized:
  assumes "length hashes < 10"
  shows "prioritized_new sample_tx (\<lambda>fee w. fee) 0 k weight_params_v1 (sample_spend hashes c fee s) deps =
    Ok (sample_ptx k hashes c fee s (case deps of None \<Rightarrow> [] | Some ds \<Rightarrow> ds))"
proof -
  have "body_small sample_tx (tx_body (sample_spend hashes c fee s))"
    using assms by (simp add: body_small_def sample_spend_def transaction_new_def body_new_def sample_size output_size_def)
  from calculate_body_v1 [OF this] obtain w where
    w: "calculate_body sample_tx weight_params_v1 (tx_body (sample_spend hashes c fee s)) = Ok w"
      "unat w = body_weight_v1 sample_tx (tx_body (sample_spend hashes c fee s))" by blast
  have "body_weight_v1 sample_tx (tx_body (sample_spend hashes c fee s)) = 65 + 8 * length hashes"
    by (simp add: body_weight_v1_def sample_spend_def transaction_new_def body_new_def sample_size output_size_def)
  with w(2) assms have "w = of_nat (65 + 8 * length hashes)" by (simp only: word_unat_eq_iff unat_of_nat) simp
  moreover have "fee_priority_new sample_tx (\<lambda>fee w. fee) (sample_spend hashes c fee s) 0 w = Ok (sample_priority fee s)"
    by (simp add: fee_priority_new_def get_total_fee_def sample_spend_def transaction_new_def body_new_def sample_kernel_def
       sample_priority_def sample_tx_def sample_crypto_def add_u64_def checked_add_u64_def u64_of_nat_def unat_less_u64)
  ultimately show ?thesis using w by (simp add: prioritized_new_def transaction_calculate_weight_def sample_ptx_def)
qed

lemma be_bytes_small:
  assumes "unat v < 256"
  shows "be_bytes_64 v = replicate 7 0 @ [of_nat (unat v)]"
proof -
  have zero: "le_bytes n 0 = replicate n 0" for n by (induction n) simp_all
  have "le_bytes (Suc 7) (unat v) = of_nat (unat v) # replicate 7 0" using assms by (simp only: le_bytes.simps) (simp add: zero)
  then have "le_bytes_64 v = of_nat (unat v) # replicate 7 0" by (simp add: le_bytes_64_def)
  then show ?thesis by (simp add: be_bytes_64_def)
qed

lemma list_less_append: "xs @ ys < xs @ zs \<longleftrightarrow> ys < (zs :: u8 list)"
  by (induction xs) auto

lemma sample_priority_less:
  assumes "unat f < 256" and "unat g < 256" and "f < g"
  shows "sample_priority f s < sample_priority g s'"
proof -
  have "(of_nat (unat f) :: u8) < of_nat (unat g)"
    using assms by (simp only: word_less_nat_alt unat_of_nat) simp
  then show ?thesis
    unfolding sample_priority_def be_bytes_small [OF assms(1)] be_bytes_small [OF assms(2)] append_assoc list_less_append by simp
qed

lemma sample_priorities:
  "sample_priority 1 s < sample_priority 2 s'" "sample_priority 1 s < sample_priority 5 s'" "sample_priority 2 s < sample_priority 5 s'"
  by (rule sample_priority_less; simp)+

lemmas sample_order = sample_priorities sample_priorities [THEN order_less_not_sym] sample_priorities [THEN less_imp_neq]
  sample_priorities [THEN less_imp_neq, symmetric]

definition sample_insert ::
  "(u8, u8, u8) transaction \<Rightarrow> bytes list option \<Rightarrow> (u8, u8, u8) unconfirmed_pool \<Rightarrow> (unit, (u8, u8, u8) unconfirmed_pool) outcome" where
  "sample_insert tx deps pool = up_insert sample_tx (\<lambda>fee w. fee) 0 tx deps weight_params_v1 pool"

lemmas insert_eval = sample_insert_def up_insert_def up_get_next_key_def idx_contains_def store_prioritized_def idx_push_def
  idx_get_def lowest_priority_def sample_prioritized sample_ptx_def sample_order up_new_def

definition sample_pool :: "(u8, u8, u8) unconfirmed_pool" where
  "sample_pool = store_prioritized sample_tx 1 (sample_ptx 1 [sample_hash 1] 2 2 2 [sample_hash 1])
     (store_prioritized sample_tx 0 (sample_ptx 0 [[9]] 1 1 1 []) ((up_new 2 5)\<lparr>up_key_counter := 2\<rparr>))"

lemma sample_pool_ok:
  "up_wf sample_tx sample_pool"
  "contents sample_pool = {sample_ptx 0 [[9]] 1 1 1 [], sample_ptx 1 [sample_hash 1] 2 2 2 [sample_hash 1]}"
  "up_key_counter sample_pool = 2" "up_storage_capacity sample_pool = 2"
  "up_tx_by_key sample_pool = [(0, sample_ptx 0 [[9]] 1 1 1 []), (1, sample_ptx 1 [sample_hash 1] 2 2 2 [sample_hash 1])]"
proof -
  let ?p0 = "(up_new 2 5)\<lparr>up_key_counter := 2\<rparr> :: (u8, u8, u8) unconfirmed_pool"
  let ?a = "sample_ptx 0 [[9]] 1 1 1 []" and ?b = "sample_ptx 1 [sample_hash 1] 2 2 2 [sample_hash 1]"
  let ?p1 = "store_prioritized sample_tx 0 ?a ?p0"
  have "up_wf sample_tx ?p0" using up_wf_new [of sample_tx 2 5] by (simp add: up_wf_def up_new_def)
  then have 1: "up_wf sample_tx ?p1 \<and> contents ?p1 = insert ?a (contents ?p0)"
    by (rule store_prioritized_ok) (simp_all add: up_new_def sample_ptx_def)
  then have 2: "up_wf sample_tx sample_pool \<and> contents sample_pool = insert ?b (contents ?p1)"
    unfolding sample_pool_def
    by (intro store_prioritized_ok) (simp_all add: up_new_def sample_ptx_def store_prioritized_def sample_order)
  show "up_wf sample_tx sample_pool" using 2 by simp
  show "contents sample_pool = {?a, ?b}" using 1 2 by (auto simp: up_new_def)
qed (simp_all add: sample_pool_def store_prioritized_def up_new_def)

lemma split_pair: "P a \<Longrightarrow> \<not> P b \<Longrightarrow> {p \<in> {a, b}. P p} = {a}" "P a \<Longrightarrow> \<not> P b \<Longrightarrow> {p \<in> {a, b}. \<not> P p} = {b}"
  by auto

theorem remove_published_exact_witness:
  "\<exists>pool' txs. remove_published_and_discard_deprecated_transactions sample_tx (tx_body (sample_spend [[9]] 1 1 1)) sample_pool =
     Ok (pool', txs) \<and> up_wf sample_tx pool' \<and> contents pool' = {sample_ptx 1 [sample_hash 1] 2 2 2 [sample_hash 1]} \<and>
     set txs = {sample_spend [[9]] 1 1 1}"
proof -
  let ?block = "tx_body (sample_spend [[9]] 1 1 1)"
  have c: "conflicts sample_tx ?block (sample_ptx 0 [[9]] 1 1 1 [])"
    "\<not> conflicts sample_tx ?block (sample_ptx 1 [sample_hash 1] 2 2 2 [sample_hash 1])"
    by (simp_all add: conflicts_def sample_ptx_def)
       (simp_all add: sample_spend_def transaction_new_def body_new_def sample_kernel_def input_output_hash_def sample_hash_def sample_output_simps)
  show ?thesis
    using remove_published_exact [OF sample_pool_ok(1), of ?block]
    unfolding sample_pool_ok(2) split_pair [of "conflicts sample_tx ?block", OF c] by (simp add: sample_ptx_def)
qed

theorem up_insert_refines_witness:
  "\<exists>pool'. up_insert sample_tx (\<lambda>fee w. fee) 0 (sample_spend [sample_hash 2] 3 5 3) None weight_params_v1 sample_pool = Ok pool' \<and>
     up_wf sample_tx pool' \<and>
     contents pool' = {sample_ptx 1 [sample_hash 1] 2 2 2 [sample_hash 1], sample_ptx 2 [sample_hash 2] 3 5 3 []}"
proof -
  let ?new = "sample_ptx 2 [sample_hash 2] 3 5 3 []"
  have m: "min (sample_priority 1 1) (sample_priority 2 2) = sample_priority 1 1" by (simp add: min_def sample_order order_less_imp_le)
  have "insert_spec 2 ?new (contents sample_pool) = {sample_ptx 1 [sample_hash 1] 2 2 2 [sample_hash 1], ?new}"
    unfolding sample_pool_ok(2) by (simp add: insert_spec_def sample_ptx_def m sample_order card_insert_if) (auto simp: sample_order)
  moreover have "prioritized_new sample_tx (\<lambda>fee w. fee) 0 2 weight_params_v1 (sample_spend [sample_hash 2] 3 5 3) None = Ok ?new"
    by (simp add: sample_prioritized)
  ultimately show ?thesis
    using up_insert_refines [OF sample_pool_ok(1), of "\<lambda>fee w. fee" 0 weight_params_v1 "sample_spend [sample_hash 2] 3 5 3" None ?new]
    by (simp add: sample_pool_ok) (simp add: sample_ptx_def sample_order)
qed

end
