(* ===== verification/Pool_Selection.thy ===== *)
theory Pool_Selection
  imports Unconfirmed_Pool
begin

text \<open>
  The selection of transactions for a block: \<open>fetch_highest_priority_txs\<close>, \<open>get_all_dependent_transactions\<close>,
  \<open>find_highest_priority_transaction\<close> and \<open>find_duplicate_input\<close> of
  \<open>src/base_layer/core/src/mempool/unconfirmed_pool/unconfirmed_pool.rs\<close>.

  The recursion along dependencies takes fuel: \<open>None\<close> means that it has not returned within the fuel. The theorems say
  that with an acyclic dependency relation as much fuel as there are transactions is enough, and that on a cycle no
  fuel is.
\<close>

subsection \<open>Dependencies\<close>

fun highest_from ::
  "('pk, 'sk, 'com) unconfirmed_pool \<Rightarrow> ('pk, 'sk, 'com) prioritized_transaction \<Rightarrow> nat list \<Rightarrow>
   (unconfirmed_pool_error, ('pk, 'sk, 'com) prioritized_transaction) outcome" where
  "highest_from pool highest [] = Ok highest"
| "highest_from pool highest (key # keys) =
     and_then (ok_or StorageOutofSync (map_of (up_tx_by_key pool) key)) (\<lambda>tx.
     highest_from pool (if ptx_priority tx > ptx_priority highest then tx else highest) keys)"

definition find_highest_priority_transaction ::
  "('pk, 'sk, 'com) unconfirmed_pool \<Rightarrow> nat list \<Rightarrow>
   (unconfirmed_pool_error, ('pk, 'sk, 'com) prioritized_transaction) outcome" where
  "find_highest_priority_transaction pool keys =
     (case keys of
        [] \<Rightarrow> Err StorageOutofSync
      | key # keys \<Rightarrow> and_then (ok_or StorageOutofSync (map_of (up_tx_by_key pool) key)) (\<lambda>tx. highest_from pool tx keys))"

text \<open>
  The required transactions, the transactions to recheck, and the weight: what
  \<open>get_all_dependent_transactions\<close> updates through its mutable references.
\<close>

type_synonym ('pk, 'sk, 'com) dependents =
  "(nat \<times> ('pk, 'sk, 'com) transaction) list \<times> (nat \<times> ('pk, 'sk, 'com) transaction) list \<times> u64"

fun dependency_loop ::
  "(('pk, 'sk, 'com) prioritized_transaction \<Rightarrow> ('pk, 'sk, 'com) dependents \<Rightarrow>
     (unconfirmed_pool_error, ('pk, 'sk, 'com) dependents) outcome option) \<Rightarrow>
   ('pk, 'sk, 'com) unconfirmed_pool \<Rightarrow> nat list \<Rightarrow> ('pk, 'sk, 'com) prioritized_transaction \<Rightarrow> bytes list \<Rightarrow>
   ('pk, 'sk, 'com) dependents \<Rightarrow> (unconfirmed_pool_error, ('pk, 'sk, 'com) dependents) outcome option" where
  "dependency_loop recurse pool selected tx [] st = Some (Ok st)"
| "dependency_loop recurse pool selected tx (d # ds) st =
     (case map_of (up_txs_by_output pool) d of
        Some keys \<Rightarrow>
          run_then (Some (find_highest_priority_transaction pool keys)) (\<lambda>dependent.
          if ptx_key dependent \<in> set selected then dependency_loop recurse pool selected tx ds st
          else run_then (recurse dependent st) (\<lambda>(required, recheck, weight).
            if recheck \<noteq> [] then Some (Ok (required, recheck @ [(ptx_key tx, ptx_transaction tx)], weight))
            else dependency_loop recurse pool selected tx ds (required, recheck, weight)))
      | None \<Rightarrow> (case st of (required, recheck, weight) \<Rightarrow>
          Some (Ok (required, recheck @ [(ptx_key tx, ptx_transaction tx)], weight))))"

fun get_all_dependent_transactions ::
  "('pk, 'sk, 'com) unconfirmed_pool \<Rightarrow> nat list \<Rightarrow> nat \<Rightarrow> ('pk, 'sk, 'com) prioritized_transaction \<Rightarrow>
   ('pk, 'sk, 'com) dependents \<Rightarrow> (unconfirmed_pool_error, ('pk, 'sk, 'com) dependents) outcome option" where
  "get_all_dependent_transactions pool selected 0 tx st = None"
| "get_all_dependent_transactions pool selected (Suc fuel) tx st =
     run_then (dependency_loop (get_all_dependent_transactions pool selected fuel) pool selected tx
         (ptx_dependent_output_hashes tx) st) (\<lambda>(required, recheck, weight).
     let required' = AList.update (ptx_key tx) (ptx_transaction tx) required
     in if map_of required (ptx_key tx) = None
        then Some (map_ok (\<lambda>weight. (required', recheck, weight)) (add_u64 weight (ptx_weight tx)))
        else Some (Ok (required', recheck, weight)))"

subsection \<open>Selection\<close>

definition find_duplicate_input ::
  "('pk, 'sk, 'com) tx_crypto \<Rightarrow> (nat \<times> ('pk, 'sk, 'com) transaction) list \<Rightarrow> (nat \<times> ('pk, 'sk, 'com) transaction) list \<Rightarrow> bool" where
  "find_duplicate_input X current_transactions transactions_to_insert =
     (let insert_set = concat (map (\<lambda>(_, tx). tx_input_hashes X tx) transactions_to_insert)
      in list_ex (\<lambda>(_, tx). list_ex (\<lambda>h. h \<in> set insert_set) (tx_input_hashes X tx)) current_transactions)"

text \<open>\<open>HashMap::extend\<close>\<close>

definition map_extend :: "('k \<times> 'v) list \<Rightarrow> ('k \<times> 'v) list \<Rightarrow> ('k \<times> 'v) list" where
  "map_extend entries m = fold (\<lambda>(k, v). AList.update k v) entries m"

text \<open>The selected transactions, their weight, the skip count, and the transactions to remove and recheck.\<close>

type_synonym ('pk, 'sk, 'com) selection =
  "(nat \<times> ('pk, 'sk, 'com) transaction) list \<times> u64 \<times> nat \<times> (nat \<times> ('pk, 'sk, 'com) transaction) list"

fun selection_loop ::
  "('pk, 'sk, 'com) tx_crypto \<Rightarrow> nat \<Rightarrow> ('pk, 'sk, 'com) unconfirmed_pool \<Rightarrow> u64 \<Rightarrow> (bytes \<times> nat) list \<Rightarrow>
   ('pk, 'sk, 'com) selection \<Rightarrow> (unconfirmed_pool_error, ('pk, 'sk, 'com) selection) outcome option" where
  "selection_loop X fuel pool total_weight [] st = Some (Ok st)"
| "selection_loop X fuel pool total_weight ((_, tx_key) # rest) (selected, curr_weight, skips, recheck) =
     (if tx_key \<in> fst ` set selected then selection_loop X fuel pool total_weight rest (selected, curr_weight, skips, recheck)
      else run_then (Some (ok_or StorageOutofSync (map_of (up_tx_by_key pool) tx_key))) (\<lambda>ptx.
        run_then (get_all_dependent_transactions pool (map fst selected) fuel ptx ([], [], 0)) (\<lambda>(candidates, potential, weight).
        run_then (Some (add_u64 curr_weight weight)) (\<lambda>weight_after.
        if weight_after \<le> total_weight \<and> potential = [] then
          if \<not> find_duplicate_input X selected candidates
          then selection_loop X fuel pool total_weight rest (map_extend candidates selected, weight_after, skips, recheck)
          else selection_loop X fuel pool total_weight rest (selected, curr_weight, skips, recheck)
        else if skips + 1 \<ge> up_weight_tx_skip_count pool
          then Some (Ok (selected, curr_weight, skips + 1, recheck @ potential))
          else selection_loop X fuel pool total_weight rest (selected, curr_weight, skips + 1, recheck @ potential)))))"

text \<open>The results are the pool, the retrieved transactions and the transactions to insert again.\<close>

definition fetch_highest_priority_txs ::
  "('pk, 'sk, 'com) tx_crypto \<Rightarrow> nat \<Rightarrow> u64 \<Rightarrow> ('pk, 'sk, 'com) unconfirmed_pool \<Rightarrow>
   (unconfirmed_pool_error, ('pk, 'sk, 'com) unconfirmed_pool \<times> ('pk, 'sk, 'com) transaction list \<times>
     ('pk, 'sk, 'com) transaction list) outcome option" where
  "fetch_highest_priority_txs X fuel total_weight pool =
     run_then (selection_loop X fuel pool total_weight (rev (up_tx_by_priority pool)) ([], 0, 0, [])) (\<lambda>(selected, _, _, recheck).
     run_then (Some (unwrap (remove_transactions X (map fst recheck) pool))) (\<lambda>(pool, _).
     Some (Ok (pool, map snd selected, map snd recheck))))"

subsection \<open>Weights of sets of keys\<close>

definition key_weight :: "('pk, 'sk, 'com) unconfirmed_pool \<Rightarrow> nat \<Rightarrow> nat" where
  "key_weight pool k = (case map_of (up_tx_by_key pool) k of None \<Rightarrow> 0 | Some p \<Rightarrow> unat (ptx_weight p))"

definition pool_weight :: "('pk, 'sk, 'com) unconfirmed_pool \<Rightarrow> nat" where
  "pool_weight pool = (\<Sum>k\<leftarrow>map fst (up_tx_by_key pool). key_weight pool k)"

lemma keys_weight_le:
  assumes "up_wf X pool" and "distinct ks" and "set ks \<subseteq> fst ` set (up_tx_by_key pool)"
  shows "(\<Sum>k\<leftarrow>ks. key_weight pool k) \<le> pool_weight pool"
proof -
  have d: "distinct (map fst (up_tx_by_key pool))" using assms(1) by (simp add: up_wf_def)
  show ?thesis
    unfolding pool_weight_def sum_list_distinct_conv_sum_set [OF d] sum_list_distinct_conv_sum_set [OF assms(2)]
    using assms(3) by (intro sum_mono2) auto
qed

subsection \<open>Following dependencies\<close>

lemma map_of_pool:
  assumes "up_wf X pool"
  shows "map_of (up_tx_by_key pool) k = Some p \<longleftrightarrow> (k, p) \<in> set (up_tx_by_key pool)"
  using assms by (simp add: up_wf_def)

lemma highest_from_ok:
  assumes "up_wf X pool" and "(k, p) \<in> set (up_tx_by_key pool)" and "set ks \<subseteq> fst ` set (up_tx_by_key pool)"
  shows "\<exists>j q. highest_from pool p ks = Ok q \<and> (j, q) \<in> set (up_tx_by_key pool) \<and> j \<in> set (k # ks)"
  using assms(2,3)
proof (induction ks arbitrary: k p)
  case (Cons i ks)
  then obtain r where r: "(i, r) \<in> set (up_tx_by_key pool)" by auto
  with Cons.IH [OF r] Cons.IH [OF Cons.prems(1)] Cons.prems(2) map_of_pool [OF assms(1), of i r] show ?case by auto
qed auto

lemma find_highest_ok:
  assumes "up_wf X pool" and "ks \<noteq> []" and "set ks \<subseteq> fst ` set (up_tx_by_key pool)"
  shows "\<exists>j q. find_highest_priority_transaction pool ks = Ok q \<and> (j, q) \<in> set (up_tx_by_key pool) \<and> j \<in> set ks"
proof -
  obtain k rest where ks: "ks = k # rest" using assms(2) by (cases ks) auto
  with assms(3) obtain p where p: "(k, p) \<in> set (up_tx_by_key pool)" by auto
  with highest_from_ok [OF assms(1) p, of rest] assms(3) map_of_pool [OF assms(1), of k p] show ?thesis
    by (auto simp: find_highest_priority_transaction_def ks)
qed

text \<open>
  The dependency relation is acyclic: every transaction that creates an output another one depends on has a smaller
  rank.
\<close>

definition ranked :: "('pk, 'sk, 'com) unconfirmed_pool \<Rightarrow> (nat \<Rightarrow> nat) \<Rightarrow> bool" where
  "ranked pool rank \<longleftrightarrow> (\<forall>(k, p) \<in> set (up_tx_by_key pool). \<forall>d \<in> set (ptx_dependent_output_hashes p).
     \<forall>j \<in> set (idx_get (up_txs_by_output pool) d). rank j < rank k)"

definition good_required ::
  "('pk, 'sk, 'com) unconfirmed_pool \<Rightarrow> nat list \<Rightarrow> (nat \<times> ('pk, 'sk, 'com) transaction) list \<Rightarrow> u64 \<Rightarrow> bool" where
  "good_required pool selected req w \<longleftrightarrow>
     distinct (map fst req) \<and> unat w = (\<Sum>k\<leftarrow>map fst req. key_weight pool k) \<and>
     (\<forall>e \<in> set req. fst e \<notin> set selected \<and> (\<exists>p. (fst e, p) \<in> set (up_tx_by_key pool) \<and> snd e = ptx_transaction p))"

lemma good_required_keys: "good_required pool selected req w \<Longrightarrow> set (map fst req) \<subseteq> fst ` set (up_tx_by_key pool)"
  unfolding good_required_def by force

lemma provider:
  assumes "up_wf X pool" and "map_of (up_txs_by_output pool) d = Some keys"
  shows "keys \<noteq> []" "set keys \<subseteq> fst ` set (up_tx_by_key pool)" "keys = idx_get (up_txs_by_output pool) d"
proof -
  show e: "keys = idx_get (up_txs_by_output pool) d" using assms(2) by (simp add: idx_get_def)
  show "keys \<noteq> []" using assms by (auto simp: up_wf_def idx_wf_def dest!: map_of_SomeD) (metis image_eqI snd_conv)
  show "set keys \<subseteq> fst ` set (up_tx_by_key pool)" unfolding e using output_index [OF assms(1)] by force
qed

lemma dependency_loop_ok:
  assumes "up_wf X pool" and "\<forall>d \<in> set ds. \<forall>j \<in> set (idx_get (up_txs_by_output pool) d). rank j < r"
    and "\<And>j q req w. (j, q) \<in> set (up_tx_by_key pool) \<Longrightarrow> j \<notin> set selected \<Longrightarrow> rank j < r \<Longrightarrow> good_required pool selected req w \<Longrightarrow>
      \<exists>req' recheck' w'. recurse q (req, [], w) = Some (Ok (req', recheck', w')) \<and> good_required pool selected req' w'"
    and "good_required pool selected req w"
  shows "\<exists>req' recheck' w'. dependency_loop recurse pool selected tx ds (req, [], w) = Some (Ok (req', recheck', w')) \<and>
    good_required pool selected req' w'"
  using assms(2,4)
proof (induction ds arbitrary: req w)
  case (Cons d ds)
  show ?case
  proof (cases "map_of (up_txs_by_output pool) d")
    case None
    with Cons.prems(2) show ?thesis by simp
  next
    case (Some keys)
    note pr = provider [OF assms(1) Some]
    from find_highest_ok [OF assms(1) pr(1,2)] obtain j q where
      jq: "find_highest_priority_transaction pool keys = Ok q" "(j, q) \<in> set (up_tx_by_key pool)" "j \<in> set keys" by blast
    then have "ptx_key q = j" "rank j < r" using assms(1) Cons.prems(1) pr(3) by (auto simp: up_wf_def)
    with assms(3) [OF jq(2) _ _ Cons.prems(2)] jq Some Cons show ?thesis by (cases "j \<in> set selected") auto
  qed
qed simp

lemma good_required_insert:
  assumes "up_wf X pool" and "pool_weight pool < 2 ^ 64" and "(k, p) \<in> set (up_tx_by_key pool)" and "k \<notin> set selected"
    and "good_required pool selected req w" and "map_of req k = None"
  shows "\<exists>w'. add_u64 w (ptx_weight p) = (Ok w' :: (unconfirmed_pool_error, u64) outcome) \<and>
    good_required pool selected (AList.update k (ptx_transaction p) req) w'"
proof -
  have k: "k \<notin> fst ` set req" using assms(6) by (simp add: map_of_eq_None_iff)
  have wt: "key_weight pool k = unat (ptx_weight p)" using map_of_pool [OF assms(1), of k p] assms(3) by (simp add: key_weight_def)
  have "k \<in> fst ` set (up_tx_by_key pool)" using imageI [OF assms(3), of fst] by simp
  then have "(\<Sum>j\<leftarrow>map fst req @ [k]. key_weight pool j) \<le> pool_weight pool"
    using assms(5) k good_required_keys [OF assms(5)]
    by (intro keys_weight_le [OF assms(1)]) (simp_all add: good_required_def)
  then have "unat w + unat (ptx_weight p) < 2 ^ 64" using assms(2,5) wt by (simp add: good_required_def)
  from add_u64_ok [OF this] obtain w' where "add_u64 w (ptx_weight p) = (Ok w' :: (unconfirmed_pool_error, u64) outcome)"
    "unat w' = unat w + unat (ptx_weight p)" by blast
  with assms(3-5) k wt show ?thesis by (auto simp: good_required_def update_fresh)
qed

lemma get_all_dependent_ok:
  assumes "up_wf X pool" and "pool_weight pool < 2 ^ 64" and "ranked pool rank"
    and "(k, p) \<in> set (up_tx_by_key pool)" and "k \<notin> set selected" and "rank k < fuel" and "good_required pool selected req w"
  shows "\<exists>req' recheck' w'. get_all_dependent_transactions pool selected fuel p (req, [], w) = Some (Ok (req', recheck', w')) \<and>
    good_required pool selected req' w'"
  using assms(4-)
proof (induction fuel arbitrary: k p req w)
  case (Suc fuel)
  have key: "ptx_key p = k" using assms(1) Suc.prems(1) by (auto simp: up_wf_def)
  have deps: "\<forall>d \<in> set (ptx_dependent_output_hashes p). \<forall>j \<in> set (idx_get (up_txs_by_output pool) d). rank j < rank k"
    using assms(3) Suc.prems(1) by (auto simp: ranked_def)
  have "\<exists>req' recheck' w'. dependency_loop (get_all_dependent_transactions pool selected fuel) pool selected p
      (ptx_dependent_output_hashes p) (req, [], w) = Some (Ok (req', recheck', w')) \<and> good_required pool selected req' w'"
    by (rule dependency_loop_ok [OF assms(1) deps _ Suc.prems(4)]) (use Suc.IH Suc.prems(3) in auto)
  then obtain req' recheck' w' where loop: "dependency_loop (get_all_dependent_transactions pool selected fuel) pool selected p
      (ptx_dependent_output_hashes p) (req, [], w) = Some (Ok (req', recheck', w'))" and good: "good_required pool selected req' w'"
    by blast
  show ?case
  proof (cases "map_of req' k")
    case None
    with good_required_insert [OF assms(1,2) Suc.prems(1,2) good None] loop key show ?thesis by auto
  next
    case (Some tx)
    then have "(k, tx) \<in> set req'" by (rule map_of_SomeD)
    then obtain q where "(k, q) \<in> set (up_tx_by_key pool)" "tx = ptx_transaction q" using good by (force simp: good_required_def)
    then have "tx = ptx_transaction p" using key_unique [OF assms(1) Suc.prems(1)] by blast
    then have "AList.update k (ptx_transaction p) req' = req'" using Some by (simp add: update_triv)
    with loop key good Some show ?thesis by auto
  qed
qed simp

lemma map_extend_append:
  assumes "distinct (map fst entries)" and "fst ` set entries \<inter> fst ` set m = {}"
  shows "map_extend entries m = m @ entries"
  using assms
proof (induction entries arbitrary: m)
  case (Cons e entries)
  obtain k v where e: "e = (k, v)" by (cases e)
  have "AList.update k v m = m @ [e]" using Cons.prems(2) e by (intro update_fresh [THEN trans]) auto
  with Cons.IH [of "m @ [e]"] Cons.prems e show ?case by (auto simp: map_extend_def)
qed (simp add: map_extend_def)

lemma good_required_disjoint: "good_required pool selected req w \<Longrightarrow> fst ` set req \<inter> set selected = {}"
  by (auto simp: good_required_def)

lemma good_required_append:
  assumes "good_required pool [] s c" and "good_required pool (map fst s) r w" and "unat a = unat c + unat w"
  shows "good_required pool [] (map_extend r s) a"
proof -
  have "map_extend r s = s @ r"
    using good_required_disjoint [OF assms(2)] assms(2) by (intro map_extend_append) (auto simp: good_required_def)
  with assms good_required_disjoint [OF assms(2)] show ?thesis
    unfolding good_required_def by (simp add: Int_commute ball_Un)
qed

lemma selection_loop_ok:
  assumes "up_wf X pool" and "pool_weight pool < 2 ^ 63" and "unat total_weight < 2 ^ 63" and "ranked pool rank"
    and "\<forall>k \<in> fst ` set (up_tx_by_key pool). rank k < fuel"
    and "snd ` set entries \<subseteq> fst ` set (up_tx_by_key pool)"
    and "good_required pool [] selected cw" and "cw \<le> total_weight"
  shows "\<exists>selected' cw' skips' recheck'. selection_loop X fuel pool total_weight entries (selected, cw, skips, recheck) =
      Some (Ok (selected', cw', skips', recheck')) \<and> good_required pool [] selected' cw' \<and> cw' \<le> total_weight"
  using assms(6-)
proof (induction entries arbitrary: selected cw skips recheck)
  case (Cons e entries)
  obtain pr k where e: "e = (pr, k)" by (cases e)
  show ?case
  proof (cases "k \<in> fst ` set selected")
    case True
    with Cons e show ?thesis by auto
  next
    case False
    obtain p where p: "(k, p) \<in> set (up_tx_by_key pool)" using Cons.prems(1) e by auto
    have empty: "good_required pool (map fst selected) [] 0" by (simp add: good_required_def)
    have "pool_weight pool < 2 ^ 64" "rank k < fuel" "k \<notin> set (map fst selected)" using assms(2,5) p False by auto
    from get_all_dependent_ok [OF assms(1) this(1) assms(4) p this(3,2) empty] obtain req rc w where
      deps: "get_all_dependent_transactions pool (map fst selected) fuel p ([], [], 0) = Some (Ok (req, rc, w))"
      and good: "good_required pool (map fst selected) req w" by blast
    have "unat w \<le> pool_weight pool"
      using good keys_weight_le [OF assms(1), of "map fst req"] good_required_keys [OF good] by (simp add: good_required_def)
    then have "unat cw + unat w < 2 ^ 64" using Cons.prems(3) assms(2,3) by (simp add: word_le_nat_alt)
    from add_u64_ok [OF this] obtain after where after: "add_u64 cw w = (Ok after :: (unconfirmed_pool_error, u64) outcome)"
      "unat after = unat cw + unat w" by blast
    have IH: "\<exists>selected' cw' skips' recheck'. selection_loop X fuel pool total_weight entries (s, c, n, r) =
        Some (Ok (selected', cw', skips', recheck')) \<and> good_required pool [] selected' cw' \<and> cw' \<le> total_weight"
      if "good_required pool [] s c" "c \<le> total_weight" for s c n r
      using Cons.IH Cons.prems(1) that by auto
    note ext = good_required_append [OF Cons.prems(2) good after(2)]
    have sel: "selection_loop X fuel pool total_weight (e # entries) (selected, cw, skips, recheck) =
        (if after \<le> total_weight \<and> rc = [] then
           if \<not> find_duplicate_input X selected req
           then selection_loop X fuel pool total_weight entries (map_extend req selected, after, skips, recheck)
           else selection_loop X fuel pool total_weight entries (selected, cw, skips, recheck)
         else if skips + 1 \<ge> up_weight_tx_skip_count pool then Some (Ok (selected, cw, skips + 1, recheck @ rc))
         else selection_loop X fuel pool total_weight entries (selected, cw, skips + 1, recheck @ rc))"
      using False map_of_pool [OF assms(1), of k p] p by (simp add: e deps after(1))
    show ?thesis unfolding sel using ext IH Cons.prems(2,3) by (auto simp: IH)
  qed
qed auto

text \<open>
  (C26) Block selection. On a consistent pool without cyclic dependencies whose weight together with the requested weight
  fits in 64 bits, \<open>fetch_highest_priority_txs\<close> returns (fuel above the largest rank is enough), without error or panic;
  the transactions it retrieves are distinct members of the pool and weigh together at most the requested weight.
\<close>

theorem fetch_bounded:
  assumes "up_wf X pool" and "pool_weight pool < 2 ^ 63" and "unat total_weight < 2 ^ 63" and "ranked pool rank"
    and "\<forall>k \<in> fst ` set (up_tx_by_key pool). rank k < fuel"
  shows "\<exists>pool' txs recheck keys. fetch_highest_priority_txs X fuel total_weight pool = Some (Ok (pool', txs, recheck)) \<and> up_wf X pool' \<and>
    distinct keys \<and> map Some txs = map (\<lambda>k. map_option ptx_transaction (map_of (up_tx_by_key pool) k)) keys \<and>
    (\<Sum>k\<leftarrow>keys. key_weight pool k) \<le> unat total_weight"
proof -
  have "snd ` set (rev (up_tx_by_priority pool)) \<subseteq> fst ` set (up_tx_by_key pool)"
    using assms(1) by (simp add: up_wf_def prio_entry_def image_image)
  moreover have "good_required pool [] [] 0" by (simp add: good_required_def)
  ultimately obtain selected cw skips recheck where
    loop: "selection_loop X fuel pool total_weight (rev (up_tx_by_priority pool)) ([], 0, 0, []) = Some (Ok (selected, cw, skips, recheck))"
    and good: "good_required pool [] selected cw" and le: "cw \<le> total_weight"
    using selection_loop_ok [OF assms, of "rev (up_tx_by_priority pool)" "[]" 0 0 "[]"] by auto
  from remove_transactions_ok [OF assms(1), of "map fst recheck"] obtain pool' gone where
    rm: "remove_transactions X (map fst recheck) pool = Ok (pool', gone)" "up_wf X pool'" by blast
  have txs: "map Some (map snd selected) = map (\<lambda>k. map_option ptx_transaction (map_of (up_tx_by_key pool) k)) (map fst selected)"
  proof -
    have "Some (snd e) = map_option ptx_transaction (map_of (up_tx_by_key pool) (fst e))" if "e \<in> set selected" for e
    proof -
      have "\<exists>p. (fst e, p) \<in> set (up_tx_by_key pool) \<and> snd e = ptx_transaction p"
        using good that by (simp add: good_required_def)
      then obtain p where "(fst e, p) \<in> set (up_tx_by_key pool)" "snd e = ptx_transaction p" by blast
      then show ?thesis using map_of_pool [OF assms(1), of "fst e" p] by simp
    qed
    then show ?thesis by simp
  qed
  show ?thesis
    using loop rm txs good le
    by (intro exI [of _ pool'] exI [of _ "map snd selected"] exI [of _ "map snd recheck"] exI [of _ "map fst selected"])
      (simp add: fetch_highest_priority_txs_def good_required_def word_le_nat_alt)
qed

theorem fetch_bounded_witness:
  "\<exists>pool' txs recheck keys. fetch_highest_priority_txs sample_tx 2 100 sample_pool = Some (Ok (pool', txs, recheck)) \<and>
    up_wf sample_tx pool' \<and> distinct keys \<and>
    map Some txs = map (\<lambda>k. map_option ptx_transaction (map_of (up_tx_by_key sample_pool) k)) keys \<and>
    (\<Sum>k\<leftarrow>keys. key_weight sample_pool k) \<le> 100"
proof -
  have "ranked sample_pool id"
    by (simp add: ranked_def sample_pool_ok sample_ptx_def)
       (simp add: sample_pool_def store_prioritized_def idx_push_def idx_get_def up_new_def sample_ptx_def)
  then show ?thesis
    using fetch_bounded [OF sample_pool_ok(1), of 100 id 2]
    by (simp add: pool_weight_def key_weight_def sample_pool_ok) (simp add: sample_ptx_def)
qed

subsection \<open>Conflicting candidates\<close>

lemmas fetch_eval = fetch_highest_priority_txs_def find_highest_priority_transaction_def find_duplicate_input_def map_extend_def
  numeral_3_eq_3 add_u64_def checked_add_u64_def u64_of_nat_def


subsection \<open>Cyclic dependencies\<close>

lemma cycle_diverges:
  assumes "ptx_dependent_output_hashes p = [d]" and "map_of (up_txs_by_output pool) d = Some ps"
    and "find_highest_priority_transaction pool ps = Ok q" and "ptx_key q \<notin> set selected"
    and "ptx_dependent_output_hashes q = [e]" and "map_of (up_txs_by_output pool) e = Some qs"
    and "find_highest_priority_transaction pool qs = Ok p" and "ptx_key p \<notin> set selected"
  shows "get_all_dependent_transactions pool selected fuel p st = None \<and> get_all_dependent_transactions pool selected fuel q st = None"
  using assms by (induction fuel arbitrary: st) simp_all

text \<open>
  (C28) A selection that never returns. The second of three transactions spends an output of the first, and the third spends
  an output of the second and creates the output of the first again, with a higher priority. The pool accepts them, and
  \<open>fetch_highest_priority_txs\<close> then follows the dependency between the second and the third for ever: no amount of fuel
  gives a result.
\<close>

theorem selection_diverges:
  "\<exists>pool1 pool2 pool3.
     sample_insert (sample_spend [[9]] 1 1 1) None (up_new 10 5) = Ok pool1 \<and>
     contains_all_outputs [sample_hash 1] pool1 \<and>
     sample_insert (sample_spend [sample_hash 1] 2 2 2) (Some [sample_hash 1]) pool1 = Ok pool2 \<and>
     contains_all_outputs [sample_hash 2] pool2 \<and>
     sample_insert (sample_spend [sample_hash 2] 1 5 3) (Some [sample_hash 2]) pool2 = Ok pool3 \<and>
     (\<forall>fuel total_weight. fetch_highest_priority_txs sample_tx fuel total_weight pool3 = None)"
proof -
  let ?C = "sample_ptx 0 [[9]] 1 1 1 []" and ?A = "sample_ptx 1 [sample_hash 1] 2 2 2 [sample_hash 1]"
    and ?B = "sample_ptx 2 [sample_hash 2] 1 5 3 [sample_hash 2]"
  define pool3 where "pool3 = \<lparr>up_storage_capacity = 10, up_weight_tx_skip_count = 5, up_key_counter = 3,
    up_tx_by_key = [(0, ?C), (1, ?A), (2, ?B)], up_txs_by_signature = [(1, [0]), (2, [1]), (3, [2])],
    up_tx_by_priority = [(sample_priority 1 1, 0), (sample_priority 2 2, 1), (sample_priority 5 3, 2)],
    up_txs_by_output = [(sample_hash 1, [0, 2]), (sample_hash 2, [1])]\<rparr>"
  have "get_all_dependent_transactions pool3 [] fuel ?B st = None" for fuel st
    by (rule cycle_diverges [of _ "sample_hash 2" _ "[1]" ?A _ "sample_hash 1" "[0, 2]", THEN conjunct1])
      (simp_all add: pool3_def sample_ptx_def find_highest_priority_transaction_def sample_order)
  then have "\<forall>fuel total_weight. fetch_highest_priority_txs sample_tx fuel total_weight pool3 = None"
    by (simp add: fetch_highest_priority_txs_def pool3_def)
  moreover have "\<exists>pool1 pool2. sample_insert (sample_spend [[9]] 1 1 1) None (up_new 10 5) = Ok pool1 \<and>
     contains_all_outputs [sample_hash 1] pool1 \<and>
     sample_insert (sample_spend [sample_hash 1] 2 2 2) (Some [sample_hash 1]) pool1 = Ok pool2 \<and>
     contains_all_outputs [sample_hash 2] pool2 \<and>
     sample_insert (sample_spend [sample_hash 2] 1 5 3) (Some [sample_hash 2]) pool2 = Ok pool3"
    by (simp add: insert_eval contains_all_outputs_def pool3_def)
  ultimately show ?thesis by blast
qed

end
