(* ===== verification/Emission.thy ===== *)
theory Emission
  imports Amounts
begin

text \<open>
  The emission schedule (\<open>src/base_layer/core/src/consensus/emission.rs\<close>) and the emission parameters of
  the networks (\<open>consensus_constants.rs\<close>). The iterator \<open>EmissionRate\<close> is a record passed through \<open>next\<close>;
  the two \<open>while\<close> loops of the \<open>Emission\<close> trait may run for ever, so they are one
  \<open>partial_function (option)\<close> in which \<open>None\<close> is not returning. \<open>reward_spec\<close> and \<open>supply_spec\<close> are the
  formulas of the documentation over the natural numbers.
\<close>

subsection \<open>The schedule\<close>

record emission_schedule =
  initial :: micro_tari
  decay :: "u64 list"
  tail :: micro_tari

definition emission_new :: "micro_tari \<Rightarrow> u64 list \<Rightarrow> micro_tari \<Rightarrow> (unit, emission_schedule) outcome" where
  "emission_new ini dec tai =
     (if list_all (\<lambda>i. i < 64) dec then Ok \<lparr>initial = ini, decay = dec, tail = tai\<rparr> else Panic)"

record emission_rate =
  block_num :: u64
  rate_supply :: micro_tari
  reward :: micro_tari
  schedule :: emission_schedule

definition emission_iter :: "emission_schedule \<Rightarrow> emission_rate" where
  "emission_iter s = \<lparr>block_num = 0, rate_supply = initial s, reward = initial s, schedule = s\<rparr>"

text \<open>\<open>fold(self.reward, |sum, i| sum - MicroTari::from(r >> *i))\<close> with the panics of both operators.\<close>

fun decay_fold :: "u64 \<Rightarrow> u64 list \<Rightarrow> micro_tari \<Rightarrow> (unit, micro_tari) outcome" where
  "decay_fold r [] acc = Ok acc"
| "decay_fold r (i # js) acc =
     and_then (shr_u64 r i) (\<lambda>part. and_then (sub_u64 acc part) (\<lambda>acc. decay_fold r js acc))"

definition next_reward :: "emission_rate \<Rightarrow> (unit, micro_tari) outcome" where
  "next_reward it =
     and_then (decay_fold (reward it) (decay (schedule it)) (reward it)) (\<lambda>nxt. Ok (max nxt (tail (schedule it))))"

text \<open>
  \<open>next\<close> stores the new reward first; when the supply would overflow it returns \<open>None\<close> with the supply and
  the block number as they were.
\<close>

definition rate_next ::
  "emission_rate \<Rightarrow> (unit, (u64 \<times> micro_tari \<times> micro_tari) option \<times> emission_rate) outcome" where
  "rate_next it =
     and_then (next_reward it) (\<lambda>r.
     (let it = it\<lparr>reward := r\<rparr>
      in case mt_checked_add (rate_supply it) (reward it) of
           None \<Rightarrow> Ok (None, it)
         | Some s \<Rightarrow>
             (let it = it\<lparr>rate_supply := s\<rparr>
              in and_then (add_u64 (block_num it) 1) (\<lambda>n.
                 (let it = it\<lparr>block_num := n\<rparr>
                  in Ok (Some (block_num it, reward it, rate_supply it), it))))))"

partial_function (option) emission_loop :: "u64 \<Rightarrow> emission_rate \<Rightarrow> (unit, emission_rate) outcome option" where
  "emission_loop height it =
     (if block_num it < height
      then (case rate_next it of
              Ok (_, it') \<Rightarrow> emission_loop height it'
            | Err e \<Rightarrow> Some (Err e)
            | Panic \<Rightarrow> Some Panic)
      else Some (Ok it))"

declare emission_loop.simps [code]

definition block_reward :: "emission_schedule \<Rightarrow> u64 \<Rightarrow> (unit, micro_tari) outcome option" where
  "block_reward s height = map_option (map_ok reward) (emission_loop height (emission_iter s))"

definition supply_at_block :: "emission_schedule \<Rightarrow> u64 \<Rightarrow> (unit, micro_tari) outcome option" where
  "supply_at_block s height = map_option (map_ok rate_supply) (emission_loop height (emission_iter s))"

subsection \<open>Decay parameters\<close>

text \<open>
  \<open>decay_params\<close> turns a decimal fraction into the negative powers of two of its complement.
  \<open>times_two\<close> goes through the digits from the last to the first, so it is a right fold that returns the
  carry; the digits are \<open>u8\<close> values below ten and none of the additions leaves a byte.
\<close>

definition is_ascii_digit :: "char \<Rightarrow> bool" where
  "is_ascii_digit c \<longleftrightarrow> 48 \<le> (of_char c :: nat) \<and> (of_char c :: nat) \<le> 57"

definition frac_vec :: "string \<Rightarrow> nat list option" where
  "frac_vec n =
     (if take 2 n \<noteq> ''0.'' then None
      else if \<not> list_all is_ascii_digit (drop 2 n) then None
      else Some (map (\<lambda>c. of_char c - 48) (drop 2 n)))"

fun times_two :: "nat list \<Rightarrow> nat list \<times> nat" where
  "times_two [] = ([], 0)"
| "times_two (d # ds) =
     (case times_two ds of
        (ds', carry_last) \<Rightarrow> (((2 * d) mod 10 + carry_last) # ds', if 5 \<le> d then 1 else 0))"

definition is_zero :: "nat list \<Rightarrow> bool" where
  "is_zero v \<longleftrightarrow> list_all (\<lambda>i. i = 0) v"

function decay_loop :: "nat list \<Rightarrow> nat \<Rightarrow> nat list \<Rightarrow> nat list \<times> nat \<times> bool" where
  "decay_loop nxt index result =
     (if is_zero nxt then (result, index, True)
      else (case times_two nxt of
              (nxt', carry) \<Rightarrow>
                (let result' = (if carry = 0 then result @ [index] else result)
                 in if 63 \<le> index then (result', index, False)
                    else decay_loop nxt' (index + 1) result')))"
  by auto
termination by (relation "measure (\<lambda>(nxt, index, result). 63 - index)") auto

definition decay_params :: "string \<Rightarrow> u64 list option" where
  "decay_params k =
     (case frac_vec k of
        None \<Rightarrow> None
      | Some nxt \<Rightarrow>
          (case decay_loop nxt 1 [] of
             (result, index, exact) \<Rightarrow>
               Some (map of_nat (if exact then result @ [index - 1] else result))))"

subsection \<open>Specification\<close>

definition decay_sum :: "u64 list \<Rightarrow> nat \<Rightarrow> nat" where
  "decay_sum ds r = (\<Sum>i\<leftarrow>ds. r div 2 ^ unat i)"

fun reward_spec :: "emission_schedule \<Rightarrow> nat \<Rightarrow> nat" where
  "reward_spec s 0 = unat (initial s)"
| "reward_spec s (Suc n) =
     max (reward_spec s n - decay_sum (decay s) (reward_spec s n)) (unat (tail s))"

fun supply_spec :: "emission_schedule \<Rightarrow> nat \<Rightarrow> nat" where
  "supply_spec s 0 = reward_spec s 0"
| "supply_spec s (Suc n) = supply_spec s n + reward_spec s (Suc n)"

text \<open>A decay is proper when its shifts are below 64 and its powers of two add up to at most one.\<close>

definition decay_weight :: "u64 list \<Rightarrow> nat" where
  "decay_weight ds = (\<Sum>i\<leftarrow>ds. 2 ^ (64 - unat i))"

definition proper_decay :: "u64 list \<Rightarrow> bool" where
  "proper_decay ds \<longleftrightarrow> list_all (\<lambda>i. i < 64) ds \<and> decay_weight ds \<le> 2 ^ 64"

lemma decay_sum_simps [simp]:
  "decay_sum [] r = 0" "decay_sum (i # js) r = r div 2 ^ unat i + decay_sum js r"
  by (simp_all add: decay_sum_def)

lemma decay_weight_simps [simp]:
  "decay_weight [] = 0" "decay_weight (i # js) = 2 ^ (64 - unat i) + decay_weight js"
  by (simp_all add: decay_weight_def)

lemma decay_weight_append [simp]: "decay_weight (xs @ ys) = decay_weight xs + decay_weight ys"
  by (simp add: decay_weight_def)

lemma unat_less_64: "i < (64 :: u64) \<longleftrightarrow> unat i < 64"
  by (simp add: word_less_nat_alt)

lemma decay_sum_weight:
  assumes "list_all (\<lambda>i. i < 64) ds"
  shows "2 ^ 64 * decay_sum ds r \<le> r * decay_weight ds"
  using assms
proof (induction ds)
  case (Cons i ds)
  then have i: "unat i < 64" by (simp add: unat_less_64)
  have pw: "(2 :: nat) ^ 64 = 2 ^ unat i * 2 ^ (64 - unat i)"
    using i by (simp only: flip: power_add) simp
  have "2 ^ 64 * (r div 2 ^ unat i) = (2 ^ unat i * (r div 2 ^ unat i)) * 2 ^ (64 - unat i)"
    unfolding pw by (simp only: mult_ac)
  also have "\<dots> \<le> r * 2 ^ (64 - unat i)"
    by (intro mult_right_mono) simp_all
  finally have "2 ^ 64 * (r div 2 ^ unat i) \<le> r * 2 ^ (64 - unat i)" .
  moreover have "2 ^ 64 * decay_sum ds r \<le> r * decay_weight ds" using Cons by simp
  ultimately show ?case unfolding decay_sum_simps decay_weight_simps distrib_left by (rule add_mono)
qed simp

lemma decay_sum_le:
  assumes "proper_decay ds"
  shows "decay_sum ds r \<le> r"
proof -
  have "2 ^ 64 * decay_sum ds r \<le> r * decay_weight ds"
    using assms decay_sum_weight by (simp add: proper_decay_def)
  also have "\<dots> \<le> 2 ^ 64 * r"
    using assms by (simp add: proper_decay_def mult.commute)
  finally show ?thesis by simp
qed

lemma reward_spec_bound: "reward_spec s n \<le> max (unat (initial s)) (unat (tail s))"
  by (induction n) auto

lemma supply_spec_bound: "supply_spec s n \<le> Suc n * max (unat (initial s)) (unat (tail s))"
proof (induction n)
  case (Suc n)
  from Suc reward_spec_bound [of s "Suc n"] show ?case
    unfolding supply_spec.simps by (simp del: reward_spec.simps add: algebra_simps)
qed (simp del: reward_spec.simps(2))

lemma supply_spec_mono: "m \<le> n \<Longrightarrow> supply_spec s m \<le> supply_spec s n"
  by (induction n) (auto simp del: reward_spec.simps simp: le_Suc_eq)

subsection \<open>One step of the iterator\<close>

lemma decay_fold_ok:
  assumes "list_all (\<lambda>i. i < 64) ds" and "decay_sum ds (unat r) \<le> unat acc"
  shows "\<exists>v. decay_fold r ds acc = Ok v \<and> unat v = unat acc - decay_sum ds (unat r)"
  using assms
proof (induction ds arbitrary: acc)
  case (Cons i ds)
  then have i: "unat i < 64" by (simp add: unat_less_64)
  let ?p = "drop_bit (unat i) r"
  have p: "unat ?p = unat r div 2 ^ unat i" by (rule unat_drop_bit_u64)
  have "unat ?p \<le> unat acc" using Cons.prems(2) p by simp
  from sub_u64_ok [OF this]
  have s: "sub_u64 acc ?p = (Ok (acc - ?p) :: (unit, u64) outcome)" "unat (acc - ?p) = unat acc - unat ?p"
    by auto
  have "decay_sum ds (unat r) \<le> unat (acc - ?p)" using Cons.prems(2) p s(2) by simp
  with Cons.IH [of "acc - ?p"] Cons.prems(1) s p i show ?case by (auto simp: shr_u64_ok)
qed simp

definition rate_at :: "emission_schedule \<Rightarrow> nat \<Rightarrow> emission_rate \<Rightarrow> bool" where
  "rate_at s n it \<longleftrightarrow> schedule it = s \<and> unat (block_num it) = n \<and>
     unat (reward it) = reward_spec s n \<and> unat (rate_supply it) = supply_spec s n"

lemma rate_at_iter: "rate_at s 0 (emission_iter s)"
  by (simp add: rate_at_def emission_iter_def)

lemma next_reward_spec:
  assumes "proper_decay (decay (schedule it))"
  shows "\<exists>r. next_reward it = Ok r \<and>
    unat r = max (unat (reward it) - decay_sum (decay (schedule it)) (unat (reward it))) (unat (tail (schedule it)))"
  using decay_fold_ok [of "decay (schedule it)" "reward it" "reward it"] assms decay_sum_le [OF assms]
  by (auto simp: next_reward_def proper_decay_def max_unat)

lemma rate_next_step:
  assumes "proper_decay (decay s)" and "rate_at s n it" and "Suc n < 2 ^ 64" and "supply_spec s (Suc n) < 2 ^ 64"
  shows "\<exists>x it'. rate_next it = Ok (Some x, it') \<and> rate_at s (Suc n) it'"
proof -
  from assms(2) have it: "schedule it = s" "unat (block_num it) = n" "unat (reward it) = reward_spec s n"
    "unat (rate_supply it) = supply_spec s n" by (auto simp: rate_at_def)
  obtain r where r: "next_reward it = (Ok r :: (unit, micro_tari) outcome)" "unat r = reward_spec s (Suc n)"
    using next_reward_spec [of it] assms(1) it by auto
  have "unat (rate_supply it) + unat r < 2 ^ 64" using it r assms(4) by simp
  then obtain v where v: "checked_add_u64 (rate_supply it) r = Some v" "unat v = supply_spec s (Suc n)"
    using it r by (cases "checked_add_u64 (rate_supply it) r") (auto simp: u64_simps)
  have "unat (block_num it) + unat (1 :: u64) < 2 ^ 64" using it assms(3) by simp
  from add_u64_ok [OF this] obtain b where b: "add_u64 (block_num it) 1 = (Ok b :: (unit, u64) outcome)" "unat b = Suc n"
    using it by auto
  have "rate_next it = (Ok (Some (b, r, v), it\<lparr>reward := r, rate_supply := v, block_num := b\<rparr>) :: (unit, _) outcome)"
    by (simp add: rate_next_def r(1) mt_checked_add_def v(1) b(1))
  moreover have "rate_at s (Suc n) (it\<lparr>reward := r, rate_supply := v, block_num := b\<rparr>)"
    using it r(2) v(2) b(2) by (simp add: rate_at_def)
  ultimately show ?thesis by blast
qed

lemma emission_loop_ok:
  assumes "proper_decay (decay s)" and "rate_at s n it" and "n \<le> unat height"
    and "supply_spec s (unat height) < 2 ^ 64"
  shows "\<exists>it'. emission_loop height it = Some (Ok it') \<and> rate_at s (unat height) it'"
  using assms(2,3)
proof (induction "unat height - n" arbitrary: n it)
  case 0
  then have "\<not> block_num it < height" "n = unat height" by (simp_all add: rate_at_def word_less_nat_alt)
  with 0 show ?case by (simp add: emission_loop.simps)
next
  case (Suc k)
  then have "block_num it < height" "Suc n \<le> unat height" by (simp_all add: rate_at_def word_less_nat_alt)
  moreover have "Suc n < 2 ^ 64" using calculation(2) unat_less_u64 [of height] by simp
  moreover have "supply_spec s (Suc n) < 2 ^ 64"
    using supply_spec_mono [OF calculation(2), of s] assms(4) by linarith
  ultimately obtain x it' where it': "rate_next it = (Ok (Some x, it') :: (unit, _) outcome)" "rate_at s (Suc n) it'"
    using rate_next_step [OF assms(1) Suc.prems(1)] by blast
  have "emission_loop height it = emission_loop height it'"
    using \<open>block_num it < height\<close> it'(1) by (subst emission_loop.simps) simp
  with Suc.hyps(1) [of "Suc n" it'] Suc.hyps(2) it'(2) \<open>Suc n \<le> unat height\<close> show ?case by simp
qed

subsection \<open>The supply limit\<close>

text \<open>
  In the tail era a step whose supply does not fit returns \<open>None\<close> and leaves the state as it was, so the
  loop of \<open>block_reward\<close> repeats it for ever.
\<close>

definition tail_stuck :: "emission_rate \<Rightarrow> bool" where
  "tail_stuck it \<longleftrightarrow> proper_decay (decay (schedule it)) \<and> reward it = tail (schedule it) \<and>
     2 ^ 64 \<le> unat (rate_supply it) + unat (tail (schedule it))"

lemma tail_stuck_step:
  assumes "tail_stuck it"
  shows "rate_next it = Ok (None, it)"
proof -
  have "next_reward it = (Ok (tail (schedule it)) :: (unit, micro_tari) outcome)"
    using next_reward_spec [of it] assms by (auto simp: tail_stuck_def word_unat_eq_iff)
  moreover have "mt_checked_add (rate_supply it) (tail (schedule it)) = None"
    using assms by (simp add: mt_checked_add_def tail_stuck_def u64_simps)
  moreover have "it\<lparr>reward := tail (schedule it)\<rparr> = it"
    using assms by (simp add: tail_stuck_def)
  ultimately show ?thesis by (simp add: rate_next_def)
qed

lemma emission_loop_stuck_aux:
  assumes "emission_loop height it = Some y"
  shows "\<not> (block_num it < height \<and> tail_stuck it)"
proof (rule emission_loop.raw_induct [of "\<lambda>h it y. \<not> (block_num it < h \<and> tail_stuck it)", OF _ assms])
  fix loop h it y
  assume IH: "\<And>h it y. loop h it = Some y \<Longrightarrow> \<not> (block_num it < h \<and> tail_stuck it)"
    and step: "(if block_num it < h
      then (case rate_next it of Ok (x, it') \<Rightarrow> loop h it' | Err e \<Rightarrow> Some (Err e) | Panic \<Rightarrow> Some Panic)
      else Some (Ok it)) = Some y"
  show "\<not> (block_num it < h \<and> tail_stuck it)"
    using IH [of h it y] step by (auto simp: tail_stuck_step)
qed

lemma emission_loop_diverges: "tail_stuck it \<Longrightarrow> block_num it < height \<Longrightarrow> emission_loop height it = None"
  using emission_loop_stuck_aux by (cases "emission_loop height it") auto

lemma emission_loop_to:
  assumes "proper_decay (decay s)" and "rate_at s 0 it" and "n \<le> unat height" and "supply_spec s n < 2 ^ 64"
  shows "\<exists>it'. rate_at s n it' \<and> emission_loop height it = emission_loop height it'"
  using assms(3,4)
proof (induction n)
  case 0
  then show ?case using assms(2) by blast
next
  case (Suc n)
  have "supply_spec s n < 2 ^ 64" using supply_spec_mono [of n "Suc n" s] Suc.prems(2) by linarith
  with Suc.IH Suc.prems obtain it' where it': "rate_at s n it'" "emission_loop height it = emission_loop height it'"
    by auto
  have "Suc n < 2 ^ 64" using Suc.prems(1) unat_less_u64 [of height] by simp
  from rate_next_step [OF assms(1) it'(1) this Suc.prems(2)] obtain x it''
    where it'': "rate_next it' = (Ok (Some x, it'') :: (unit, _) outcome)" "rate_at s (Suc n) it''" by blast
  have "block_num it' < height" using it'(1) Suc.prems(1) by (simp add: rate_at_def word_less_nat_alt)
  then have "emission_loop height it' = emission_loop height it''"
    using it''(1) by (subst emission_loop.simps) simp
  with it'(2) it''(2) show ?case by auto
qed

subsection \<open>Decay parameters denote the complement of the fraction\<close>

fun dec_value :: "nat list \<Rightarrow> nat" where
  "dec_value [] = 0"
| "dec_value (d # ds) = d * 10 ^ length ds + dec_value ds"

lemma dec_value_less: "list_all (\<lambda>d. d < 10) ds \<Longrightarrow> dec_value ds < 10 ^ length ds"
proof (induction ds)
  case (Cons d ds)
  then have "d * 10 ^ length ds \<le> 9 * 10 ^ length ds" by (intro mult_right_mono) auto
  moreover have "dec_value ds < 10 ^ length ds" using Cons by simp
  ultimately show ?case unfolding dec_value.simps length_Cons power_Suc by linarith
qed simp

lemma dec_value_zero: "dec_value ds = 0 \<longleftrightarrow> is_zero ds"
  by (induction ds) (auto simp: is_zero_def)

lemma times_two_spec:
  assumes "list_all (\<lambda>d. d < 10) ds" and "times_two ds = (ds', c)"
  shows "dec_value ds' + c * 10 ^ length ds = 2 * dec_value ds \<and> length ds' = length ds \<and>
     list_all (\<lambda>d. d < 10) ds' \<and> c \<le> 1"
  using assms
proof (induction ds arbitrary: ds' c)
  case (Cons d ds)
  obtain es b where r: "times_two ds = (es, b)" by (cases "times_two ds")
  with Cons have IH: "dec_value es + b * 10 ^ length ds = 2 * dec_value ds" "length es = length ds"
    "list_all (\<lambda>d. d < 10) es" "b \<le> 1" by auto
  have d: "d < 10" using Cons.prems(1) by simp
  have e: "ds' = ((2 * d) mod 10 + b) # es" "c = (if 5 \<le> d then 1 else 0)"
    using Cons.prems(2) r by auto
  have m: "(2 * d) mod 10 + 10 * c = 2 * d" "(2 * d) mod 10 \<le> 8" using d e(2) by presburger+
  have "dec_value ds' + c * 10 ^ length (d # ds) =
      ((2 * d) mod 10 + 10 * c) * 10 ^ length ds + (dec_value es + b * 10 ^ length ds)"
    using e(1) IH(2) by (simp add: algebra_simps)
  also have "\<dots> = 2 * dec_value (d # ds)" using m(1) IH(1) by simp
  finally show ?case using e IH m(2) by auto
qed simp

text \<open>
  \<open>decay_weight\<close> counts in units of $2^{-64}$. From index \<open>i\<close> the loop adds the complement of the remaining
  fraction \<open>v / n\<close> scaled to $2^{-(i-1)}$, up to two units.
\<close>

declare decay_loop.simps [simp del]

lemma decay_loop_spec:
  assumes "list_all (\<lambda>d. d < 10) nxt" and "1 \<le> i" and "i \<le> 63" and "list_all (\<lambda>x. x \<le> 63) res"
    and "decay_loop nxt i res = (out, j, exact)"
    and "n = 10 ^ length nxt" and "final = (if exact then out @ [j - 1] else out)"
  shows "list_all (\<lambda>x. x \<le> 63) final \<and>
    n * (\<Sum>x\<leftarrow>final. 2 ^ (64 - x)) \<le> n * (\<Sum>x\<leftarrow>res. 2 ^ (64 - x)) + 2 ^ (65 - i) * (n - dec_value nxt) \<and>
    n * (\<Sum>x\<leftarrow>res. 2 ^ (64 - x)) + 2 ^ (65 - i) * (n - dec_value nxt) \<le> n * ((\<Sum>x\<leftarrow>final. 2 ^ (64 - x)) + 2)"
  using assms
proof (induction nxt i res rule: decay_loop.induct)
  case (1 nxt i res)
  show ?case
  proof (cases "is_zero nxt")
    case True
    then have "dec_value nxt = 0" by (simp add: dec_value_zero)
    moreover from True 1(6) have "out = res" "j = i" "exact" by (simp_all add: decay_loop.simps [of nxt])
    moreover have "64 - (i - 1) = 65 - i" using 1(3,4) by simp
    ultimately show ?thesis using 1(3-5,7,8) by (auto simp: algebra_simps)
  next
    case False
    obtain nxt' c where t: "times_two nxt = (nxt', c)" by (cases "times_two nxt")
    from times_two_spec [OF 1(2) t] have T: "dec_value nxt' + c * n = 2 * dec_value nxt" "length nxt' = length nxt"
      "list_all (\<lambda>d. d < 10) nxt'" "c \<le> 1" using 1(7) by auto
    have b: "dec_value nxt < n" "dec_value nxt' < n"
      using dec_value_less [OF 1(2)] dec_value_less [OF T(3)] T(2) 1(7) by simp_all
    define res' where "res' = (if c = 0 then res @ [i] else res)"
    have R: "list_all (\<lambda>x. x \<le> 63) res'" using 1(4,5) by (simp add: res'_def)
    have S: "(\<Sum>x\<leftarrow>res'. 2 ^ (64 - x)) = (\<Sum>x\<leftarrow>res. 2 ^ (64 - x)) + (1 - c) * 2 ^ (64 - i)"
      using T(4) by (auto simp: res'_def)
    have U: "(2 :: nat) ^ (65 - i) = 2 * 2 ^ (64 - i)"
      using 1(4) by (simp add: Suc_diff_le flip: power_Suc)
    have E: "n * ((1 - c) * 2 ^ (64 - i)) + 2 ^ (64 - i) * (n - dec_value nxt') = 2 ^ (65 - i) * (n - dec_value nxt)"
    proof -
      have "(1 - c) * n + (n - dec_value nxt') = 2 * (n - dec_value nxt)"
        using T(1,4) b by (cases c) auto
      then have "2 ^ (64 - i) * ((1 - c) * n + (n - dec_value nxt')) = 2 ^ (64 - i) * (2 * (n - dec_value nxt))" by simp
      then show ?thesis unfolding U by (simp add: algebra_simps)
    qed
    show ?thesis
    proof (cases "63 \<le> i")
      case True
      then have i: "i = 63" using 1(4) by simp
      have o: "final = res'" using 1(6,8) False t i by (auto simp: Let_def res'_def decay_loop.simps [of nxt])
      from E have E': "2 ^ (65 - i) * (n - dec_value nxt) = n * ((1 - c) * 2 ^ (64 - i)) + 2 * (n - dec_value nxt')"
        using i by simp
      show ?thesis unfolding o S E' using R by (simp add: distrib_left)
    next
      case i: False
      then have rec: "decay_loop nxt' (i + 1) res' = (out, j, exact)"
        using 1(6) False t i by (simp add: Let_def res'_def decay_loop.simps [of nxt])
      have e: "65 - (i + 1) = 64 - i" by simp
      have "1 \<le> i + 1" "i + 1 \<le> 63" "n = 10 ^ length nxt'" using i T(2) 1(7) by simp_all
      from 1(1) [OF False t [symmetric] res'_def i T(3) this(1,2) R rec this(3) 1(8)]
      show ?thesis unfolding S e E [symmetric] distrib_left by linarith
    qed
  qed
qed

text \<open>The digits after \<open>"0."\<close> as a number.\<close>

definition frac_value :: "string \<Rightarrow> nat" where
  "frac_value k = foldl (\<lambda>v c. 10 * v + (of_char c - 48)) 0 (drop 2 k)"

lemma foldl_dec_value:
  "foldl (\<lambda>v c. 10 * v + (of_char c - 48)) a cs = a * 10 ^ length cs + dec_value (map (\<lambda>c. of_char c - 48) cs)"
  by (induction cs arbitrary: a) (simp_all add: algebra_simps)

lemma frac_vec_Some:
  assumes "frac_vec k = Some ds"
  shows "list_all (\<lambda>d. d < 10) ds \<and> length ds = length (drop 2 k) \<and> dec_value ds = frac_value k"
proof -
  from assms have "list_all is_ascii_digit (drop 2 k)" "ds = map (\<lambda>c. of_char c - 48) (drop 2 k)"
    by (auto simp: frac_vec_def split: if_splits)
  moreover have "list_all (\<lambda>d. d < 10) (map (\<lambda>c. of_char c - (48 :: nat)) cs)" if "list_all is_ascii_digit cs" for cs
    using that by (induction cs) (auto simp: is_ascii_digit_def)
  ultimately show ?thesis by (simp add: frac_value_def foldl_dec_value)
qed

lemma decay_weight_of_nat:
  "list_all (\<lambda>x. x \<le> 63) xs \<Longrightarrow>
     decay_weight (map of_nat xs) = (\<Sum>x\<leftarrow>xs. 2 ^ (64 - x)) \<and> list_all (\<lambda>i. i < 64) (map of_nat xs :: u64 list)"
  by (induction xs) (simp_all add: unat_of_nat unat_less_64)

lemma decay_params_bounds:
  assumes "decay_params k = Some ds" and "n = 10 ^ length (drop 2 k)"
  shows "list_all (\<lambda>i. i < 64) ds \<and> n * decay_weight ds \<le> 2 ^ 64 * (n - frac_value k) \<and>
     2 ^ 64 * (n - frac_value k) \<le> n * (decay_weight ds + 2)"
proof -
  from assms(1) obtain nxt where nxt: "frac_vec k = Some nxt"
    by (auto simp: decay_params_def split: option.splits)
  obtain out j exact where l: "decay_loop nxt 1 [] = (out, j, exact)" by (cases "decay_loop nxt 1 []")
  let ?final = "if exact then out @ [j - 1] else out"
  have ds: "ds = map of_nat ?final" using assms(1) nxt l by (simp add: decay_params_def)
  from frac_vec_Some [OF nxt] have f: "list_all (\<lambda>d. d < 10) nxt" "length nxt = length (drop 2 k)"
    "dec_value nxt = frac_value k" by auto
  have "n = 10 ^ length nxt" using assms(2) f(2) by simp
  from decay_loop_spec [OF f(1) _ _ _ l this refl] have L: "list_all (\<lambda>x. x \<le> 63) ?final"
    "n * (\<Sum>x\<leftarrow>?final. 2 ^ (64 - x)) \<le> 2 ^ 64 * (n - frac_value k)"
    "2 ^ 64 * (n - frac_value k) \<le> n * ((\<Sum>x\<leftarrow>?final. 2 ^ (64 - x)) + 2)"
    using f(3) by simp_all
  from decay_weight_of_nat [OF L(1)] L(2,3) show ?thesis unfolding ds by simp
qed

lemma decay_params_proper:
  assumes "decay_params k = Some ds"
  shows "proper_decay ds"
proof -
  let ?n = "10 ^ length (drop 2 k) :: nat"
  from decay_params_bounds [OF assms refl] have ds: "list_all (\<lambda>i. i < 64) ds"
    and "?n * decay_weight ds \<le> 2 ^ 64 * (?n - frac_value k)" by blast+
  note this(2)
  also have "2 ^ 64 * (?n - frac_value k) \<le> ?n * 2 ^ 64" by simp
  finally have "decay_weight ds \<le> 2 ^ 64" by (simp only: mult_le_cancel1) simp
  with ds show ?thesis by (simp add: proper_decay_def)
qed

section \<open>Properties\<close>

text \<open>
  (C11) The iteration computes the documented formula: when the decay shifts are below 64 and their powers of
  two add up to at most one, and the supply up to the height fits in 64 bits, \<open>block_reward\<close> and
  \<open>supply_at_block\<close> return (they do not panic and do not loop), and their values are
  $r_n = \max(r_{n-1} - \sum_i \lfloor r_{n-1} / 2^{k_i} \rfloor, t)$ and the sum of those rewards.
\<close>

theorem emission_correct:
  assumes "proper_decay (decay s)" and "supply_spec s (unat height) < 2 ^ 64"
  shows "\<exists>r v. block_reward s height = Some (Ok r) \<and> unat r = reward_spec s (unat height) \<and>
     supply_at_block s height = Some (Ok v) \<and> unat v = supply_spec s (unat height)"
  using emission_loop_ok [OF assms(1) rate_at_iter _ assms(2)]
  by (auto simp: block_reward_def supply_at_block_def rate_at_def)

theorem emission_correct_witness:
  "\<exists>r v. block_reward \<lparr>initial = 10, decay = [3], tail = 1\<rparr> 2 = Some (Ok r) \<and> unat r = 8 \<and>
     supply_at_block \<lparr>initial = 10, decay = [3], tail = 1\<rparr> 2 = Some (Ok v) \<and> unat v = 27"
proof -
  have two: "unat (2 :: u64) = Suc (Suc 0)" by simp
  show ?thesis
    using emission_correct [of "\<lparr>initial = 10, decay = [3], tail = 1\<rparr>" 2]
    unfolding two by (simp add: proper_decay_def)
qed

text \<open>
  (C12) The supply limit is not handled: once the reward has reached the tail emission and the next block
  would take the supply past \<open>u64::MAX\<close>, \<open>block_reward\<close> and \<open>supply_at_block\<close> do not return for any greater
  height, because \<open>next\<close> returns \<open>None\<close> without advancing the block number that the loops test.
\<close>

theorem emission_diverges:
  assumes "proper_decay (decay s)" and "supply_spec s n < 2 ^ 64" and "reward_spec s n = unat (tail s)"
    and "2 ^ 64 \<le> supply_spec s n + unat (tail s)" and "n < unat height"
  shows "block_reward s height = None \<and> supply_at_block s height = None"
proof -
  from emission_loop_to [OF assms(1) rate_at_iter _ assms(2)] assms(5) obtain it
    where it: "rate_at s n it" "emission_loop height (emission_iter s) = emission_loop height it" by (meson less_imp_le)
  then have "tail_stuck it" "block_num it < height"
    using assms by (simp_all add: tail_stuck_def rate_at_def word_unat_eq_iff word_less_nat_alt)
  with it(2) show ?thesis by (simp add: block_reward_def supply_at_block_def emission_loop_diverges)
qed

theorem emission_diverges_witness:
  "block_reward \<lparr>initial = 2 ^ 63, decay = [1], tail = 2 ^ 63\<rparr> 1 = None \<and>
   supply_at_block \<lparr>initial = 2 ^ 63, decay = [1], tail = 2 ^ 63\<rparr> 1 = None"
  by (rule emission_diverges [of _ 0]) (simp_all add: proper_decay_def)

text \<open>
  The decay parameters computed from a decimal fraction \<open>k\<close> are valid for \<open>EmissionSchedule::new\<close> and
  denote the complement of \<open>k\<close>: the sum $\sum_i 2^{-k_i}$ is at most $1 - k$ and falls short of it by at most
  $2^{-63}$. With them the subtraction of \<open>next_reward\<close> never underflows.
\<close>

theorem decay_params_correct:
  assumes "decay_params k = Some ds"
  shows "emission_new ini ds tai = Ok \<lparr>initial = ini, decay = ds, tail = tai\<rparr> \<and>
     10 ^ length (drop 2 k) * decay_weight ds \<le> 2 ^ 64 * (10 ^ length (drop 2 k) - frac_value k) \<and>
     2 ^ 64 * (10 ^ length (drop 2 k) - frac_value k) \<le> 10 ^ length (drop 2 k) * (decay_weight ds + 2) \<and>
     (\<exists>r. next_reward (emission_iter \<lparr>initial = ini, decay = ds, tail = tai\<rparr>) = Ok r)"
  using decay_params_bounds [OF assms refl]
    next_reward_spec [of "emission_iter \<lparr>initial = ini, decay = ds, tail = tai\<rparr>"] decay_params_proper [OF assms]
  by (auto simp: emission_new_def emission_iter_def)

theorem decay_params_correct_witness:
  "decay_params ''0.75'' = Some [2] \<and>
   10 ^ 2 * decay_weight [2] \<le> 2 ^ 64 * (10 ^ 2 - frac_value ''0.75'')"
proof -
  have "decay_params ''0.75'' = Some [2]"
    by (simp add: decay_params_def frac_vec_def is_ascii_digit_def decay_loop.simps is_zero_def)
  from decay_params_correct [OF this] this show ?thesis by simp
qed

end
