(* ===== verification/Difficulty.thy ===== *)
theory Difficulty
  imports Prelude
begin

text \<open>
  Difficulty adjustment: the linear weighted moving average
  (\<open>src/base_layer/core/src/proof_of_work/lwma_diff.rs\<close>), the window that clamps it
  (\<open>target_difficulty_window.rs\<close>), the \<open>Difficulty\<close> newtype (\<open>difficulty.rs\<close>) and the proof that a target
  was achieved (\<open>target_difficulty.rs\<close>).

  A \<open>u128\<close> is a natural number checked against its width after every operator, as the plain operators do.
  \<open>EpochTime\<close> comes from the \<open>tari_utilities\<close> crate: its \<open>increase\<close> and its subtraction are parameters, and
  \<open>epoch_laws\<close> states what the code relies on, that both are the arithmetic of \<open>u64\<close> where that does not
  overflow.
\<close>

subsection \<open>128-bit arithmetic and times\<close>

definition u128 :: "nat \<Rightarrow> ('e, nat) outcome" where
  "u128 n = (if n < 2 ^ 128 then Ok n else Panic)"

lemma u128_simps [outcome_simps]:
  "u128 n = Ok m \<longleftrightarrow> n < 2 ^ 128 \<and> m = n" "u128 n = Panic \<longleftrightarrow> 2 ^ 128 \<le> n" "u128 n \<noteq> Err e"
  by (auto simp: u128_def)

lemma u128_ok: "n < 2 ^ 128 \<Longrightarrow> u128 n = Ok n"
  by (simp add: u128_def)

record epoch_ops =
  increase :: "u64 \<Rightarrow> u64 \<Rightarrow> (unit, u64) outcome"
  epoch_sub :: "u64 \<Rightarrow> u64 \<Rightarrow> (unit, u64) outcome"

definition epoch_laws :: "epoch_ops \<Rightarrow> bool" where
  "epoch_laws E \<longleftrightarrow>
     (\<forall>t n. unat t + unat n < 2 ^ 64 \<longrightarrow> increase E t n = Ok (t + n)) \<and>
     (\<forall>a b. b \<le> a \<longrightarrow> epoch_sub E a b = Ok (a - b))"

definition sample_epoch :: epoch_ops where
  "sample_epoch = \<lparr>increase = add_u64, epoch_sub = sub_u64\<rparr>"

lemma sample_epoch_laws: "epoch_laws sample_epoch"
  by (auto simp: epoch_laws_def sample_epoch_def add_u64_def checked_add_u64_def u64_of_nat_def
      sub_u64_def checked_sub_u64_def)

subsection \<open>Difficulty\<close>

type_synonym difficulty = u64

definition MIN_DIFFICULTY :: u64 where "MIN_DIFFICULTY = 1"

definition difficulty_min :: difficulty where "difficulty_min = MIN_DIFFICULTY"

definition difficulty_checked_sub :: "difficulty \<Rightarrow> difficulty \<Rightarrow> difficulty option" where
  "difficulty_checked_sub self other = checked_sub_u64 self other"

definition difficulty_div :: "difficulty \<Rightarrow> difficulty \<Rightarrow> ('e, u64) outcome" where
  "difficulty_div self rhs = div_u64 self rhs"

subsection \<open>Linear weighted moving average\<close>

record lwma =
  target_difficulties :: "(u64 \<times> difficulty) list"
  block_window :: nat
  target_time :: u64
  max_block_time :: u64

text \<open>\<open>VecDeque::with_capacity\<close> panics when the capacity in bytes (16 per sample) exceeds \<open>isize::MAX\<close>.\<close>

definition lwma_new :: "nat \<Rightarrow> u64 \<Rightarrow> u64 \<Rightarrow> (unit, lwma) outcome" where
  "lwma_new window t_time max_time =
     (if (window + 1) * 16 \<le> ISIZE_MAX
      then Ok \<lparr>target_difficulties = [], block_window = window, target_time = t_time, max_block_time = max_time\<rparr>
      else Panic)"

fun sum_difficulty :: "nat \<Rightarrow> (u64 \<times> difficulty) list \<Rightarrow> (unit, nat) outcome" where
  "sum_difficulty acc [] = Ok acc"
| "sum_difficulty acc ((_, d) # rest) = and_then (u128 (acc + unat d)) (\<lambda>acc. sum_difficulty acc rest)"

fun weighted_times :: "epoch_ops \<Rightarrow> u64 \<Rightarrow> nat \<Rightarrow> u64 \<Rightarrow> nat \<Rightarrow> (u64 \<times> difficulty) list \<Rightarrow> (unit, nat) outcome" where
  "weighted_times E max_time i previous acc [] = Ok acc"
| "weighted_times E max_time i previous acc ((timestamp, _) # rest) =
     and_then (if previous < timestamp then Ok timestamp else increase E previous 1) (\<lambda>this.
     and_then (epoch_sub E this previous) (\<lambda>elapsed.
     and_then (mul_u64 (min elapsed max_time) (of_nat (i + 1))) (\<lambda>weighted.
     and_then (u128 (acc + unat weighted)) (\<lambda>acc.
     weighted_times E max_time (i + 1) this acc rest))))"

definition lwma_calculate :: "epoch_ops \<Rightarrow> lwma \<Rightarrow> (unit, difficulty option) outcome" where
  "lwma_calculate E self =
     (case target_difficulties self of
        [] \<Rightarrow> Ok None
      | [_] \<Rightarrow> Ok None
      | (first, _) # rest \<Rightarrow>
          (let n = length rest in
           and_then (sum_difficulty 0 rest) (\<lambda>total.
           (let ave_difficulty = total div n in
            and_then (weighted_times E (max_block_time self) 0 first 0 rest) (\<lambda>weighted.
            and_then (u128 (n * (n + 1))) (\<lambda>nn.
            and_then (u128 (nn * unat (target_time self))) (\<lambda>nnt.
            (let k = nnt div 2 in
             and_then (u128 (ave_difficulty * k)) (\<lambda>ak.
             if weighted = 0 then Panic
             else Ok (Some (of_nat (ak div weighted)))))))))))) "

definition num_samples :: "lwma \<Rightarrow> nat" where
  "num_samples self = length (target_difficulties self)"

definition lwma_is_full :: "lwma \<Rightarrow> bool" where
  "lwma_is_full self \<longleftrightarrow> num_samples self = block_window self + 1"

definition lwma_add_front :: "u64 \<Rightarrow> difficulty \<Rightarrow> lwma \<Rightarrow> lwma" where
  "lwma_add_front timestamp target_difficulty self =
     (let self = (if lwma_is_full self
                  then self\<lparr>target_difficulties := butlast (target_difficulties self)\<rparr> else self)
      in self\<lparr>target_difficulties := (timestamp, target_difficulty) # target_difficulties self\<rparr>)"

definition lwma_add_back :: "u64 \<Rightarrow> difficulty \<Rightarrow> lwma \<Rightarrow> lwma" where
  "lwma_add_back timestamp target_difficulty self =
     (let self = (if lwma_is_full self
                  then self\<lparr>target_difficulties := tl (target_difficulties self)\<rparr> else self)
      in self\<lparr>target_difficulties := target_difficulties self @ [(timestamp, target_difficulty)]\<rparr>)"

definition lwma_add :: "u64 \<Rightarrow> difficulty \<Rightarrow> lwma \<Rightarrow> ('e, lwma) outcome" where
  "lwma_add timestamp target_difficulty self = Ok (lwma_add_back timestamp target_difficulty self)"

subsection \<open>The target difficulty window\<close>

definition window_new :: "nat \<Rightarrow> u64 \<Rightarrow> u64 \<Rightarrow> (unit, lwma) outcome" where
  "window_new window t_time max_time = (if 0 < window then lwma_new window t_time max_time else Panic)"

definition window_calculate :: "epoch_ops \<Rightarrow> lwma \<Rightarrow> difficulty \<Rightarrow> difficulty \<Rightarrow> (unit, difficulty) outcome" where
  "window_calculate E self mini maxi =
     and_then (lwma_calculate E self) (\<lambda>d.
     Ok (max mini (min maxi (case d of None \<Rightarrow> mini | Some v \<Rightarrow> v))))"

subsection \<open>Achieved targets\<close>

datatype pow_algorithm = Monero | Sha3

record achieved_target_difficulty =
  pow_algo :: pow_algorithm
  achieved :: difficulty
  target :: difficulty

definition try_construct :: "pow_algorithm \<Rightarrow> difficulty \<Rightarrow> difficulty \<Rightarrow> achieved_target_difficulty option" where
  "try_construct algo tgt ach =
     (if ach < tgt then None else Some \<lparr>pow_algo = algo, achieved = ach, target = tgt\<rparr>)"

subsection \<open>Specification\<close>

text \<open>The clamped solve times of a run of blocks, and their sum weighted by the position.\<close>

fun solve_times :: "nat \<Rightarrow> nat \<Rightarrow> nat list \<Rightarrow> nat list" where
  "solve_times mx prev [] = []"
| "solve_times mx prev (t # ts) =
     (let this = (if prev < t then t else prev + 1) in min (this - prev) mx # solve_times mx this ts)"

fun weight_sum :: "nat \<Rightarrow> nat list \<Rightarrow> nat" where
  "weight_sum i [] = 0"
| "weight_sum i (s # ss) = s * (i + 1) + weight_sum (i + 1) ss"

definition triangle :: "nat \<Rightarrow> nat" where
  "triangle n = n * (n + 1) div 2"

definition ave_spec :: "lwma \<Rightarrow> nat" where
  "ave_spec self =
     sum_list (map (unat \<circ> snd) (tl (target_difficulties self))) div (length (target_difficulties self) - 1)"

definition weight_of_window :: "lwma \<Rightarrow> nat" where
  "weight_of_window self =
     weight_sum 0 (solve_times (unat (max_block_time self)) (unat (fst (hd (target_difficulties self))))
       (map (unat \<circ> fst) (tl (target_difficulties self))))"

definition lwma_spec :: "lwma \<Rightarrow> nat" where
  "lwma_spec self =
     ave_spec self * (triangle (length (target_difficulties self) - 1) * unat (target_time self)) div
     weight_of_window self"

text \<open>
  The limits within which no operator of \<open>calculate\<close> overflows: at least two samples, a positive maximal
  block time that still fits after the largest weight, and timestamps that can be increased once per sample.
\<close>

definition lwma_in_range :: "lwma \<Rightarrow> bool" where
  "lwma_in_range self \<longleftrightarrow>
     (let n = length (target_difficulties self) - 1 in
      1 \<le> n \<and> 1 \<le> unat (max_block_time self) \<and> n * unat (max_block_time self) < 2 ^ 64 \<and>
      n * (n + 1) * unat (target_time self) < 2 ^ 64 \<and>
      list_all (\<lambda>(t, _). unat t + n < 2 ^ 64) (target_difficulties self))"

lemma length_solve_times [simp]: "length (solve_times mx p ts) = length ts"
  by (induction ts arbitrary: p) (simp_all add: Let_def)

lemma solve_times_range: "1 \<le> mx \<Longrightarrow> s \<in> set (solve_times mx p ts) \<Longrightarrow> 1 \<le> s \<and> s \<le> mx"
  by (induction ts arbitrary: p) (auto simp: Let_def split: if_splits)

lemma solve_times_const:
  assumes "0 < d" and "d \<le> mx"
  shows "solve_times mx p (map (\<lambda>i. p + d * (i + 1)) [0..<n]) = replicate n d"
  using assms
proof (induction n arbitrary: p)
  case (Suc n)
  have "map (\<lambda>i. p + d * (i + 1)) [0..<Suc n] = (p + d) # map (\<lambda>i. (p + d) + d * (i + 1)) [0..<n]"
    by (simp add: map_upt_Suc algebra_simps del: upt_Suc)
  with Suc show ?case by (simp add: Let_def)
qed simp

lemma solve_times_late:
  "1 \<le> mx \<Longrightarrow> list_all (\<lambda>t. t \<le> p) ts \<Longrightarrow> solve_times mx p ts = replicate (length ts) 1"
proof (induction ts arbitrary: p)
  case (Cons t ts)
  from Cons.prems(2) have "list_all (\<lambda>t. t \<le> p + 1) ts" by (auto simp: list_all_iff)
  with Cons show ?case by (auto simp: Let_def min_def)
qed simp

lemma weight_sum_replicate: "2 * weight_sum i (replicate n d) = d * (n * (2 * i + n + 1))"
  by (induction n arbitrary: i) (simp_all add: algebra_simps)

lemma two_triangle: "2 * triangle n = n * (n + 1)"
  by (simp add: triangle_def)

lemma weight_sum_const: "weight_sum 0 (replicate n d) = d * triangle n"
proof -
  have "2 * weight_sum 0 (replicate n d) = d * (2 * triangle n)"
    using weight_sum_replicate [of 0 n d] unfolding two_triangle by simp
  then show ?thesis by simp
qed

lemma weight_sum_mono:
  "list_all2 (\<le>) ss ts \<Longrightarrow> weight_sum i ss \<le> weight_sum i ts"
  by (induction ss ts arbitrary: i rule: list_all2_induct) (auto intro: add_mono mult_right_mono)

lemma weight_sum_bounds:
  assumes "\<And>s. s \<in> set ss \<Longrightarrow> 1 \<le> s \<and> s \<le> mx"
  shows "triangle (length ss) \<le> weight_sum 0 ss \<and> weight_sum 0 ss \<le> mx * triangle (length ss)"
proof -
  have "list_all2 (\<le>) (replicate (length ss) 1) ss" "list_all2 (\<le>) ss (replicate (length ss) mx)"
    using assms by (auto simp: list_all2_conv_all_nth)
  from this [THEN weight_sum_mono, of 0] show ?thesis
    by (simp add: weight_sum_const [of "length ss" 1, simplified] weight_sum_const)
qed

subsection \<open>The calculation implements the specification\<close>

lemma sum_difficulty_ok:
  "acc + length xs * 2 ^ 64 \<le> 2 ^ 128 \<Longrightarrow> xs \<noteq> [] \<or> acc < 2 ^ 128 \<Longrightarrow>
     sum_difficulty acc xs = Ok (acc + sum_list (map (unat \<circ> snd) xs))"
proof (induction xs arbitrary: acc)
  case (Cons x xs)
  obtain t d where x: "x = (t, d)" by (cases x)
  have d: "unat d < 2 ^ 64" using unat_less_u64 [of d] by simp
  then have "acc + unat d < 2 ^ 128" "acc + unat d + length xs * 2 ^ 64 \<le> 2 ^ 128" using Cons.prems(1) by simp_all
  with Cons.IH [of "acc + unat d"] show ?case by (simp add: x u128_ok)
qed simp

lemma weighted_times_ok:
  assumes "epoch_laws E" and "1 \<le> unat mx" and "(i + length xs) * unat mx < 2 ^ 64"
    and "unat prev + length xs < 2 ^ 64" and "list_all (\<lambda>(t, _). unat t + length xs < 2 ^ 64) xs"
    and "acc + length xs * 2 ^ 64 \<le> 2 ^ 128"
  shows "weighted_times E mx i prev acc xs =
     Ok (acc + weight_sum i (solve_times (unat mx) (unat prev) (map (unat \<circ> fst) xs)))"
  using assms(3-)
proof (induction xs arbitrary: i prev acc)
  case (Cons x xs)
  obtain t d where x: "x = (t, d)" by (cases x)
  define cur where "cur = (if prev < t then t else prev + 1)"
  have p1: "unat (prev + 1) = unat prev + 1" if "\<not> prev < t"
    using Cons.prems(2) by (simp add: unat_word_ariths)
  have cur: "unat cur = (if unat prev < unat t then unat t else unat prev + 1)"
    using p1 by (simp add: cur_def word_less_nat_alt)
  have "increase E prev 1 = Ok (prev + 1)"
    using assms(1) Cons.prems(2) by (simp add: epoch_laws_def)
  then have A: "(if prev < t then Ok t else increase E prev 1) = Ok cur" by (simp add: cur_def)
  have le: "prev \<le> cur" using cur by (simp add: word_le_nat_alt)
  then have B: "epoch_sub E cur prev = Ok (cur - prev)" using assms(1) by (simp add: epoch_laws_def)
  have el: "unat (min (cur - prev) mx) = min (unat cur - unat prev) (unat mx)"
    using le by (simp add: min_def word_le_nat_alt unat_sub)
  define s where "s = min (unat cur - unat prev) (unat mx)"
  have "i + length (x # xs) \<le> (i + length (x # xs)) * unat mx"
    using mult_le_mono2 [OF assms(2), of "i + length (x # xs)"] by simp
  with Cons.prems(1) have i: "i + 1 < 2 ^ 64" by simp
  then have ui: "unat (of_nat (i + 1) :: u64) = i + 1" by (simp only: unat_of_nat) simp
  have "s * (i + 1) \<le> unat mx * (i + length (x # xs))" by (intro mult_mono) (simp_all add: s_def)
  with Cons.prems(1) have sm: "s * (i + 1) < 2 ^ 64" by (simp add: mult.commute)
  then have C: "mul_u64 (min (cur - prev) mx) (of_nat (i + 1)) = (Ok (of_nat (s * (i + 1))) :: (unit, u64) outcome)"
    unfolding u64_simps ui el s_def [symmetric] by (simp only: unat_of_nat) simp
  have us: "unat (of_nat (s * (i + 1)) :: u64) = s * (i + 1)" using sm by (simp only: unat_of_nat) simp
  have D: "acc + s * (i + 1) < 2 ^ 128" "acc + s * (i + 1) + length xs * 2 ^ 64 \<le> 2 ^ 128"
    using Cons.prems(4) sm by simp_all
  have "(i + 1 + length xs) * unat mx < 2 ^ 64" using Cons.prems(1) by simp
  moreover have "unat cur + length xs < 2 ^ 64" using cur Cons.prems(2,3) by (auto simp: x)
  moreover have "list_all (\<lambda>(t, _). unat t + length xs < 2 ^ 64) xs"
    using Cons.prems(3) by (auto simp: list_all_iff)
  ultimately have "weighted_times E mx (i + 1) cur (acc + s * (i + 1)) xs =
      Ok (acc + s * (i + 1) + weight_sum (i + 1) (solve_times (unat mx) (unat cur) (map (unat \<circ> fst) xs)))"
    using Cons.IH D(2) by blast
  then show ?case
    using D(1) by (simp add: x A B C [simplified] us [simplified] u128_ok Let_def s_def [symmetric] cur [symmetric] comp_def)
qed simp

lemma lwma_calculate_ok:
  assumes "epoch_laws E" and "lwma_in_range self"
  shows "lwma_calculate E self = Ok (Some (of_nat (lwma_spec self))) \<and>
     triangle (length (target_difficulties self) - 1) \<le> weight_of_window self \<and>
     weight_of_window self \<le> unat (max_block_time self) * triangle (length (target_difficulties self) - 1)"
proof -
  from assms(2) obtain first d y ys where td: "target_difficulties self = (first, d) # y # ys"
    by (cases "target_difficulties self" rule: list.exhaust [case_names Nil Cons])
      (auto simp: lwma_in_range_def Let_def neq_Nil_conv Suc_le_eq)
  define rest where "rest = y # ys"
  define n where "n = length rest"
  have n: "length (target_difficulties self) - 1 = n" "1 \<le> n" by (simp_all add: td n_def rest_def)
  let ?mx = "max_block_time self" and ?T = "unat (target_time self)"
  from assms(2) have r: "1 \<le> unat ?mx" "n * unat ?mx < 2 ^ 64" "n * (n + 1) * ?T < 2 ^ 64"
    "unat first + n < 2 ^ 64" "list_all (\<lambda>(t, _). unat t + n < 2 ^ 64) rest"
    unfolding lwma_in_range_def Let_def n(1) by (simp_all add: td rest_def)
  have nb: "n < 2 ^ 64" using mult_le_mono2 [OF r(1), of n] r(2) by linarith
  have len: "0 + length rest * 2 ^ 64 \<le> 2 ^ 128" using nb by (simp add: n_def)
  have S: "sum_difficulty 0 rest = Ok (sum_list (map (unat \<circ> snd) rest))"
    using sum_difficulty_ok [OF len] by (simp add: rest_def)
  have wt: "weight_of_window self = weight_sum 0 (solve_times (unat ?mx) (unat first) (map (unat \<circ> fst) rest))"
    by (simp add: weight_of_window_def td rest_def)
  have W: "weighted_times E ?mx 0 first 0 rest = Ok (weight_of_window self)"
    using weighted_times_ok [OF assms(1) r(1), of 0 rest first 0] r len wt by (simp add: n_def)
  have b: "triangle n \<le> weight_of_window self \<and> weight_of_window self \<le> unat ?mx * triangle n"
    using weight_sum_bounds [of "solve_times (unat ?mx) (unat first) (map (unat \<circ> fst) rest)" "unat ?mx"]
      solve_times_range [OF r(1)] by (simp add: wt n_def)
  have t0: "0 < triangle n" using two_triangle [of n] n(2) by (cases "triangle n") simp_all
  have nn: "n * (n + 1) < 2 ^ 128"
  proof -
    have "n * (n + 1) \<le> (2 ^ 64 - 1) * 2 ^ 64" by (rule mult_mono) (use nb in simp_all)
    then show ?thesis by simp
  qed
  have nt: "n * (n + 1) * ?T < 2 ^ 128" by (rule less_trans [OF r(3)]) simp
  have k: "n * (n + 1) * ?T div 2 = triangle n * ?T"
    using two_triangle [of n] by (metis div_mult_self1_is_m mult.assoc zero_less_numeral)
  have ave: "ave_spec self = sum_list (map (unat \<circ> snd) rest) div n"
    by (simp add: ave_spec_def td rest_def n_def)
  have "sum_list (map (unat \<circ> snd) rest) \<le> n * (2 ^ 64 - 1)"
    unfolding n_def by (induction rest) (use unat_le_u64_max in \<open>auto intro: add_mono\<close>)
  then have "ave_spec self \<le> n * (2 ^ 64 - 1) div n" unfolding ave by (rule div_le_mono)
  then have av: "ave_spec self \<le> 2 ^ 64 - 1" using n(2) by simp
  have "ave_spec self * (triangle n * ?T) \<le> (2 ^ 64 - 1) * (2 ^ 64)"
  proof (rule mult_mono [OF av])
    have "triangle n * ?T \<le> n * (n + 1) * ?T" using two_triangle [of n] by (intro mult_right_mono) linarith+
    then show "triangle n * ?T \<le> 2 ^ 64" using r(3) by linarith
  qed simp_all
  then have ak: "ave_spec self * (triangle n * ?T) < 2 ^ 128" by simp
  have "lwma_calculate E self = Ok (Some (of_nat (ave_spec self * (triangle n * ?T) div weight_of_window self)))"
    unfolding lwma_calculate_def td list.case prod.case
    unfolding rest_def [symmetric] n_def [symmetric] Let_def S W
      and_then.simps u128_ok [OF nn] u128_ok [OF nt] k ave [symmetric] u128_ok [OF ak]
    using b t0 by simp
  with b show ?thesis unfolding lwma_spec_def n(1) by blast
qed

lemma lwma_spec_bounds:
  assumes "1 \<le> unat (max_block_time self)" and "0 < triangle n"
    and "triangle n \<le> weight_of_window self" and "weight_of_window self \<le> unat (max_block_time self) * triangle n"
    and "n = length (target_difficulties self) - 1"
  shows "ave_spec self * unat (target_time self) div unat (max_block_time self) \<le> lwma_spec self \<and>
     lwma_spec self \<le> ave_spec self * unat (target_time self)"
proof -
  let ?a = "ave_spec self * unat (target_time self)"
  have e: "ave_spec self * (triangle n * unat (target_time self)) = ?a * triangle n" by simp
  have "?a * triangle n div weight_of_window self \<le> ?a * triangle n div triangle n"
    using assms(2,3) by (intro div_le_mono2) simp_all
  moreover have "?a * triangle n div (unat (max_block_time self) * triangle n) \<le> ?a * triangle n div weight_of_window self"
    using assms(2-4) by (intro div_le_mono2) simp_all
  moreover have "?a * triangle n div (unat (max_block_time self) * triangle n) = ?a div unat (max_block_time self)"
    using assms(2) by (simp only: div_mult_mult2)
  ultimately show ?thesis
    using assms(2) unfolding lwma_spec_def assms(5) [symmetric] e by simp
qed

lemma map_unat_snd_const:
  "list_all (\<lambda>x. snd x = d) xs \<Longrightarrow> map (unat \<circ> snd) xs = replicate (length xs) (unat d)"
  by (induction xs) auto

lemma triangle_pos: "1 \<le> n \<Longrightarrow> 0 < triangle n"
  using two_triangle [of n] by (cases "triangle n") simp_all

lemma lwma_add_back_contents:
  assumes "length (target_difficulties w) \<le> block_window w + 1"
  shows "target_difficulties (lwma_add_back t d w) =
      drop (length (target_difficulties w) + 1 - (block_window w + 1)) (target_difficulties w @ [(t, d)])"
    and "length (target_difficulties (lwma_add_back t d w)) \<le> block_window w + 1"
    and "block_window (lwma_add_back t d w) = block_window w"
  using assms
  by (auto simp: lwma_add_back_def Let_def lwma_is_full_def num_samples_def drop_Suc le_Suc_eq)

lemma lwma_add_backs:
  assumes "length (target_difficulties w) \<le> block_window w + 1"
  shows "target_difficulties (foldl (\<lambda>w (t, d). lwma_add_back t d w) w xs) =
     drop (length (target_difficulties w) + length xs - (block_window w + 1)) (target_difficulties w @ xs)"
  using assms
proof (induction xs arbitrary: w)
  case (Cons x xs)
  obtain t d where x: "x = (t, d)" by (cases x)
  note A = lwma_add_back_contents [OF Cons.prems, of t d]
  have "target_difficulties (foldl (\<lambda>w (t, d). lwma_add_back t d w) w (x # xs)) =
      drop (length (target_difficulties (lwma_add_back t d w)) + length xs - (block_window w + 1))
        (target_difficulties (lwma_add_back t d w) @ xs)"
    using Cons.IH [OF A(2) [folded A(3)]] by (simp add: x A(3))
  also have "\<dots> = drop (length (target_difficulties w) + length (x # xs) - (block_window w + 1)) (target_difficulties w @ x # xs)"
    using Cons.prems unfolding A(1) by (auto simp: x le_Suc_eq)
  finally show ?case .
qed simp

section \<open>Properties\<close>

text \<open>
  (C13) Within the stated ranges the difficulty calculation neither overflows its \<open>u64\<close> and \<open>u128\<close> arithmetic
  nor divides by zero. As long as the average difficulty times the target time fits in 64 bits, the result is
  the documented quotient and the response to any timestamps is bounded: the new target lies between the
  average difficulty scaled by target time over maximal block time and the average scaled by the target time.
\<close>

theorem lwma_correct:
  assumes "epoch_laws E" and "lwma_in_range w" and "ave_spec w * unat (target_time w) < 2 ^ 64"
  shows "\<exists>d. lwma_calculate E w = Ok (Some d) \<and> unat d = lwma_spec w \<and>
     ave_spec w * unat (target_time w) div unat (max_block_time w) \<le> unat d \<and>
     unat d \<le> ave_spec w * unat (target_time w)"
proof -
  have r: "1 \<le> length (target_difficulties w) - 1" "1 \<le> unat (max_block_time w)"
    using assms(2) by (simp_all add: lwma_in_range_def Let_def)
  note ok = lwma_calculate_ok [OF assms(1,2)]
  from lwma_spec_bounds [OF r(2) triangle_pos [OF r(1)] _ _ refl] ok
  have b: "ave_spec w * unat (target_time w) div unat (max_block_time w) \<le> lwma_spec w"
    "lwma_spec w \<le> ave_spec w * unat (target_time w)" by blast+
  then have "unat (of_nat (lwma_spec w) :: u64) = lwma_spec w"
    using assms(3) by (simp only: unat_of_nat) simp
  with ok b show ?thesis by auto
qed

theorem lwma_correct_witness:
  "\<exists>d. lwma_calculate sample_epoch \<lparr>target_difficulties = [(60, 100), (120, 100), (180, 100), (180, 100)],
      block_window = 5, target_time = 60, max_block_time = 360\<rparr> = Ok (Some d) \<and> unat d = 196 \<and>
     16 \<le> unat d \<and> unat d \<le> 6000"
  using lwma_correct [OF sample_epoch_laws, of "\<lparr>target_difficulties = [(60, 100), (120, 100), (180, 100), (180, 100)],
      block_window = 5, target_time = 60, max_block_time = 360\<rparr>"]
  by (simp add: lwma_in_range_def ave_spec_def lwma_spec_def weight_of_window_def triangle_def)

text \<open>
  The steady state is a fixed point: when every block of the window has difficulty \<open>d\<close> and took exactly the
  target time, the next target difficulty is \<open>d\<close>.
\<close>

theorem lwma_steady:
  assumes "epoch_laws E" and "lwma_in_range w" and "0 < unat (target_time w)"
    and "unat (target_time w) \<le> unat (max_block_time w)" and "n = length (target_difficulties w) - 1"
    and "list_all (\<lambda>(_, v). v = d) (tl (target_difficulties w))"
    and "map (unat \<circ> fst) (tl (target_difficulties w)) =
           map (\<lambda>i. unat (fst (hd (target_difficulties w))) + unat (target_time w) * (i + 1)) [0..<n]"
  shows "lwma_calculate E w = Ok (Some d)"
proof -
  have n: "1 \<le> n" using assms(2,5) by (simp add: lwma_in_range_def Let_def)
  have "weight_of_window w = unat (target_time w) * triangle n"
    unfolding weight_of_window_def assms(7) solve_times_const [OF assms(3,4)] weight_sum_const by (rule refl)
  moreover have "map (unat \<circ> snd) (tl (target_difficulties w)) = replicate n (unat d)"
    using map_unat_snd_const [of d "tl (target_difficulties w)"] assms(5,6) by (simp add: split_beta')
  then have "ave_spec w = unat d" using n unfolding ave_spec_def assms(5) [symmetric] by (simp add: sum_list_replicate)
  ultimately have "lwma_spec w = unat d"
    using assms(3) triangle_pos [OF n] unfolding lwma_spec_def assms(5) [symmetric] by simp
  with lwma_calculate_ok [OF assms(1,2)] show ?thesis by simp
qed

theorem lwma_steady_witness:
  "lwma_calculate sample_epoch \<lparr>target_difficulties = [(60, 7), (120, 100), (180, 100)],
      block_window = 5, target_time = 60, max_block_time = 360\<rparr> = Ok (Some 100)"
  by (rule lwma_steady [OF sample_epoch_laws, where n = 2])
    (simp_all add: lwma_in_range_def upt_rec)

text \<open>
  (C14) The conversion of the quotient to \<open>u64\<close> truncates: a window of blocks of difficulty $2^{63}$ whose timestamps
  do not advance gives a target difficulty of zero when the target time is even, although the window asks for a
  higher difficulty than before.
\<close>

theorem lwma_truncates:
  assumes "epoch_laws E" and "lwma_in_range w" and "even (unat (target_time w))"
    and "list_all (\<lambda>(t, v). t \<le> fst (hd (target_difficulties w)) \<and> v = 2 ^ 63) (tl (target_difficulties w))"
  shows "lwma_calculate E w = Ok (Some 0) \<and> lwma_spec w = 2 ^ 63 * unat (target_time w)"
proof -
  define n where "n = length (target_difficulties w) - 1"
  have n: "1 \<le> n" and mx: "1 \<le> unat (max_block_time w)"
    using assms(2) by (simp_all add: lwma_in_range_def Let_def n_def)
  have "list_all (\<lambda>t. t \<le> unat (fst (hd (target_difficulties w)))) (map (unat \<circ> fst) (tl (target_difficulties w)))"
    using assms(4) by (auto simp: list_all_iff word_le_nat_alt)
  from solve_times_late [OF mx this] have wt: "weight_of_window w = triangle n"
    unfolding weight_of_window_def using weight_sum_const [of n 1] by (simp add: n_def)
  have "map (unat \<circ> snd) (tl (target_difficulties w)) = replicate n (2 ^ 63)"
    using map_unat_snd_const [of "2 ^ 63" "tl (target_difficulties w)"] assms(4)
    by (simp add: split_beta' list_all_iff n_def)
  then have "ave_spec w = 2 ^ 63" using n unfolding ave_spec_def n_def [symmetric] by (simp add: sum_list_replicate)
  with wt have spec: "lwma_spec w = 2 ^ 63 * unat (target_time w)"
    using triangle_pos [OF n] unfolding lwma_spec_def n_def [symmetric] by simp
  from assms(3) obtain h where h: "unat (target_time w) = 2 * h" by blast
  have "2 ^ LENGTH(64) dvd lwma_spec w" unfolding spec h by (rule dvdI [of _ _ h]) simp
  then have "(of_nat (lwma_spec w) :: u64) = 0" by (simp only: word_of_nat_eq_0_iff)
  with lwma_calculate_ok [OF assms(1,2)] spec show ?thesis by simp
qed

theorem lwma_truncates_witness:
  "lwma_calculate sample_epoch \<lparr>target_difficulties = [(60, 2 ^ 63), (60, 2 ^ 63)],
      block_window = 90, target_time = 300, max_block_time = 1800\<rparr> = Ok (Some 0)"
  by (rule lwma_truncates [THEN conjunct1, OF sample_epoch_laws])
    (simp_all add: lwma_in_range_def)

text \<open>
  The window holds the most recent samples: after any sequence of \<open>add_back\<close> on a new window, its contents are
  the last \<open>block_window + 1\<close> samples in order.
\<close>

theorem window_holds_latest:
  assumes "window_new n t mx = Ok w"
  shows "target_difficulties (foldl (\<lambda>w (t, d). lwma_add_back t d w) w xs) = drop (length xs - (n + 1)) xs"
proof -
  have "target_difficulties w = []" "block_window w = n"
    using assms by (auto simp: window_new_def lwma_new_def split: if_splits)
  then show ?thesis using lwma_add_backs [of w xs] by simp
qed

theorem window_holds_latest_witness:
  "target_difficulties (foldl (\<lambda>w (t, d). lwma_add_back t d w)
     \<lparr>target_difficulties = [], block_window = 1, target_time = 2, max_block_time = 9\<rparr> [(1, 5), (2, 6), (3, 7)]) = [(2, 6), (3, 7)]"
  using window_holds_latest [of 1 2 9 "\<lparr>target_difficulties = [], block_window = 1, target_time = 2, max_block_time = 9\<rparr>"
      "[(1, 5), (2, 6), (3, 7)]"]
  by (simp add: window_new_def lwma_new_def ISIZE_MAX_def)

text \<open>
  The clamp holds whatever the average: the target difficulty is never below the minimum, and not above the
  maximum when the minimum is at most the maximum; with fewer than two samples it is the minimum.
\<close>

theorem window_calculate_clamped:
  assumes "window_calculate E w mini maxi = Ok d"
  shows "mini \<le> d \<and> (mini \<le> maxi \<longrightarrow> d \<le> maxi) \<and>
     (length (target_difficulties w) \<le> 1 \<and> mini \<le> maxi \<longrightarrow> d = mini)"
proof -
  from assms obtain r where r: "lwma_calculate E w = Ok r"
    "d = max mini (min maxi (case r of None \<Rightarrow> mini | Some v \<Rightarrow> v))"
    by (auto simp: window_calculate_def outcome_simps)
  have "r = None" if "length (target_difficulties w) \<le> 1"
    using r(1) that by (auto simp: lwma_calculate_def le_Suc_eq length_Suc_conv)
  then show ?thesis using r(2) by (auto simp: min_def max_def)
qed

theorem window_calculate_clamped_witness:
  "(5 :: difficulty) \<le> 5 \<and>
   window_calculate sample_epoch \<lparr>target_difficulties = [(1, 9)], block_window = 1, target_time = 2, max_block_time = 9\<rparr> 5 8 = Ok 5"
proof -
  have "window_calculate sample_epoch \<lparr>target_difficulties = [(1, 9)], block_window = 1, target_time = 2, max_block_time = 9\<rparr> 5 8 = Ok 5"
    by (simp add: window_calculate_def lwma_calculate_def)
  from window_calculate_clamped [OF this] this show ?thesis by simp
qed

end
