(* ===== verification/Consensus_Constants.thy ===== *)
theory Consensus_Constants
  imports Aggregate_Body Emission Difficulty
begin

text \<open>
  The consensus constants: \<open>src/base_layer/core/src/consensus/consensus_constants.rs\<close>, \<open>consensus/network.rs\<close>, the
  network names of \<open>src/common/src/configuration/network.rs\<close>, and the epochs of
  \<open>src/base_layer/common_types/src/epoch.rs\<close>.

  A \<open>RangeInclusive\<close> is the pair of its bounds. The map from proof-of-work algorithms to their constants is an
  association list. \<open>now\<close> is the time of the clock in seconds.
\<close>

subsection \<open>Networks\<close>

datatype network = MainNet | StageNet | NextNet | LocalNet | Ridcully | Stibbons | Weatherwax | Igor | Dibbler | Esmeralda

fun network_as_byte :: "network \<Rightarrow> u8" where
  "network_as_byte MainNet = 0x00"
| "network_as_byte StageNet = 0x01"
| "network_as_byte NextNet = 0x02"
| "network_as_byte LocalNet = 0x10"
| "network_as_byte Ridcully = 0x21"
| "network_as_byte Stibbons = 0x22"
| "network_as_byte Weatherwax = 0xa3"
| "network_as_byte Igor = 0x24"
| "network_as_byte Dibbler = 0x25"
| "network_as_byte Esmeralda = 0x26"

fun as_key_str :: "network \<Rightarrow> string" where
  "as_key_str MainNet = ''mainnet''"
| "as_key_str StageNet = ''stagenet''"
| "as_key_str NextNet = ''nextnet''"
| "as_key_str Ridcully = ''ridcully''"
| "as_key_str Stibbons = ''stibbons''"
| "as_key_str Weatherwax = ''weatherwax''"
| "as_key_str Igor = ''igor''"
| "as_key_str Dibbler = ''dibbler''"
| "as_key_str Esmeralda = ''esmeralda''"
| "as_key_str LocalNet = ''localnet''"

text \<open>\<open>to_lowercase\<close> of a string of ASCII characters; the names are ASCII.\<close>

definition ascii_lower :: "char \<Rightarrow> char" where
  "ascii_lower c = (let n = of_char c :: nat in if 65 \<le> n \<and> n \<le> 90 then char_of (n + 32) else c)"

definition network_from_str :: "string \<Rightarrow> network option" where
  "network_from_str v =
     (let s = map ascii_lower v
      in if s = ''ridcully'' then Some Ridcully
         else if s = ''stibbons'' then Some Stibbons
         else if s = ''weatherwax'' then Some Weatherwax
         else if s = ''mainnet'' then Some MainNet
         else if s = ''nextnet'' then Some NextNet
         else if s = ''stagenet'' then Some StageNet
         else if s = ''localnet'' then Some LocalNet
         else if s = ''igor'' then Some Igor
         else if s = ''dibbler'' then Some Dibbler
         else if s = ''esmeralda'' \<or> s = ''esme'' then Some Esmeralda
         else None)"

definition network_from_byte :: "u8 \<Rightarrow> network option" where
  "network_from_byte v =
     List.find (\<lambda>n. network_as_byte n = v)
       [MainNet, StageNet, NextNet, LocalNet, Ridcully, Stibbons, Weatherwax, Igor, Dibbler, Esmeralda]"

subsection \<open>Versions\<close>

text \<open>The derived order of the version enumerations is the order of their variants.\<close>

primrec input_version_rank :: "transaction_input_version \<Rightarrow> nat" where
  "input_version_rank InputV0 = 0"
| "input_version_rank InputV1 = 1"

instantiation transaction_input_version :: linorder
begin

definition less_eq_transaction_input_version :: "transaction_input_version \<Rightarrow> transaction_input_version \<Rightarrow> bool" where
  "less_eq_transaction_input_version a b \<longleftrightarrow> input_version_rank a \<le> input_version_rank b"

definition less_transaction_input_version :: "transaction_input_version \<Rightarrow> transaction_input_version \<Rightarrow> bool" where
  "less_transaction_input_version a b \<longleftrightarrow> input_version_rank a < input_version_rank b"

instance
proof
  fix x y :: transaction_input_version
  show "x \<le> y \<Longrightarrow> y \<le> x \<Longrightarrow> x = y" by (cases x; cases y) (simp_all add: less_eq_transaction_input_version_def)
qed (auto simp: less_eq_transaction_input_version_def less_transaction_input_version_def)

end

primrec output_version_rank :: "transaction_output_version \<Rightarrow> nat" where
  "output_version_rank OutputV0 = 0"
| "output_version_rank OutputV1 = 1"

instantiation transaction_output_version :: linorder
begin

definition less_eq_transaction_output_version :: "transaction_output_version \<Rightarrow> transaction_output_version \<Rightarrow> bool" where
  "less_eq_transaction_output_version a b \<longleftrightarrow> output_version_rank a \<le> output_version_rank b"

definition less_transaction_output_version :: "transaction_output_version \<Rightarrow> transaction_output_version \<Rightarrow> bool" where
  "less_transaction_output_version a b \<longleftrightarrow> output_version_rank a < output_version_rank b"

instance
proof
  fix x y :: transaction_output_version
  show "x \<le> y \<Longrightarrow> y \<le> x \<Longrightarrow> x = y" by (cases x; cases y) (simp_all add: less_eq_transaction_output_version_def)
qed (auto simp: less_eq_transaction_output_version_def less_transaction_output_version_def)

end

primrec features_version_rank :: "output_features_version \<Rightarrow> nat" where
  "features_version_rank FeaturesV0 = 0"
| "features_version_rank FeaturesV1 = 1"

instantiation output_features_version :: linorder
begin

definition less_eq_output_features_version :: "output_features_version \<Rightarrow> output_features_version \<Rightarrow> bool" where
  "less_eq_output_features_version a b \<longleftrightarrow> features_version_rank a \<le> features_version_rank b"

definition less_output_features_version :: "output_features_version \<Rightarrow> output_features_version \<Rightarrow> bool" where
  "less_output_features_version a b \<longleftrightarrow> features_version_rank a < features_version_rank b"

instance
proof
  fix x y :: output_features_version
  show "x \<le> y \<Longrightarrow> y \<le> x \<Longrightarrow> x = y" by (cases x; cases y) (simp_all add: less_eq_output_features_version_def)
qed (auto simp: less_eq_output_features_version_def less_output_features_version_def)

end

primrec kernel_version_rank :: "transaction_kernel_version \<Rightarrow> nat" where
  "kernel_version_rank KernelV0 = 0"

instantiation transaction_kernel_version :: linorder
begin

definition less_eq_transaction_kernel_version :: "transaction_kernel_version \<Rightarrow> transaction_kernel_version \<Rightarrow> bool" where
  "less_eq_transaction_kernel_version a b \<longleftrightarrow> kernel_version_rank a \<le> kernel_version_rank b"

definition less_transaction_kernel_version :: "transaction_kernel_version \<Rightarrow> transaction_kernel_version \<Rightarrow> bool" where
  "less_transaction_kernel_version a b \<longleftrightarrow> kernel_version_rank a < kernel_version_rank b"

instance
proof
  fix x y :: transaction_kernel_version
  show "x \<le> y \<Longrightarrow> y \<le> x \<Longrightarrow> x = y" by (cases x; cases y) (simp_all add: less_eq_transaction_kernel_version_def)
qed (auto simp: less_eq_transaction_kernel_version_def less_transaction_kernel_version_def)

end

primrec opcode_version_rank :: "opcode_version \<Rightarrow> nat" where
  "opcode_version_rank V0 = 0"

instantiation opcode_version :: linorder
begin

definition less_eq_opcode_version :: "opcode_version \<Rightarrow> opcode_version \<Rightarrow> bool" where
  "less_eq_opcode_version a b \<longleftrightarrow> opcode_version_rank a \<le> opcode_version_rank b"

definition less_opcode_version :: "opcode_version \<Rightarrow> opcode_version \<Rightarrow> bool" where
  "less_opcode_version a b \<longleftrightarrow> opcode_version_rank a < opcode_version_rank b"

instance
proof
  fix x y :: opcode_version
  show "x \<le> y \<Longrightarrow> y \<le> x \<Longrightarrow> x = y" by (cases x; cases y) (simp_all add: less_eq_opcode_version_def)
qed (auto simp: less_eq_opcode_version_def less_opcode_version_def)

end

definition range_contains :: "'a :: linorder \<times> 'a \<Rightarrow> 'a \<Rightarrow> bool" where
  "range_contains r x \<longleftrightarrow> fst r \<le> x \<and> x \<le> snd r"

subsection \<open>The constants\<close>

record output_version_range =
  ovr_outputs :: "transaction_output_version \<times> transaction_output_version"
  ovr_features :: "output_features_version \<times> output_features_version"
  ovr_opcode :: "opcode_version \<times> opcode_version"

record pow_algorithm_constants =
  max_target_time :: u64
  min_difficulty :: difficulty
  max_difficulty :: difficulty
  pow_target_time :: u64

record consensus_constants =
  effective_from_height :: u64
  coinbase_lock_height :: u64
  blockchain_version :: "16 word"
  valid_blockchain_version_range :: "16 word \<times> 16 word"
  future_time_limit :: u64
  difficulty_block_window :: u64
  max_block_transaction_weight :: u64
  median_timestamp_count :: nat
  emission_initial :: micro_tari
  emission_decay :: "u64 list"
  emission_tail :: micro_tari
  max_randomx_seed_height :: u64
  proof_of_work_constants :: "(pow_algorithm \<times> pow_algorithm_constants) list"
  faucet_value :: micro_tari
  transaction_weight_params :: weight_params
  max_script_byte_size :: nat
  input_version_range :: "transaction_input_version \<times> transaction_input_version"
  output_versions :: output_version_range
  kernel_version_range :: "transaction_kernel_version \<times> transaction_kernel_version"
  permitted_output_types :: "output_type list"
  permitted_range_proof_types :: "range_proof_type list"
  vn_epoch_length :: u64
  vn_validity_period_epochs :: u64
  vn_registration_min_deposit_amount :: micro_tari
  vn_registration_lock_height :: u64
  vn_registration_shuffle_interval :: u64
  coinbase_output_features_extra_max_length :: "32 word"

definition version_zero ::
  "(transaction_input_version \<times> transaction_input_version) \<times> output_version_range \<times>
   (transaction_kernel_version \<times> transaction_kernel_version)" where
  "version_zero =
     ((InputV0, InputV0), \<lparr>ovr_outputs = (OutputV0, OutputV0), ovr_features = (FeaturesV0, FeaturesV0), ovr_opcode = (V0, V0)\<rparr>,
      (KernelV0, KernelV0))"

definition EMISSION_DECAY :: "u64 list" where "EMISSION_DECAY = [21, 22, 23, 25, 26, 37]"

definition DIBBLER_DECAY_PARAMS :: "u64 list" where "DIBBLER_DECAY_PARAMS = [21, 22, 23, 25, 26, 37]"

definition ESMERALDA_DECAY_PARAMS :: "u64 list" where "ESMERALDA_DECAY_PARAMS = [21, 22, 23, 25, 26, 37]"

definition ESMERALDA_FAUCET_VALUE :: u64 where "ESMERALDA_FAUCET_VALUE = 5025126665742480"

definition current_permitted_output_types :: "output_type list" where
  "current_permitted_output_types = [Coinbase, Standard, Burn]"

definition current_permitted_range_proof_types :: "range_proof_type list" where
  "current_permitted_range_proof_types = [BulletProofPlus]"

definition localnet :: "consensus_constants list" where
  "localnet =
     (let algos =
       [(Sha3, \<lparr>max_target_time = 1800, min_difficulty = 1, max_difficulty = 1, pow_target_time = 300\<rparr>),
        (Monero, \<lparr>max_target_time = 1200, min_difficulty = 1, max_difficulty = 1, pow_target_time = 200\<rparr>)]
      in [\<lparr>effective_from_height = 0, coinbase_lock_height = 2, blockchain_version = 0,
      valid_blockchain_version_range = (0, 0), future_time_limit = 540, difficulty_block_window = 90,
      max_block_transaction_weight = 19500, median_timestamp_count = 11,
      emission_initial = 18462816327 * uT, emission_decay = ESMERALDA_DECAY_PARAMS, emission_tail = 800 * T,
      max_randomx_seed_height = - 1, proof_of_work_constants = algos, faucet_value = ESMERALDA_FAUCET_VALUE,
      transaction_weight_params = weight_params_v1, max_script_byte_size = 2048,
      input_version_range = fst version_zero, output_versions = fst (snd version_zero), kernel_version_range = snd (snd version_zero),
      permitted_output_types = output_type_all, permitted_range_proof_types = range_proof_type_all,
      vn_epoch_length = 10, vn_validity_period_epochs = 100, vn_registration_min_deposit_amount = 0,
      vn_registration_lock_height = 0, vn_registration_shuffle_interval = 100, coinbase_output_features_extra_max_length = 64\<rparr>])"

definition weatherwax :: "consensus_constants list" where
  "weatherwax =
     (let algos =
       [(Sha3, \<lparr>max_target_time = 1800, min_difficulty = 60000000, max_difficulty = - 1, pow_target_time = 300\<rparr>),
        (Monero, \<lparr>max_target_time = 1200, min_difficulty = 60000, max_difficulty = - 1, pow_target_time = 200\<rparr>)]
      in [\<lparr>effective_from_height = 0, coinbase_lock_height = 6, blockchain_version = 1,
      valid_blockchain_version_range = (0, 3), future_time_limit = 540, difficulty_block_window = 90,
      max_block_transaction_weight = 19500, median_timestamp_count = 11,
      emission_initial = 5538846115 * uT, emission_decay = EMISSION_DECAY, emission_tail = 100,
      max_randomx_seed_height = - 1, proof_of_work_constants = algos, faucet_value = (5000 * 4000) * T,
      transaction_weight_params = weight_params_v1, max_script_byte_size = 2048,
      input_version_range = fst version_zero, output_versions = fst (snd version_zero), kernel_version_range = snd (snd version_zero),
      permitted_output_types = current_permitted_output_types, permitted_range_proof_types = current_permitted_range_proof_types,
      vn_epoch_length = 60, vn_validity_period_epochs = 100, vn_registration_min_deposit_amount = 0,
      vn_registration_lock_height = 0, vn_registration_shuffle_interval = 100, coinbase_output_features_extra_max_length = 64\<rparr>])"

definition MONERO_SPLIT :: u64 where "MONERO_SPLIT = 60"

definition SHA3_SPLIT :: u64 where "SHA3_SPLIT = 100 - MONERO_SPLIT"

definition MONERO_TARGET_TIME :: u64 where "MONERO_TARGET_TIME = 20"

definition SHA3_TARGET_TIME :: u64 where "SHA3_TARGET_TIME = MONERO_TARGET_TIME * (100 - SHA3_SPLIT) div SHA3_SPLIT"

definition igor :: "consensus_constants list" where
  "igor =
     (let algos =
       [(Sha3, \<lparr>max_target_time = SHA3_TARGET_TIME * 6, min_difficulty = SHA3_TARGET_TIME * 200000, max_difficulty = - 1, pow_target_time = SHA3_TARGET_TIME\<rparr>),
        (Monero, \<lparr>max_target_time = MONERO_TARGET_TIME * 6, min_difficulty = MONERO_TARGET_TIME * 300, max_difficulty = - 1, pow_target_time = MONERO_TARGET_TIME\<rparr>)]
      in [\<lparr>effective_from_height = 0, coinbase_lock_height = 6, blockchain_version = 0,
      valid_blockchain_version_range = (0, 0), future_time_limit = 540, difficulty_block_window = 90,
      max_block_transaction_weight = 127795, median_timestamp_count = 11,
      emission_initial = 5538846115 * uT, emission_decay = EMISSION_DECAY, emission_tail = 100,
      max_randomx_seed_height = - 1, proof_of_work_constants = algos, faucet_value = 1581548314320266,
      transaction_weight_params = weight_params_v1, max_script_byte_size = 2048,
      input_version_range = fst version_zero, output_versions = fst (snd version_zero), kernel_version_range = snd (snd version_zero),
      permitted_output_types = output_type_all, permitted_range_proof_types = range_proof_type_all,
      vn_epoch_length = 10, vn_validity_period_epochs = 3, vn_registration_min_deposit_amount = 0,
      vn_registration_lock_height = 0, vn_registration_shuffle_interval = 100, coinbase_output_features_extra_max_length = 64\<rparr>])"

definition dibbler :: "consensus_constants list" where
  "dibbler =
     (let algos =
       [(Sha3, \<lparr>max_target_time = 1800, min_difficulty = 60000000, max_difficulty = - 1, pow_target_time = 300\<rparr>),
        (Monero, \<lparr>max_target_time = 1200, min_difficulty = 60000, max_difficulty = - 1, pow_target_time = 200\<rparr>)]
      in [\<lparr>effective_from_height = 0, coinbase_lock_height = 360, blockchain_version = 2,
      valid_blockchain_version_range = (0, 3), future_time_limit = 540, difficulty_block_window = 90,
      max_block_transaction_weight = 127795, median_timestamp_count = 11,
      emission_initial = 18462816327 * uT, emission_decay = DIBBLER_DECAY_PARAMS, emission_tail = 800 * T,
      max_randomx_seed_height = - 1, proof_of_work_constants = algos, faucet_value = (10 * 4000) * T,
      transaction_weight_params = weight_params_v1, max_script_byte_size = 2048,
      input_version_range = fst version_zero, output_versions = fst (snd version_zero), kernel_version_range = snd (snd version_zero),
      permitted_output_types = current_permitted_output_types, permitted_range_proof_types = current_permitted_range_proof_types,
      vn_epoch_length = 60, vn_validity_period_epochs = 100, vn_registration_min_deposit_amount = 0,
      vn_registration_lock_height = 0, vn_registration_shuffle_interval = 100, coinbase_output_features_extra_max_length = 64\<rparr>,
      \<lparr>effective_from_height = 23000, coinbase_lock_height = 360, blockchain_version = 3,
      valid_blockchain_version_range = (0, 3), future_time_limit = 540, difficulty_block_window = 90,
      max_block_transaction_weight = 127795, median_timestamp_count = 11,
      emission_initial = 18462816327 * uT, emission_decay = DIBBLER_DECAY_PARAMS, emission_tail = 800 * T,
      max_randomx_seed_height = - 1, proof_of_work_constants = algos, faucet_value = (10 * 4000) * T,
      transaction_weight_params = weight_params_v1, max_script_byte_size = 2048,
      input_version_range = fst version_zero, output_versions = fst (snd version_zero), kernel_version_range = snd (snd version_zero),
      permitted_output_types = current_permitted_output_types, permitted_range_proof_types = current_permitted_range_proof_types,
      vn_epoch_length = 60, vn_validity_period_epochs = 100, vn_registration_min_deposit_amount = 0,
      vn_registration_lock_height = 0, vn_registration_shuffle_interval = 100, coinbase_output_features_extra_max_length = 64\<rparr>])"

definition esmeralda :: "consensus_constants list" where
  "esmeralda =
     (let algos =
       [(Sha3, \<lparr>max_target_time = 1800, min_difficulty = 60000000, max_difficulty = - 1, pow_target_time = 300\<rparr>),
        (Monero, \<lparr>max_target_time = 1200, min_difficulty = 60000, max_difficulty = - 1, pow_target_time = 200\<rparr>)]
      in [\<lparr>effective_from_height = 0, coinbase_lock_height = 6, blockchain_version = 0,
      valid_blockchain_version_range = (0, 0), future_time_limit = 540, difficulty_block_window = 90,
      max_block_transaction_weight = 127795, median_timestamp_count = 11,
      emission_initial = 18462816327 * uT, emission_decay = ESMERALDA_DECAY_PARAMS, emission_tail = 800 * T,
      max_randomx_seed_height = 3000, proof_of_work_constants = algos, faucet_value = ESMERALDA_FAUCET_VALUE,
      transaction_weight_params = weight_params_v1, max_script_byte_size = 2048,
      input_version_range = fst version_zero, output_versions = fst (snd version_zero), kernel_version_range = snd (snd version_zero),
      permitted_output_types = current_permitted_output_types, permitted_range_proof_types = current_permitted_range_proof_types,
      vn_epoch_length = 60, vn_validity_period_epochs = 100, vn_registration_min_deposit_amount = 0,
      vn_registration_lock_height = 0, vn_registration_shuffle_interval = 100, coinbase_output_features_extra_max_length = 64\<rparr>])"

definition stagenet :: "consensus_constants list" where
  "stagenet =
     (let algos =
       [(Sha3, \<lparr>max_target_time = 1800, min_difficulty = 60000000, max_difficulty = - 1, pow_target_time = 300\<rparr>),
        (Monero, \<lparr>max_target_time = 1200, min_difficulty = 60000, max_difficulty = - 1, pow_target_time = 200\<rparr>)]
      in [\<lparr>effective_from_height = 0, coinbase_lock_height = 360, blockchain_version = 0,
      valid_blockchain_version_range = (0, 0), future_time_limit = 540, difficulty_block_window = 90,
      max_block_transaction_weight = 127795, median_timestamp_count = 11,
      emission_initial = 18462816327 * uT, emission_decay = EMISSION_DECAY, emission_tail = 800 * T,
      max_randomx_seed_height = 3000, proof_of_work_constants = algos, faucet_value = 0,
      transaction_weight_params = weight_params_v1, max_script_byte_size = 2048,
      input_version_range = fst version_zero, output_versions = fst (snd version_zero), kernel_version_range = snd (snd version_zero),
      permitted_output_types = current_permitted_output_types, permitted_range_proof_types = current_permitted_range_proof_types,
      vn_epoch_length = 60, vn_validity_period_epochs = 100, vn_registration_min_deposit_amount = 0,
      vn_registration_lock_height = 0, vn_registration_shuffle_interval = 100, coinbase_output_features_extra_max_length = 64\<rparr>])"

definition nextnet :: "consensus_constants list" where
  "nextnet =
     (let algos =
       [(Sha3, \<lparr>max_target_time = 1800, min_difficulty = 60000000, max_difficulty = - 1, pow_target_time = 300\<rparr>),
        (Monero, \<lparr>max_target_time = 1200, min_difficulty = 60000, max_difficulty = - 1, pow_target_time = 200\<rparr>)]
      in [\<lparr>effective_from_height = 0, coinbase_lock_height = 360, blockchain_version = 0,
      valid_blockchain_version_range = (0, 0), future_time_limit = 540, difficulty_block_window = 90,
      max_block_transaction_weight = 127795, median_timestamp_count = 11,
      emission_initial = 18462816327 * uT, emission_decay = EMISSION_DECAY, emission_tail = 800 * T,
      max_randomx_seed_height = 3000, proof_of_work_constants = algos, faucet_value = 0,
      transaction_weight_params = weight_params_v1, max_script_byte_size = 2048,
      input_version_range = fst version_zero, output_versions = fst (snd version_zero), kernel_version_range = snd (snd version_zero),
      permitted_output_types = current_permitted_output_types, permitted_range_proof_types = current_permitted_range_proof_types,
      vn_epoch_length = 60, vn_validity_period_epochs = 100, vn_registration_min_deposit_amount = 0,
      vn_registration_lock_height = 0, vn_registration_shuffle_interval = 100, coinbase_output_features_extra_max_length = 64\<rparr>])"

definition mainnet :: "consensus_constants list" where
  "mainnet =
     (let algos =
       [(Sha3, \<lparr>max_target_time = 1800, min_difficulty = 40000, max_difficulty = - 1, pow_target_time = 300\<rparr>),
        (Monero, \<lparr>max_target_time = 800, min_difficulty = 70000000, max_difficulty = - 1, pow_target_time = 200\<rparr>)]
      in [\<lparr>effective_from_height = 0, coinbase_lock_height = 1, blockchain_version = 1,
      valid_blockchain_version_range = (0, 0), future_time_limit = 540, difficulty_block_window = 90,
      max_block_transaction_weight = 19500, median_timestamp_count = 11,
      emission_initial = 10000000, emission_decay = EMISSION_DECAY, emission_tail = 100,
      max_randomx_seed_height = - 1, proof_of_work_constants = algos, faucet_value = 0,
      transaction_weight_params = weight_params_v1, max_script_byte_size = 2048,
      input_version_range = fst version_zero, output_versions = fst (snd version_zero), kernel_version_range = snd (snd version_zero),
      permitted_output_types = current_permitted_output_types, permitted_range_proof_types = current_permitted_range_proof_types,
      vn_epoch_length = 60, vn_validity_period_epochs = 100, vn_registration_min_deposit_amount = 0,
      vn_registration_lock_height = 0, vn_registration_shuffle_interval = 100, coinbase_output_features_extra_max_length = 64\<rparr>])"

definition create_consensus_constants :: "network \<Rightarrow> ('e, consensus_constants list) outcome" where
  "create_consensus_constants net = (case net of
     MainNet \<Rightarrow> Ok mainnet | StageNet \<Rightarrow> Ok stagenet | NextNet \<Rightarrow> Ok nextnet | LocalNet \<Rightarrow> Ok localnet
   | Dibbler \<Rightarrow> Ok dibbler | Igor \<Rightarrow> Ok igor | Weatherwax \<Rightarrow> Ok weatherwax | Esmeralda \<Rightarrow> Ok esmeralda
   | Ridcully \<Rightarrow> Panic | Stibbons \<Rightarrow> Panic)"

subsection \<open>Derived values\<close>

definition ftl :: "int \<Rightarrow> consensus_constants \<Rightarrow> u64" where
  "ftl now self = of_int (now + sint (future_time_limit self))"

definition coinbase_weight :: "('pk, 'sk, 'com) tx_crypto \<Rightarrow> consensus_constants \<Rightarrow> (unit, u64) outcome" where
  "coinbase_weight X self =
     and_then (add_u64 (of_nat (length (features_serialize X output_features_default)))
       (of_nat (length (script_borsh_serialize (crypto X) [Nop])))) (\<lambda>sz.
     weight_calculate (transaction_weight_params self) 1 0 1
       (round_up_features_and_scripts_size (transaction_weight_params self) sz))"

definition get_max_block_weight_excluding_coinbase ::
  "('pk, 'sk, 'com) tx_crypto \<Rightarrow> consensus_constants \<Rightarrow> (unit, u64) outcome" where
  "get_max_block_weight_excluding_coinbase X self =
     and_then (coinbase_weight X self) (\<lambda>w. sub_u64 (max_block_transaction_weight self) w)"

definition get_pow_algo_count :: "consensus_constants \<Rightarrow> nat" where
  "get_pow_algo_count self = length (proof_of_work_constants self)"

definition get_diff_target_block_interval :: "pow_algorithm \<Rightarrow> consensus_constants \<Rightarrow> u64" where
  "get_diff_target_block_interval algo self =
     (case map_of (proof_of_work_constants self) algo of Some v \<Rightarrow> pow_target_time v | None \<Rightarrow> 0)"

definition get_difficulty_max_block_interval :: "pow_algorithm \<Rightarrow> consensus_constants \<Rightarrow> u64" where
  "get_difficulty_max_block_interval algo self =
     (case map_of (proof_of_work_constants self) algo of Some v \<Rightarrow> max_target_time v | None \<Rightarrow> 0)"

definition min_pow_difficulty :: "pow_algorithm \<Rightarrow> consensus_constants \<Rightarrow> difficulty" where
  "min_pow_difficulty algo self =
     (case map_of (proof_of_work_constants self) algo of Some v \<Rightarrow> min_difficulty v | None \<Rightarrow> 0)"

definition max_pow_difficulty :: "pow_algorithm \<Rightarrow> consensus_constants \<Rightarrow> difficulty" where
  "max_pow_difficulty algo self =
     (case map_of (proof_of_work_constants self) algo of Some v \<Rightarrow> max_difficulty v | None \<Rightarrow> 0)"

definition block_height_to_epoch :: "u64 \<Rightarrow> consensus_constants \<Rightarrow> (unit, u64) outcome" where
  "block_height_to_epoch height self = div_u64 height (vn_epoch_length self)"

definition epoch_to_block_height :: "u64 \<Rightarrow> consensus_constants \<Rightarrow> (unit, u64) outcome" where
  "epoch_to_block_height epoch self = mul_u64 epoch (vn_epoch_length self)"

subsection \<open>Networks and their names\<close>

lemma network_of_byte: "network_from_byte (network_as_byte n) = Some n"
  by (cases n) (simp_all add: network_from_byte_def)

lemma byte_of_network: "network_from_byte v = Some n \<Longrightarrow> network_as_byte n = v"
  by (auto simp: network_from_byte_def split: if_splits)

lemma network_of_str: "network_from_str (as_key_str n) = Some n"
  by (cases n) (simp_all add: network_from_str_def ascii_lower_def)

subsection \<open>The constants of the networks\<close>

definition constants_wf :: "consensus_constants \<Rightarrow> bool" where
  "constants_wf c \<longleftrightarrow>
     proper_decay (emission_decay c) \<and> weight_params_wf (transaction_weight_params c) \<and>
     0 < difficulty_block_window c \<and> difficulty_block_window c < 2 ^ 58 \<and> 0 < median_timestamp_count c \<and> 0 < vn_epoch_length c \<and>
     (\<forall>algo. \<exists>a. map_of (proof_of_work_constants c) algo = Some a \<and> 0 < pow_target_time a \<and> pow_target_time a \<le> max_target_time a \<and>
        MIN_DIFFICULTY \<le> min_difficulty a \<and> min_difficulty a \<le> max_difficulty a) \<and>
     Standard \<in> set (permitted_output_types c) \<and> Coinbase \<in> set (permitted_output_types c) \<and>
     BulletProofPlus \<in> set (permitted_range_proof_types c)"

text \<open>
  What the comments of the constants ask for: the version of the blockchain is a valid version, and the maximum target
  time of each algorithm is six times its target time.
\<close>

definition documented :: "consensus_constants \<Rightarrow> bool" where
  "documented c \<longleftrightarrow> range_contains (valid_blockchain_version_range c) (blockchain_version c) \<and>
     (\<forall>a \<in> snd ` set (proof_of_work_constants c). max_target_time a = 6 * pow_target_time a)"

lemmas network_defs = localnet_def weatherwax_def igor_def dibbler_def esmeralda_def stagenet_def nextnet_def mainnet_def Let_def

lemma all_algorithms: "(\<forall>algo. P algo) \<longleftrightarrow> P Sha3 \<and> P Monero"
  by (metis (full_types) pow_algorithm.exhaust)

lemma proper_decays: "proper_decay EMISSION_DECAY" "proper_decay DIBBLER_DECAY_PARAMS" "proper_decay ESMERALDA_DECAY_PARAMS"
  by (simp_all add: proper_decay_def decay_weight_def EMISSION_DECAY_def DIBBLER_DECAY_PARAMS_def ESMERALDA_DECAY_PARAMS_def)

lemmas network_values = network_defs constants_wf_def documented_def proper_decays weight_params_wf_def weight_params_v1_def
  all_algorithms MIN_DIFFICULTY_def current_permitted_output_types_def current_permitted_range_proof_types_def
  range_contains_def version_zero_def output_type_all_def range_proof_type_all_def
  SHA3_TARGET_TIME_def MONERO_TARGET_TIME_def SHA3_SPLIT_def MONERO_SPLIT_def

lemma networks_wf:
  "list_all constants_wf localnet" "list_all constants_wf weatherwax" "list_all constants_wf igor" "list_all constants_wf dibbler"
  "list_all constants_wf esmeralda" "list_all constants_wf stagenet" "list_all constants_wf nextnet" "list_all constants_wf mainnet"
  by (simp_all add: network_values)

lemma networks_documented:
  "list_all documented localnet" "list_all documented weatherwax" "list_all documented igor" "list_all documented dibbler"
  "list_all documented esmeralda" "list_all documented stagenet" "list_all documented nextnet" "\<not> list_ex documented mainnet"
  by (simp_all add: network_values)



lemma window_available:
  assumes "constants_wf c"
  shows "\<exists>w. window_new (unat (difficulty_block_window c)) (get_diff_target_block_interval algo c)
     (get_difficulty_max_block_interval algo c) = Ok w"
proof -
  have "unat (difficulty_block_window c) < 2 ^ 58" using assms by (simp add: constants_wf_def word_less_nat_alt)
  moreover have "0 < unat (difficulty_block_window c)" using assms by (simp add: constants_wf_def unat_gt_0 word_neq_0_conv)
  ultimately show ?thesis by (simp add: window_new_def lwma_new_def ISIZE_MAX_def)
qed

lemma epoch_of_start:
  assumes "constants_wf c" and "epoch_to_block_height e c = Ok h"
  shows "block_height_to_epoch h c = Ok e"
proof -
  have "vn_epoch_length c \<noteq> 0" "unat h = unat e * unat (vn_epoch_length c)"
    using assms by (auto simp: constants_wf_def epoch_to_block_height_def u64_simps)
  moreover from this have "h div vn_epoch_length c = e"
    by (simp add: word_unat_eq_iff unat_div)
  ultimately show ?thesis by (simp add: block_height_to_epoch_def div_u64_def checked_div_u64_def)
qed

lemma epoch_contains_height:
  assumes "constants_wf c"
  shows "\<exists>e start. block_height_to_epoch h c = Ok e \<and> epoch_to_block_height e c = Ok start \<and>
    unat start \<le> unat h \<and> unat h < unat start + unat (vn_epoch_length c)"
proof -
  let ?len = "vn_epoch_length c" and ?e = "h div vn_epoch_length c"
  have nz: "?len \<noteq> 0" "0 < unat ?len" using assms by (auto simp: constants_wf_def unat_gt_0)
  have le: "unat ?e * unat ?len \<le> unat h" by (simp add: unat_div)
  then obtain start where start: "epoch_to_block_height ?e c = Ok start" "unat start = unat ?e * unat ?len"
    using unat_less_u64 [of h] checked_mul_u64_None [of ?e ?len]
    by (cases "checked_mul_u64 ?e ?len") (auto simp: epoch_to_block_height_def mul_u64_def checked_mul_u64_Some)
  moreover have "unat h < unat ?e * unat ?len + unat ?len"
    using nz(2) dividend_less_div_times [of "unat ?len" "unat h"] by (simp add: unat_div)
  ultimately show ?thesis using nz le by (auto simp: block_height_to_epoch_def div_u64_def checked_div_u64_def)
qed

end
