(* ===== verification/Blocks.thy ===== *)
theory Blocks
  imports Consensus_Constants
begin

text \<open>
  Blocks: \<open>block_header.rs\<close>, \<open>block.rs\<close>, \<open>new_blockheader_template.rs\<close>, \<open>new_block_template.rs\<close> and
  \<open>accumulated_data.rs\<close> under \<open>src/base_layer/core/src/blocks/\<close>, and \<open>proof_of_work/proof_of_work.rs\<close>.

  \<open>block_ops\<close> holds what comes from outside the repository: \<open>blocks_digest\<close> is the Blake2 hasher of the domain
  \<open>com.tari.base_layer.core.blocks\<close> with the label \<open>block_header\<close>, applied to the bytes chained into it, and
  \<open>sk_borsh\<close> and \<open>epoch_borsh\<close> are the Borsh encodings of a scalar and of an \<open>EpochTime\<close>. \<open>now\<close> is the clock.
  The Borsh encoding of the proof-of-work data is written for data shorter than \<open>2 ^ 32\<close> bytes, which is what the
  format can hold.
\<close>

subsection \<open>Code outside the repository\<close>

record 'sk block_ops =
  blocks_digest :: "bytes \<Rightarrow> bytes"
  sk_borsh :: "'sk \<Rightarrow> bytes"
  epoch_borsh :: "u64 \<Rightarrow> bytes"

text \<open>An encoding is prefix-free when the value and the rest can be told from the encoding of a value followed by a rest.\<close>

definition prefix_free :: "('a \<Rightarrow> bytes) \<Rightarrow> bool" where
  "prefix_free enc \<longleftrightarrow> (\<forall>a b r s. enc a @ r = enc b @ s \<longrightarrow> a = b \<and> r = s)"

definition block_laws :: "'sk block_ops \<Rightarrow> bool" where
  "block_laws B \<longleftrightarrow> digest32 (blocks_digest B) \<and> prefix_free (sk_borsh B) \<and> prefix_free (epoch_borsh B)"

subsection \<open>Proof of work\<close>

record proof_of_work =
  pow_algo_used :: pow_algorithm
  pow_data :: bytes

definition pow_algorithm_byte :: "pow_algorithm \<Rightarrow> u8" where
  "pow_algorithm_byte a = (case a of Monero \<Rightarrow> 0 | Sha3 \<Rightarrow> 1)"

definition pow_default :: proof_of_work where
  "pow_default = \<lparr>pow_algo_used = Sha3, pow_data = []\<rparr>"

definition pow_new :: "pow_algorithm \<Rightarrow> proof_of_work" where
  "pow_new algo = pow_default\<lparr>pow_algo_used := algo\<rparr>"

definition pow_to_bytes :: "proof_of_work \<Rightarrow> bytes" where
  "pow_to_bytes self = pow_algorithm_byte (pow_algo_used self) # pow_data self"

text \<open>The derived Borsh encoding: the variant, the length of the data as a \<open>u32\<close>, the data.\<close>

definition pow_borsh :: "proof_of_work \<Rightarrow> bytes" where
  "pow_borsh self = pow_algorithm_byte (pow_algo_used self) # le_bytes 4 (length (pow_data self)) @ pow_data self"

subsection \<open>Headers\<close>

record 'sk block_header =
  hd_version :: "16 word"
  hd_height :: u64
  hd_prev_hash :: bytes
  hd_timestamp :: u64
  hd_output_mr :: bytes
  hd_witness_mr :: bytes
  hd_output_mmr_size :: u64
  hd_kernel_mr :: bytes
  hd_kernel_mmr_size :: u64
  hd_input_mr :: bytes
  hd_total_kernel_offset :: 'sk
  hd_total_script_offset :: 'sk
  hd_nonce :: u64
  hd_pow :: proof_of_work
  hd_validator_node_mr :: bytes

definition zero_hash :: bytes where "zero_hash = replicate 32 0"

definition header_new :: "('pk, 'sk, 'com) tx_crypto \<Rightarrow> u64 \<Rightarrow> 16 word \<Rightarrow> 'sk block_header" where
  "header_new X now version =
     \<lparr>hd_version = version, hd_height = 0, hd_prev_hash = zero_hash, hd_timestamp = now,
      hd_output_mr = zero_hash, hd_witness_mr = zero_hash, hd_output_mmr_size = 0,
      hd_kernel_mr = zero_hash, hd_kernel_mmr_size = 0, hd_input_mr = zero_hash,
      hd_total_kernel_offset = sk_default X, hd_total_script_offset = sk_default X,
      hd_nonce = 0, hd_pow = pow_default, hd_validator_node_mr = zero_hash\<rparr>"

definition mining_preimage :: "'sk block_ops \<Rightarrow> 'sk block_header \<Rightarrow> bytes" where
  "mining_preimage B self =
     le_bytes 2 (unat (hd_version self)) @ le_bytes_64 (hd_height self) @ hd_prev_hash self @
     epoch_borsh B (hd_timestamp self) @ hd_input_mr self @ hd_output_mr self @ le_bytes_64 (hd_output_mmr_size self) @
     hd_witness_mr self @ hd_kernel_mr self @ le_bytes_64 (hd_kernel_mmr_size self) @
     sk_borsh B (hd_total_kernel_offset self) @ sk_borsh B (hd_total_script_offset self)"

definition mining_hash :: "'sk block_ops \<Rightarrow> 'sk block_header \<Rightarrow> bytes" where
  "mining_hash B self = blocks_digest B (mining_preimage B self)"

definition header_preimage :: "'sk block_ops \<Rightarrow> 'sk block_header \<Rightarrow> bytes" where
  "header_preimage B self = mining_hash B self @ pow_borsh (hd_pow self) @ le_bytes_64 (hd_nonce self)"

definition header_hash :: "'sk block_ops \<Rightarrow> 'sk block_header \<Rightarrow> bytes" where
  "header_hash B self = blocks_digest B (header_preimage B self)"

definition header_eq :: "'sk block_ops \<Rightarrow> 'sk block_header \<Rightarrow> 'sk block_header \<Rightarrow> bool" where
  "header_eq B self other \<longleftrightarrow> header_hash B self = header_hash B other"

definition header_from_previous ::
  "('pk, 'sk, 'com) tx_crypto \<Rightarrow> 'sk block_ops \<Rightarrow> u64 \<Rightarrow> 'sk block_header \<Rightarrow> (unit, 'sk block_header) outcome" where
  "header_from_previous X B now prev =
     and_then (add_u64 (hd_height prev) 1) (\<lambda>h.
     Ok \<lparr>hd_version = hd_version prev, hd_height = h, hd_prev_hash = header_hash B prev, hd_timestamp = now,
         hd_output_mr = zero_hash, hd_witness_mr = zero_hash, hd_output_mmr_size = hd_output_mmr_size prev,
         hd_kernel_mr = zero_hash, hd_kernel_mmr_size = hd_kernel_mmr_size prev, hd_input_mr = zero_hash,
         hd_total_kernel_offset = sk_default X, hd_total_script_offset = sk_default X,
         hd_nonce = 0, hd_pow = pow_default, hd_validator_node_mr = zero_hash\<rparr>)"

text \<open>
  \<open>timing_stats\<close>, with the average period as the pair of the elapsed time and the number of periods that the source
  divides in floating point.
\<close>

fun period_bounds :: "u64 list \<Rightarrow> u64 \<times> u64 \<Rightarrow> u64 \<times> u64" where
  "period_bounds (a # b # rest) (mx, mn) =
     (let dt = (case checked_sub_u64 a b of Some delta \<Rightarrow> delta | None \<Rightarrow> 0)
      in period_bounds (b # rest) (max mx dt, min mn dt))"
| "period_bounds _ acc = acc"

definition timing_stats :: "'sk block_header list \<Rightarrow> u64 \<times> u64 \<times> (u64 \<times> nat)" where
  "timing_stats headers =
     (if length headers < 2 then (0, 0, (0, 1))
      else let ts = map hd_timestamp headers;
               ts = (if hd ts < last ts then rev ts else ts);
               (mx, mn) = period_bounds ts (0, - 1)
           in (mx, mn, ((case checked_sub_u64 (hd ts) (last ts) of Some t \<Rightarrow> t | None \<Rightarrow> 0), length ts - 1)))"

subsection \<open>Blocks\<close>

record ('pk, 'sk, 'com) block =
  blk_header :: "'sk block_header"
  blk_body :: "('pk, 'sk, 'com) aggregate_body"

datatype block_validation_error =
  BlockTransactionError transaction_error | InvalidInput | MismatchedMmrRoots string | MismatchedMmrSize string u64 u64

definition block_transaction_error :: "(transaction_error, 'a) outcome \<Rightarrow> (block_validation_error, 'a) outcome" where
  "block_transaction_error r = (case r of Ok a \<Rightarrow> Ok a | Err e \<Rightarrow> Err (BlockTransactionError e) | Panic \<Rightarrow> Panic)"

definition calculate_fees :: "('pk, 'sk, 'com) block \<Rightarrow> (unit, micro_tari) outcome" where
  "calculate_fees self = get_total_fee (blk_body self)"

definition block_check_kernel_rules :: "('pk, 'sk, 'com) block \<Rightarrow> (block_validation_error, unit) outcome" where
  "block_check_kernel_rules self = block_transaction_error (check_kernel_rules (blk_body self) (hd_height (blk_header self)))"

definition block_check_coinbase_output ::
  "('pk, 'sk, 'com) tx_crypto \<Rightarrow> micro_tari \<Rightarrow> consensus_constants \<Rightarrow> ('pk, 'sk, 'com) block \<Rightarrow>
   (block_validation_error, unit) outcome" where
  "block_check_coinbase_output X rwd constants self =
     block_transaction_error (check_coinbase_output X (blk_body self) rwd (coinbase_lock_height constants) (hd_height (blk_header self)))"

definition block_check_output_features ::
  "consensus_constants \<Rightarrow> ('pk, 'sk, 'com) block \<Rightarrow> (block_validation_error, unit) outcome" where
  "block_check_output_features constants self =
     block_transaction_error (check_output_features (blk_body self) (coinbase_output_features_extra_max_length constants))"

definition block_to_compact :: "('pk, 'sk, 'com) tx_crypto \<Rightarrow> ('pk, 'sk, 'com) block \<Rightarrow> ('pk, 'sk, 'com) block" where
  "block_to_compact X self = self\<lparr>blk_body := body_to_compact X (blk_body self)\<rparr>"

definition block_hash :: "'sk block_ops \<Rightarrow> ('pk, 'sk, 'com) block \<Rightarrow> bytes" where
  "block_hash B self = header_hash B (blk_header self)"

subsection \<open>The block builder\<close>

record ('pk, 'sk, 'com) block_builder =
  bb_header :: "'sk block_header"
  bb_inputs :: "('pk, 'sk, 'com) transaction_input list"
  bb_outputs :: "('pk, 'sk, 'com) transaction_output list"
  bb_kernels :: "('pk, 'sk, 'com) transaction_kernel list"
  bb_total_fee :: micro_tari

definition bb_new :: "('pk, 'sk, 'com) tx_crypto \<Rightarrow> u64 \<Rightarrow> 16 word \<Rightarrow> ('pk, 'sk, 'com) block_builder" where
  "bb_new X now version =
     \<lparr>bb_header = header_new X now version, bb_inputs = [], bb_outputs = [], bb_kernels = [], bb_total_fee = 0\<rparr>"

definition bb_with_header :: "'sk block_header \<Rightarrow> ('pk, 'sk, 'com) block_builder \<Rightarrow> ('pk, 'sk, 'com) block_builder" where
  "bb_with_header header self = self\<lparr>bb_header := header\<rparr>"

definition bb_add_inputs ::
  "('pk, 'sk, 'com) transaction_input list \<Rightarrow> ('pk, 'sk, 'com) block_builder \<Rightarrow> ('pk, 'sk, 'com) block_builder" where
  "bb_add_inputs inputs self = self\<lparr>bb_inputs := bb_inputs self @ inputs\<rparr>"

definition bb_add_outputs ::
  "('pk, 'sk, 'com) transaction_output list \<Rightarrow> ('pk, 'sk, 'com) block_builder \<Rightarrow> ('pk, 'sk, 'com) block_builder" where
  "bb_add_outputs outputs self = self\<lparr>bb_outputs := bb_outputs self @ outputs\<rparr>"

definition bb_add_kernels ::
  "('pk, 'sk, 'com) transaction_kernel list \<Rightarrow> ('pk, 'sk, 'com) block_builder \<Rightarrow> (unit, ('pk, 'sk, 'com) block_builder) outcome" where
  "bb_add_kernels kernels self =
     and_then (sum_from (bb_total_fee self) (map ker_fee kernels)) (\<lambda>fee.
     Ok (self\<lparr>bb_total_fee := fee, bb_kernels := bb_kernels self @ kernels\<rparr>))"

definition bb_add_transaction ::
  "('pk, 'sk, 'com) tx_crypto \<Rightarrow> ('pk, 'sk, 'com) transaction \<Rightarrow> ('pk, 'sk, 'com) block_builder \<Rightarrow>
   (unit, ('pk, 'sk, 'com) block_builder) outcome" where
  "bb_add_transaction X tx self =
     (let inputs = body_inputs (tx_body tx); outputs = body_outputs (tx_body tx); kernels = body_kernels (tx_body tx);
          self = bb_add_inputs inputs self
      in and_then (add_u64 (hd_output_mmr_size (bb_header self)) (of_nat (length outputs))) (\<lambda>out_size.
         let self = bb_add_outputs outputs (self\<lparr>bb_header := (bb_header self)\<lparr>hd_output_mmr_size := out_size\<rparr>\<rparr>)
         in and_then (add_u64 (hd_kernel_mmr_size (bb_header self)) (of_nat (length kernels))) (\<lambda>ker_size.
         and_then (bb_add_kernels kernels (self\<lparr>bb_header := (bb_header self)\<lparr>hd_kernel_mmr_size := ker_size\<rparr>\<rparr>)) (\<lambda>self.
         let header = bb_header self
         in Ok (self\<lparr>bb_header := header\<lparr>
              hd_total_kernel_offset := sk_add X (hd_total_kernel_offset header) (tx_offset tx),
              hd_total_script_offset := sk_add X (hd_total_script_offset header) (tx_script_offset tx)\<rparr>\<rparr>)))))"

fun bb_with_transactions ::
  "('pk, 'sk, 'com) tx_crypto \<Rightarrow> ('pk, 'sk, 'com) transaction list \<Rightarrow> ('pk, 'sk, 'com) block_builder \<Rightarrow>
   (unit, ('pk, 'sk, 'com) block_builder) outcome" where
  "bb_with_transactions X [] self = Ok self"
| "bb_with_transactions X (tx # txs) self = and_then (bb_add_transaction X tx self) (bb_with_transactions X txs)"

definition bb_with_coinbase_utxo ::
  "('pk, 'sk, 'com) transaction_output \<Rightarrow> ('pk, 'sk, 'com) transaction_kernel \<Rightarrow> ('pk, 'sk, 'com) block_builder \<Rightarrow>
   ('pk, 'sk, 'com) block_builder" where
  "bb_with_coinbase_utxo utxo ker self =
     self\<lparr>bb_kernels := bb_kernels self @ [ker], bb_outputs := bb_outputs self @ [utxo]\<rparr>"

definition bb_with_pow :: "proof_of_work \<Rightarrow> ('pk, 'sk, 'com) block_builder \<Rightarrow> ('pk, 'sk, 'com) block_builder" where
  "bb_with_pow pow self = self\<lparr>bb_header := (bb_header self)\<lparr>hd_pow := pow\<rparr>\<rparr>"

definition bb_build :: "('pk, 'sk, 'com) tx_crypto \<Rightarrow> ('pk, 'sk, 'com) block_builder \<Rightarrow> ('pk, 'sk, 'com) block" where
  "bb_build X self =
     \<lparr>blk_header = bb_header self, blk_body = body_sort X (body_new (bb_inputs self) (bb_outputs self) (bb_kernels self))\<rparr>"

text \<open>The compact message that announces a new block: \<open>From<&Block> for NewBlock\<close> panics without a coinbase.\<close>

record ('pk, 'sk, 'com) new_block =
  nb_header :: "'sk block_header"
  nb_coinbase_kernel :: "('pk, 'sk, 'com) transaction_kernel"
  nb_coinbase_output :: "('pk, 'sk, 'com) transaction_output"
  nb_kernel_excess_sigs :: "'sk list"

definition new_block_from :: "('pk, 'sk, 'com) block \<Rightarrow> (unit, ('pk, 'sk, 'com) new_block) outcome" where
  "new_block_from blk =
     and_then (or_panic (List.find kernel_is_coinbase (body_kernels (blk_body blk)))) (\<lambda>ker.
     and_then (or_panic (List.find (\<lambda>out. output_type (out_features out) = Coinbase) (body_outputs (blk_body blk)))) (\<lambda>out.
     Ok \<lparr>nb_header = blk_header blk, nb_coinbase_kernel = ker, nb_coinbase_output = out,
         nb_kernel_excess_sigs =
           map (\<lambda>k. snd (ker_excess_sig k)) (filter (\<lambda>k. \<not> kernel_is_coinbase k) (body_kernels (blk_body blk)))\<rparr>))"

subsection \<open>Templates\<close>

record 'sk header_template =
  ht_version :: "16 word"
  ht_height :: u64
  ht_prev_hash :: bytes
  ht_total_kernel_offset :: 'sk
  ht_total_script_offset :: 'sk
  ht_pow :: proof_of_work

definition template_from_header :: "'sk block_header \<Rightarrow> 'sk header_template" where
  "template_from_header header =
     \<lparr>ht_version = hd_version header, ht_height = hd_height header, ht_prev_hash = hd_prev_hash header,
      ht_total_kernel_offset = hd_total_kernel_offset header, ht_total_script_offset = hd_total_script_offset header,
      ht_pow = hd_pow header\<rparr>"

definition header_from_template :: "u64 \<Rightarrow> 'sk header_template \<Rightarrow> 'sk block_header" where
  "header_from_template now t =
     \<lparr>hd_version = ht_version t, hd_height = ht_height t, hd_prev_hash = ht_prev_hash t, hd_timestamp = now,
      hd_output_mr = zero_hash, hd_witness_mr = zero_hash, hd_output_mmr_size = 0, hd_kernel_mr = zero_hash, hd_kernel_mmr_size = 0,
      hd_input_mr = zero_hash, hd_total_kernel_offset = ht_total_kernel_offset t, hd_total_script_offset = ht_total_script_offset t,
      hd_nonce = 0, hd_pow = ht_pow t, hd_validator_node_mr = zero_hash\<rparr>"

record ('pk, 'sk, 'com) block_template =
  bt_header :: "'sk header_template"
  bt_body :: "('pk, 'sk, 'com) aggregate_body"
  bt_target_difficulty :: difficulty
  bt_reward :: micro_tari
  bt_total_fees :: micro_tari

definition template_from_block ::
  "('pk, 'sk, 'com) block \<Rightarrow> difficulty \<Rightarrow> micro_tari \<Rightarrow> (unit, ('pk, 'sk, 'com) block_template) outcome" where
  "template_from_block blk target_difficulty rwd =
     and_then (get_total_fee (blk_body blk)) (\<lambda>fees.
     Ok \<lparr>bt_header = template_from_header (blk_header blk), bt_body = blk_body blk, bt_target_difficulty = target_difficulty,
         bt_reward = rwd, bt_total_fees = fees\<rparr>)"

subsection \<open>What the hash of a header commits to\<close>

definition header_sizes :: "'sk block_header \<Rightarrow> bool" where
  "header_sizes h \<longleftrightarrow> length (hd_prev_hash h) = 32 \<and> length (hd_output_mr h) = 32 \<and> length (hd_witness_mr h) = 32 \<and>
     length (hd_kernel_mr h) = 32 \<and> length (hd_input_mr h) = 32 \<and> length (hd_validator_node_mr h) = 32 \<and>
     length (pow_data (hd_pow h)) < 2 ^ 32"

lemma prefix_freeD: "prefix_free enc \<Longrightarrow> enc a @ r = enc b @ s \<longleftrightarrow> a = b \<and> r = s"
  unfolding prefix_free_def by blast

lemma prefix_free_inj: "prefix_free enc \<Longrightarrow> enc a = enc b \<longleftrightarrow> a = b"
  using prefix_freeD [of enc a "[]" b "[]"] by simp

lemma le_bytes_eq: "le_bytes n a = le_bytes n b \<longleftrightarrow> a mod 256 ^ n = b mod 256 ^ n"
proof
  assume "a mod 256 ^ n = b mod 256 ^ n"
  then have "le_value (le_bytes n a) = le_value (le_bytes n b)" by (simp add: le_value_le_bytes)
  then show "le_bytes n a = le_bytes n b" by (metis le_bytes_le_value length_le_bytes)
qed (metis le_value_le_bytes)

lemma version_bytes: "le_bytes 2 (unat a) @ r = le_bytes 2 (unat (b :: 16 word)) @ s \<longleftrightarrow> a = b \<and> r = s"
proof -
  have "unat a < 256 ^ 2" "unat b < 256 ^ 2" using unsigned_less [of a] unsigned_less [of b] by simp_all
  then show ?thesis by (simp add: le_bytes_eq word_unat_eq_iff)
qed

lemma u64_bytes: "le_bytes_64 a = le_bytes_64 b \<longleftrightarrow> a = b"
  by (metis le_value_64_le_bytes_64)

lemma pow_borsh_bytes:
  assumes "length (pow_data p) < 2 ^ 32" and "length (pow_data q) < 2 ^ 32"
  shows "pow_borsh p @ r = pow_borsh q @ s \<longleftrightarrow> p = q \<and> r = s"
proof
  assume eq: "pow_borsh p @ r = pow_borsh q @ s"
  then have "le_bytes 4 (length (pow_data p)) = le_bytes 4 (length (pow_data q))"
    and rest: "pow_algorithm_byte (pow_algo_used p) = pow_algorithm_byte (pow_algo_used q)" "pow_data p @ r = pow_data q @ s"
    by (simp_all add: pow_borsh_def)
  then have "length (pow_data p) = length (pow_data q)" using assms by (simp add: le_bytes_eq)
  then show "p = q \<and> r = s"
    using rest by (auto simp: pow_algorithm_byte_def split: pow_algorithm.splits)
qed simp

text \<open>The fields that go into the mining hash.\<close>

lemma mining_preimage_eq:
  assumes "block_laws B" and "header_sizes h" and "header_sizes h'" and "mining_preimage B h = mining_preimage B h'"
  shows "h'\<lparr>hd_nonce := hd_nonce h, hd_pow := hd_pow h, hd_validator_node_mr := hd_validator_node_mr h\<rparr> = h"
proof -
  have laws: "prefix_free (sk_borsh B)" "prefix_free (epoch_borsh B)" using assms(1) by (simp_all add: block_laws_def)
  show ?thesis
    using assms(2-4)
    by (auto simp: mining_preimage_def header_sizes_def version_bytes u64_bytes prefix_freeD [OF laws(1)]
        prefix_freeD [OF laws(2)] prefix_free_inj [OF laws(1)])
qed

lemma header_hash_unhashed: "header_hash B (h\<lparr>hd_validator_node_mr := r\<rparr>) = header_hash B h"
  by (simp add: header_hash_def header_preimage_def mining_hash_def mining_preimage_def)

definition no_collision :: "'sk block_ops \<Rightarrow> 'sk block_header \<Rightarrow> 'sk block_header \<Rightarrow> bool" where
  "no_collision B h h' \<longleftrightarrow>
     (mining_hash B h = mining_hash B h' \<longrightarrow> mining_preimage B h = mining_preimage B h') \<and>
     (header_hash B h = header_hash B h' \<longrightarrow> header_preimage B h = header_preimage B h')"

text \<open>
  (C30) What the hash of a header commits to. Where the digest does not collide on the two headers, they have the same
  hash, and so are equal to the code, exactly when they agree in every field but \<open>validator_node_mr\<close>: the Merkle root of the
  validator nodes is not hashed.
\<close>

theorem header_hash_commits:
  assumes "block_laws B" and "header_sizes h" and "header_sizes h'" and "no_collision B h h'"
  shows "header_eq B h h' \<longleftrightarrow> h'\<lparr>hd_validator_node_mr := hd_validator_node_mr h\<rparr> = h"
proof
  assume "header_eq B h h'"
  then have pre: "header_preimage B h = header_preimage B h'"
    using assms(4) by (simp add: header_eq_def no_collision_def)
  have "length (mining_hash B h) = length (mining_hash B h')"
    using assms(1) by (simp add: mining_hash_def block_laws_def digest32_def)
  with pre have "mining_hash B h = mining_hash B h'" "hd_pow h = hd_pow h'" "hd_nonce h = hd_nonce h'"
    using assms(2,3) pow_borsh_bytes [of "hd_pow h" "hd_pow h'" "le_bytes_64 (hd_nonce h)" "le_bytes_64 (hd_nonce h')"]
    by (simp_all add: header_preimage_def header_sizes_def u64_bytes)
  with mining_preimage_eq [OF assms(1-3)] assms(4) have "h'\<lparr>hd_nonce := hd_nonce h', hd_pow := hd_pow h',
      hd_validator_node_mr := hd_validator_node_mr h\<rparr> = h"
    by (simp add: no_collision_def)
  then show "h'\<lparr>hd_validator_node_mr := hd_validator_node_mr h\<rparr> = h" by simp
next
  assume eq: "h'\<lparr>hd_validator_node_mr := hd_validator_node_mr h\<rparr> = h"
  have "header_hash B h = header_hash B (h'\<lparr>hd_validator_node_mr := hd_validator_node_mr h\<rparr>)" by (simp only: eq)
  also have "\<dots> = header_hash B h'" by (rule header_hash_unhashed)
  finally show "header_eq B h h'" by (simp add: header_eq_def)
qed

text \<open>A concrete digest of 32 bytes for examples: the last bytes of what is hashed, in reverse order.\<close>

definition sample_blocks :: "u8 block_ops" where
  "sample_blocks = \<lparr>blocks_digest = (\<lambda>bs. take 32 (rev bs @ replicate 32 0)), sk_borsh = (\<lambda>s. [s]), epoch_borsh = le_bytes_64\<rparr>"

lemma sample_blocks_laws: "block_laws sample_blocks"
  by (auto simp: block_laws_def sample_blocks_def digest32_def prefix_free_def u64_bytes)

definition sample_header :: "u64 \<Rightarrow> u64 \<Rightarrow> u8 block_header" where
  "sample_header height n = (header_new sample_tx 100 0)\<lparr>hd_height := height, hd_nonce := n\<rparr>"

theorem header_hash_commits_witness:
  "header_eq sample_blocks (sample_header 1 7) ((sample_header 1 7)\<lparr>hd_validator_node_mr := replicate 32 1\<rparr>)"
proof -
  let ?h = "sample_header 1 7"
  let ?h' = "?h\<lparr>hd_validator_node_mr := replicate 32 1\<rparr>"
  have "header_sizes ?h" "header_sizes ?h'"
    by (simp_all add: header_sizes_def sample_header_def header_new_def zero_hash_def pow_default_def)
  moreover have "no_collision sample_blocks ?h ?h'"
    by (simp add: no_collision_def header_preimage_def mining_hash_def mining_preimage_def)
  ultimately show ?thesis
    using header_hash_commits [OF sample_blocks_laws, of ?h ?h'] by simp
qed

subsection \<open>What the builder builds\<close>

definition tx_inputs :: "('pk, 'sk, 'com) transaction \<Rightarrow> ('pk, 'sk, 'com) transaction_input list" where
  "tx_inputs tx = body_inputs (tx_body tx)"

definition tx_outputs :: "('pk, 'sk, 'com) transaction \<Rightarrow> ('pk, 'sk, 'com) transaction_output list" where
  "tx_outputs tx = body_outputs (tx_body tx)"

definition tx_kernels :: "('pk, 'sk, 'com) transaction \<Rightarrow> ('pk, 'sk, 'com) transaction_kernel list" where
  "tx_kernels tx = body_kernels (tx_body tx)"

lemma add_transaction_ok:
  assumes "bb_add_transaction X tx bb = Ok bb'"
  shows "bb_inputs bb' = bb_inputs bb @ tx_inputs tx" "bb_outputs bb' = bb_outputs bb @ tx_outputs tx"
    "bb_kernels bb' = bb_kernels bb @ tx_kernels tx"
    "hd_output_mmr_size (bb_header bb') = hd_output_mmr_size (bb_header bb) + of_nat (length (tx_outputs tx))"
    "hd_kernel_mmr_size (bb_header bb') = hd_kernel_mmr_size (bb_header bb) + of_nat (length (tx_kernels tx))"
    "unat (bb_total_fee bb') = unat (bb_total_fee bb) + (\<Sum>k\<leftarrow>tx_kernels tx. unat (ker_fee k))"
    "hd_total_kernel_offset (bb_header bb') = sk_add X (hd_total_kernel_offset (bb_header bb)) (tx_offset tx)"
    "hd_total_script_offset (bb_header bb') = sk_add X (hd_total_script_offset (bb_header bb)) (tx_script_offset tx)"
    "hd_height (bb_header bb') = hd_height (bb_header bb)" "hd_prev_hash (bb_header bb') = hd_prev_hash (bb_header bb)"
  using assms
  by (auto simp: bb_add_transaction_def bb_add_inputs_def bb_add_outputs_def bb_add_kernels_def tx_inputs_def tx_outputs_def
      tx_kernels_def outcome_simps Let_def add_u64_def checked_add_u64_def u64_of_nat_def sum_from_eq_Ok comp_def split: if_splits)

lemma with_transactions_ok:
  assumes "bb_with_transactions X txs bb = Ok bb'"
  shows "bb_inputs bb' = bb_inputs bb @ concat (map tx_inputs txs) \<and> bb_outputs bb' = bb_outputs bb @ concat (map tx_outputs txs) \<and>
    bb_kernels bb' = bb_kernels bb @ concat (map tx_kernels txs) \<and>
    hd_output_mmr_size (bb_header bb') = hd_output_mmr_size (bb_header bb) + of_nat (length (concat (map tx_outputs txs))) \<and>
    hd_kernel_mmr_size (bb_header bb') = hd_kernel_mmr_size (bb_header bb) + of_nat (length (concat (map tx_kernels txs))) \<and>
    hd_total_kernel_offset (bb_header bb') = foldl (sk_add X) (hd_total_kernel_offset (bb_header bb)) (map tx_offset txs) \<and>
    hd_height (bb_header bb') = hd_height (bb_header bb) \<and> hd_prev_hash (bb_header bb') = hd_prev_hash (bb_header bb)"
  using assms
proof (induction txs arbitrary: bb)
  case (Cons tx txs)
  from Cons.prems obtain bb1 where 1: "bb_add_transaction X tx bb = Ok bb1" "bb_with_transactions X txs bb1 = Ok bb'"
    by (auto simp: outcome_simps)
  show ?case using Cons.IH [OF 1(2)] add_transaction_ok [OF 1(1)] by simp
qed simp

lemma body_sort_mset:
  "mset (body_inputs (body_sort X b)) = mset (body_inputs b)" "mset (body_outputs (body_sort X b)) = mset (body_outputs b)"
  "mset (body_kernels (body_sort X b)) = mset (body_kernels b)"
  by (simp_all add: body_sort_def)

text \<open>
  (C31) Building a block on a header. The block holds exactly the inputs, outputs and kernels of the transactions and the
  coinbase, it is linked to the previous header by height and hash, and the sizes of the Merkle mountain ranges in its
  header grow by the outputs and kernels of the transactions: the coinbase output and kernel are not counted.
\<close>

theorem built_block:
  assumes "header_from_previous X B now prev = Ok header"
    and "bb_with_transactions X txs (bb_with_header header (bb_new X now (hd_version prev))) = Ok bb"
    and "blk = bb_build X (bb_with_coinbase_utxo utxo ker bb)"
  shows "mset (body_inputs (blk_body blk)) = mset (concat (map tx_inputs txs)) \<and>
    mset (body_outputs (blk_body blk)) = add_mset utxo (mset (concat (map tx_outputs txs))) \<and>
    mset (body_kernels (blk_body blk)) = add_mset ker (mset (concat (map tx_kernels txs))) \<and>
    unat (hd_height (blk_header blk)) = unat (hd_height prev) + 1 \<and> hd_prev_hash (blk_header blk) = header_hash B prev \<and>
    hd_output_mmr_size (blk_header blk) = hd_output_mmr_size prev + of_nat (size (mset (body_outputs (blk_body blk))) - 1) \<and>
    hd_kernel_mmr_size (blk_header blk) = hd_kernel_mmr_size prev + of_nat (size (mset (body_kernels (blk_body blk))) - 1) \<and>
    hd_total_kernel_offset (blk_header blk) = foldl (sk_add X) (sk_default X) (map tx_offset txs)"
proof -
  have h: "unat (hd_height header) = unat (hd_height prev) + 1" "hd_prev_hash header = header_hash B prev"
    "hd_output_mmr_size header = hd_output_mmr_size prev" "hd_kernel_mmr_size header = hd_kernel_mmr_size prev"
    "hd_total_kernel_offset header = sk_default X"
    using assms(1) by (auto simp: header_from_previous_def outcome_simps u64_simps)
  show ?thesis
    using with_transactions_ok [OF assms(2)] h
    by (simp add: assms(3) bb_build_def body_sort_mset bb_with_coinbase_utxo_def bb_with_header_def bb_new_def body_new_def)
qed

theorem built_block_witness:
  "\<exists>header bb. header_from_previous sample_tx sample_blocks 5 (sample_header 1 7) = Ok header \<and>
     bb_with_transactions sample_tx [sample_transaction 1, sample_transaction 2]
       (bb_with_header header (bb_new sample_tx 5 0)) = Ok bb \<and>
     unat (hd_height (blk_header (bb_build sample_tx (bb_with_coinbase_utxo (sample_output 3 0) (sample_kernel 3 1) bb)))) = 2"
proof -
  obtain header where h: "header_from_previous sample_tx sample_blocks 5 (sample_header 1 7) = Ok header"
    "hd_output_mmr_size header = 0" "hd_kernel_mmr_size header = 0"
    by (simp add: header_from_previous_def sample_header_def header_new_def add_u64_def checked_add_u64_def u64_of_nat_def)
  have v: "hd_version (sample_header 1 7) = 0" by (simp add: sample_header_def header_new_def)
  obtain bb where bb: "bb_with_transactions sample_tx [sample_transaction 1, sample_transaction 2]
      (bb_with_header header (bb_new sample_tx 5 0)) = Ok bb"
    using h(2,3)
    by (simp add: bb_add_transaction_def bb_add_inputs_def bb_add_outputs_def bb_add_kernels_def bb_with_header_def bb_new_def
        sample_transaction_def transaction_new_def body_new_def sample_kernel_def add_u64_def checked_add_u64_def u64_of_nat_def Let_def)
  from built_block [OF h(1) bb [folded v] refl, of "sample_output 3 0" "sample_kernel 3 1"] h bb show ?thesis
    by (simp add: sample_header_def)
qed

end
