(* ===== verification/Reorg_Pool.thy ===== *)
theory Reorg_Pool
  imports Unconfirmed_Pool Blocks
begin

text \<open>
  The pool of recently mined transactions: \<open>src/base_layer/core/src/mempool/reorg_pool/reorg_pool.rs\<close>.

  As in the unconfirmed pool a \<open>HashMap\<close> is an association list with distinct keys, and its iteration order is the order of
  the list. \<open>compact\<close> changes the capacity of the maps only and has no counterpart.
\<close>

subsection \<open>The pool\<close>

record ('pk, 'sk, 'com) reorg_pool =
  rp_expiry_height :: u64
  rp_key_counter :: nat
  rp_tx_by_key :: "(nat \<times> ('pk, 'sk, 'com) transaction) list"
  rp_txs_by_signature :: "('sk, nat) index"
  rp_txs_by_height :: "(u64, nat) index"

definition rp_new :: "u64 \<Rightarrow> ('pk, 'sk, 'com) reorg_pool" where
  "rp_new expiry_height =
     \<lparr>rp_expiry_height = expiry_height, rp_key_counter = 0, rp_tx_by_key = [], rp_txs_by_signature = [], rp_txs_by_height = []\<rparr>"

definition rp_get_next_key :: "('pk, 'sk, 'com) reorg_pool \<Rightarrow> nat \<times> ('pk, 'sk, 'com) reorg_pool" where
  "rp_get_next_key self =
     (rp_key_counter self, self\<lparr>rp_key_counter := (rp_key_counter self + 1) mod (2 ^ 64 - 1)\<rparr>)"

fun cleanup_ids :: "nat list \<Rightarrow> ('pk, 'sk, 'com) reorg_pool \<Rightarrow> (unit, ('pk, 'sk, 'com) reorg_pool) outcome" where
  "cleanup_ids [] self = Ok self"
| "cleanup_ids (tx_id # ids) self =
     (case map_of (rp_tx_by_key self) tx_id of
        None \<Rightarrow> Panic
      | Some tx \<Rightarrow>
          and_then (idx_try_all idx_remove_expect (tx_signatures tx) tx_id (rp_txs_by_signature self)) (\<lambda>sigs.
          cleanup_ids ids (self\<lparr>rp_tx_by_key := AList.delete tx_id (rp_tx_by_key self), rp_txs_by_signature := sigs\<rparr>)))"

definition cleanup_expired ::
  "u64 \<Rightarrow> ('pk, 'sk, 'com) reorg_pool \<Rightarrow> (unit, ('pk, 'sk, 'com) reorg_pool) outcome" where
  "cleanup_expired height self =
     (case checked_sub_u64 height (rp_expiry_height self) of
        None \<Rightarrow> Ok self
      | Some height \<Rightarrow>
          (case map_of (rp_txs_by_height self) height of
             None \<Rightarrow> Ok self
           | Some tx_ids \<Rightarrow> cleanup_ids tx_ids (self\<lparr>rp_txs_by_height := AList.delete height (rp_txs_by_height self)\<rparr>)))"

definition rp_store :: "u64 \<Rightarrow> nat \<Rightarrow> ('pk, 'sk, 'com) transaction \<Rightarrow> ('pk, 'sk, 'com) reorg_pool \<Rightarrow> ('pk, 'sk, 'com) reorg_pool" where
  "rp_store height new_key tx self =
     self\<lparr>rp_txs_by_signature := idx_push_all (tx_signatures tx) new_key (rp_txs_by_signature self),
          rp_tx_by_key := AList.update new_key tx (rp_tx_by_key self),
          rp_txs_by_height := idx_push height new_key (rp_txs_by_height self)\<rparr>"

definition rp_insert ::
  "u64 \<Rightarrow> ('pk, 'sk, 'com) transaction \<Rightarrow> ('pk, 'sk, 'com) reorg_pool \<Rightarrow> (unit, ('pk, 'sk, 'com) reorg_pool) outcome" where
  "rp_insert height tx self =
     (if list_all (idx_contains (rp_txs_by_signature self)) (tx_signatures tx) then cleanup_expired height self
      else (case rp_get_next_key self of (new_key, self) \<Rightarrow> cleanup_expired height (rp_store height new_key tx self)))"

fun rp_insert_each ::
  "u64 \<Rightarrow> ('pk, 'sk, 'com) transaction list \<Rightarrow> ('pk, 'sk, 'com) reorg_pool \<Rightarrow> (unit, ('pk, 'sk, 'com) reorg_pool) outcome" where
  "rp_insert_each height [] self = Ok self"
| "rp_insert_each height (tx # txs) self = and_then (rp_insert height tx self) (rp_insert_each height txs)"

definition rp_insert_all ::
  "u64 \<Rightarrow> ('pk, 'sk, 'com) transaction list \<Rightarrow> ('pk, 'sk, 'com) reorg_pool \<Rightarrow> (unit, ('pk, 'sk, 'com) reorg_pool) outcome" where
  "rp_insert_all height txs self =
     and_then (if txs = [] then cleanup_expired height self else Ok self) (rp_insert_each height txs)"

definition clear_and_retrieve_all ::
  "('pk, 'sk, 'com) reorg_pool \<Rightarrow> ('pk, 'sk, 'com) reorg_pool \<times> ('pk, 'sk, 'com) transaction list" where
  "clear_and_retrieve_all self =
     (self\<lparr>rp_tx_by_key := [], rp_txs_by_signature := [], rp_txs_by_height := []\<rparr>, map snd (rp_tx_by_key self))"

definition rp_retrieve_by_excess_sigs ::
  "'sk list \<Rightarrow> ('pk, 'sk, 'com) reorg_pool \<Rightarrow> (unit, ('pk, 'sk, 'com) transaction list \<times> 'sk list) outcome" where
  "rp_retrieve_by_excess_sigs excess_sigs self =
     (let found = remdups (concat (map (idx_get (rp_txs_by_signature self)) excess_sigs));
          remaining = filter (\<lambda>sig. \<not> idx_contains (rp_txs_by_signature self) sig) excess_sigs
      in map_ok (\<lambda>found. (found, remaining)) (lookup_all (rp_tx_by_key self) found))"

definition rp_has_tx_with_excess_sig :: "('pk, 'sk) schnorr \<Rightarrow> ('pk, 'sk, 'com) reorg_pool \<Rightarrow> bool" where
  "rp_has_tx_with_excess_sig excess_sig self \<longleftrightarrow> idx_contains (rp_txs_by_signature self) (snd excess_sig)"

definition remove_from_height_index :: "nat \<Rightarrow> ('pk, 'sk, 'com) reorg_pool \<Rightarrow> ('pk, 'sk, 'com) reorg_pool" where
  "remove_from_height_index tx_id self =
     self\<lparr>rp_txs_by_height :=
       concat (map (\<lambda>(height, ids).
         if tx_id \<in> set ids then let ids = remove1 tx_id ids in if ids = [] then [] else [(height, ids)]
         else [(height, ids)]) (rp_txs_by_height self))\<rparr>"

definition rp_remove ::
  "nat \<Rightarrow> ('pk, 'sk, 'com) reorg_pool \<Rightarrow> (unit, ('pk, 'sk, 'com) reorg_pool \<times> ('pk, 'sk, 'com) transaction option) outcome" where
  "rp_remove tx_id self =
     (case map_of (rp_tx_by_key self) tx_id of
        None \<Rightarrow> Ok (self, None)
      | Some tx \<Rightarrow>
          and_then (idx_try_all idx_remove_strict (tx_signatures tx) tx_id (rp_txs_by_signature self)) (\<lambda>sigs.
          Ok (remove_from_height_index tx_id
                (self\<lparr>rp_tx_by_key := AList.delete tx_id (rp_tx_by_key self), rp_txs_by_signature := sigs\<rparr>), Some tx)))"

fun rp_remove_each :: "nat list \<Rightarrow> ('pk, 'sk, 'com) reorg_pool \<Rightarrow> (unit, ('pk, 'sk, 'com) reorg_pool) outcome" where
  "rp_remove_each [] self = Ok self"
| "rp_remove_each (tx_id # ids) self = and_then (rp_remove tx_id self) (\<lambda>(self, _). rp_remove_each ids self)"

definition discard_double_spends ::
  "('pk, 'sk, 'com) tx_crypto \<Rightarrow> ('pk, 'sk, 'com) block \<Rightarrow> ('pk, 'sk, 'com) reorg_pool \<Rightarrow>
   (unit, ('pk, 'sk, 'com) reorg_pool) outcome" where
  "discard_double_spends X published_block self =
     rp_remove_each
       (concat (map (\<lambda>(tx_id, tx). map (\<lambda>_. tx_id)
          (filter (\<lambda>input. list_ex (\<lambda>b. input_eq X b input) (body_inputs (blk_body published_block))) (body_inputs (tx_body tx))))
          (rp_tx_by_key self))) self"

fun discard_each ::
  "('pk, 'sk, 'com) tx_crypto \<Rightarrow> ('pk, 'sk, 'com) block list \<Rightarrow> ('pk, 'sk, 'com) reorg_pool \<Rightarrow>
   (unit, ('pk, 'sk, 'com) reorg_pool) outcome" where
  "discard_each X [] self = Ok self"
| "discard_each X (block # blocks) self = and_then (discard_double_spends X block self) (discard_each X blocks)"

text \<open>The loops over the removed blocks: the identifiers of one signature, and the signatures of the kernels.\<close>

fun take_ids ::
  "nat list \<Rightarrow> ('pk, 'sk, 'com) reorg_pool \<times> ('pk, 'sk, 'com) transaction list \<Rightarrow>
   ('pk, 'sk, 'com) reorg_pool \<times> ('pk, 'sk, 'com) transaction list" where
  "take_ids [] st = st"
| "take_ids (tx_id # ids) (self, removed_txs) =
     (case map_of (rp_tx_by_key self) tx_id of
        None \<Rightarrow> take_ids ids (self, removed_txs)
      | Some tx \<Rightarrow> take_ids ids
          (remove_from_height_index tx_id (self\<lparr>rp_tx_by_key := AList.delete tx_id (rp_tx_by_key self)\<rparr>), removed_txs @ [tx]))"

fun take_signatures ::
  "'sk list \<Rightarrow> ('pk, 'sk, 'com) reorg_pool \<times> ('pk, 'sk, 'com) transaction list \<Rightarrow>
   ('pk, 'sk, 'com) reorg_pool \<times> ('pk, 'sk, 'com) transaction list" where
  "take_signatures [] st = st"
| "take_signatures (sig # sigs) (self, removed_txs) =
     (case map_of (rp_txs_by_signature self) sig of
        None \<Rightarrow> take_signatures sigs (self, removed_txs)
      | Some removed_tx_ids \<Rightarrow> take_signatures sigs
          (take_ids removed_tx_ids (self\<lparr>rp_txs_by_signature := AList.delete sig (rp_txs_by_signature self)\<rparr>, removed_txs)))"

definition block_signatures :: "('pk, 'sk, 'com) block \<Rightarrow> 'sk list" where
  "block_signatures block = map (\<lambda>k. snd (ker_excess_sig k)) (body_kernels (blk_body block))"

definition remove_reorged_txs_and_discard_double_spends ::
  "('pk, 'sk, 'com) tx_crypto \<Rightarrow> ('pk, 'sk, 'com) block list \<Rightarrow> ('pk, 'sk, 'com) block list \<Rightarrow> ('pk, 'sk, 'com) reorg_pool \<Rightarrow>
   (unit, ('pk, 'sk, 'com) reorg_pool \<times> ('pk, 'sk, 'com) transaction list) outcome" where
  "remove_reorged_txs_and_discard_double_spends X removed_blocks new_blocks self =
     map_ok (\<lambda>self. take_signatures (concat (map block_signatures removed_blocks)) (self, [])) (discard_each X new_blocks self)"

definition rp_len :: "('pk, 'sk, 'com) reorg_pool \<Rightarrow> nat" where
  "rp_len self = length (rp_tx_by_key self)"

definition rp_snapshot :: "('pk, 'sk, 'com) reorg_pool \<Rightarrow> ('pk, 'sk, 'com) transaction list" where
  "rp_snapshot self = map snd (rp_tx_by_key self)"

subsection \<open>The invariant\<close>

text \<open>
  \<open>rp_core\<close> is the part of the invariant about the transactions and their signatures: every stored transaction is found
  under each of its signatures, as often as it has the signature. Identifiers of transactions that are gone may remain in the
  index: removing reorganised transactions does not take them out.
\<close>

definition rp_core :: "('pk, 'sk, 'com) reorg_pool \<Rightarrow> bool" where
  "rp_core p \<longleftrightarrow>
     distinct (map fst (rp_tx_by_key p)) \<and> (\<forall>k \<in> fst ` set (rp_tx_by_key p). k < rp_key_counter p) \<and>
     idx_wf (rp_txs_by_signature p) \<and> (\<forall>s. \<forall>k \<in> set (idx_get (rp_txs_by_signature p) s). k < rp_key_counter p) \<and>
     (\<forall>(k, tx) \<in> set (rp_tx_by_key p). \<forall>s. count_list (idx_get (rp_txs_by_signature p) s) k = count_list (tx_signatures tx) s)"

definition idx_ids :: "('k, 'v) index \<Rightarrow> 'v list" where
  "idx_ids idx = concat (map snd idx)"

definition rp_wf :: "('pk, 'sk, 'com) reorg_pool \<Rightarrow> bool" where
  "rp_wf p \<longleftrightarrow> rp_core p \<and> idx_wf (rp_txs_by_height p) \<and>
     mset (idx_ids (rp_txs_by_height p)) = mset (map fst (rp_tx_by_key p))"

lemma rp_wf_new: "rp_wf (rp_new expiry)"
  by (simp add: rp_wf_def rp_core_def rp_new_def idx_ids_def idx_wf_empty idx_get_def)

subsection \<open>Removing one transaction\<close>

lemma rp_signatures_removable:
  fixes p :: "('pk, 'sk, 'com) reorg_pool"
  assumes "rp_core p" and "map_of (rp_tx_by_key p) k = Some tx" and "f = idx_remove_expect \<or> f = idx_remove_strict"
  shows "idx_try_all f (tx_signatures tx) k (rp_txs_by_signature p) =
    (Ok (idx_remove_all (tx_signatures tx) k (rp_txs_by_signature p)) :: (unit, ('sk, nat) index) outcome)"
  using assms(1) map_of_SomeD [OF assms(2)] by (intro idx_try_all_ok assms(3)) (auto simp: rp_core_def)

definition rp_drop :: "nat \<Rightarrow> ('pk, 'sk, 'com) transaction \<Rightarrow> ('pk, 'sk, 'com) reorg_pool \<Rightarrow> ('pk, 'sk, 'com) reorg_pool" where
  "rp_drop k tx p = p\<lparr>rp_tx_by_key := AList.delete k (rp_tx_by_key p),
     rp_txs_by_signature := idx_remove_all (tx_signatures tx) k (rp_txs_by_signature p)\<rparr>"

lemma idx_get_remove_all_subset: "set (idx_get (idx_remove_all ks v idx) s) \<subseteq> set (idx_get idx s)"
proof (induction ks arbitrary: idx)
  case (Cons k ks)
  have "set (idx_get (idx_remove k v idx) s) \<subseteq> set (idx_get idx s)"
    by (simp add: idx_get_remove) (meson notin_set_remove1 subset_code(1))
  with Cons.IH [of "idx_remove k v idx"] show ?case by simp
qed simp

lemma rp_core_drop:
  assumes "rp_core p"
  shows "rp_core (rp_drop k tx p)"
proof -
  have "count_list (idx_get (idx_remove_all (tx_signatures tx) k (rp_txs_by_signature p)) s) j = count_list (idx_get (rp_txs_by_signature p) s) j"
    if "j \<noteq> k" for j s
    using that by (simp add: idx_all_lists mi.count_remove_list)
  moreover have "j < rp_key_counter p" if "j \<in> set (idx_get (idx_remove_all (tx_signatures tx) k (rp_txs_by_signature p)) s)" for s j
    using assms that idx_get_remove_all_subset [of "tx_signatures tx" k "rp_txs_by_signature p" s] by (auto simp: rp_core_def)
  ultimately show ?thesis
    using assms by (simp add: rp_core_def rp_drop_def idx_wf_remove_all delete_filter distinct_map_filter) fastforce
qed
subsection \<open>The height index\<close>

lemma idx_ids_push: "mset (idx_ids (idx_push k v idx)) = add_mset v (mset (idx_ids idx))"
  by (induction idx) (auto simp: idx_ids_def idx_push_def idx_get_def)

lemma idx_ids_delete:
  assumes "distinct (map fst idx)" and "map_of idx k = Some vs"
  shows "mset (idx_ids idx) = mset vs + mset (idx_ids (AList.delete k idx))"
  using assms
proof (induction idx)
  case (Cons e idx)
  show ?case
  proof (cases "fst e = k")
    case True
    then have "AList.delete k idx = idx" using Cons.prems(1) by (auto intro: delete_idem)
    then show ?thesis using Cons.prems True by (cases e) (simp add: idx_ids_def)
  next
    case False
    then show ?thesis using Cons by (cases e) (simp add: idx_ids_def)
  qed
qed simp

definition strip :: "nat \<Rightarrow> ('k, nat) index \<Rightarrow> ('k, nat) index" where
  "strip tx_id idx = concat (map (\<lambda>(height, ids).
     if tx_id \<in> set ids then let ids = remove1 tx_id ids in if ids = [] then [] else [(height, ids)] else [(height, ids)]) idx)"

lemma remove_from_height_index_strip: "remove_from_height_index k p = p\<lparr>rp_txs_by_height := strip k (rp_txs_by_height p)\<rparr>"
  by (simp add: remove_from_height_index_def strip_def)

lemma strip_simps [simp]:
  "strip k [] = []"
  "strip k ((h, ids) # idx) =
     (if k \<in> set ids then if remove1 k ids = [] then strip k idx else (h, remove1 k ids) # strip k idx else (h, ids) # strip k idx)"
  by (simp_all add: strip_def Let_def)

lemma strip_keys: "fst ` set (strip k idx) \<subseteq> fst ` set idx"
proof (induction idx)
  case (Cons e idx)
  then show ?case by (cases e) (simp split: if_split, blast)
qed simp

lemma strip_absent: "k \<notin> set (idx_ids idx) \<Longrightarrow> strip k idx = idx"
  by (induction idx) (auto simp: idx_ids_def)

lemma strip_ids: "distinct (idx_ids idx) \<Longrightarrow> mset (idx_ids (strip k idx)) = mset (idx_ids idx) - {#k#}"
proof (induction idx)
  case (Cons e idx)
  obtain h ids where e: "e = (h, ids)" by (cases e)
  have d: "distinct ids" "distinct (idx_ids idx)" "set ids \<inter> set (idx_ids idx) = {}"
    using Cons.prems by (simp_all add: idx_ids_def e)
  show ?case
  proof (cases "k \<in> set ids")
    case True
    then have "strip k idx = idx" using d(3) by (intro strip_absent) blast
    moreover have "mset ids + m - {#k#} = mset (remove1 k ids) + m" for m
      using True by simp
    moreover have "remove1 k ids = [] \<Longrightarrow> mset (remove1 k ids) = {#}" by simp
    ultimately show ?thesis using True by (simp add: idx_ids_def e del: mset_remove1)
  next
    case False
    have "mset ids + (m - {#k#}) = mset ids + m - {#k#}" for m
    proof (cases "k \<in># m")
      case True
      then show ?thesis by (rule diff_union_single_conv [symmetric])
    next
      case absent: False
      then have "k \<notin># mset ids + m" using False by simp
      with absent show ?thesis by (simp only: diff_single_trivial not_False_eq_True)
    qed
    then show ?thesis using False Cons.IH [OF d(2)] by (simp add: idx_ids_def e)
  qed
qed (simp add: idx_ids_def)

lemma idx_wf_strip: "idx_wf idx \<Longrightarrow> idx_wf (strip k idx)"
proof (induction idx)
  case (Cons e idx)
  obtain h ids where e: "e = (h, ids)" by (cases e)
  have "idx_wf idx" "ids \<noteq> []" "h \<notin> fst ` set idx" using Cons.prems by (auto simp: idx_wf_def e)
  then have "idx_wf (strip k idx)" "h \<notin> fst ` set (strip k idx)" using Cons.IH strip_keys [of k idx] by auto
  then show ?case using \<open>ids \<noteq> []\<close> by (auto simp: idx_wf_def e)
qed simp

lemma idx_wf_delete: "idx_wf idx \<Longrightarrow> idx_wf (AList.delete k idx)"
  by (auto simp: idx_wf_def delete_filter distinct_map_filter)

subsection \<open>Expiry\<close>

lemma cleanup_ids_ok:
  assumes "rp_core p" and "distinct ids" and "set ids \<subseteq> fst ` set (rp_tx_by_key p)"
  shows "\<exists>p'. cleanup_ids ids p = Ok p' \<and> rp_core p' \<and> rp_tx_by_key p' = filter (\<lambda>e. fst e \<notin> set ids) (rp_tx_by_key p) \<and>
    rp_txs_by_height p' = rp_txs_by_height p \<and> rp_key_counter p' = rp_key_counter p \<and> rp_expiry_height p' = rp_expiry_height p"
  using assms
proof (induction ids arbitrary: p)
  case (Cons k ids)
  obtain tx where tx: "map_of (rp_tx_by_key p) k = Some tx"
    using Cons.prems(3) by (metis list.set_intros(1) map_of_eq_None_iff not_Some_eq set_map subsetD)
  have step: "cleanup_ids (k # ids) p = cleanup_ids ids (rp_drop k tx p)"
    using rp_signatures_removable [OF Cons.prems(1) tx, of idx_remove_expect] by (simp add: tx rp_drop_def)
  have "set ids \<subseteq> fst ` set (rp_tx_by_key (rp_drop k tx p))"
    using Cons.prems(2,3) by (force simp: rp_drop_def delete_filter)
  from Cons.IH [OF rp_core_drop [OF Cons.prems(1)] _ this] Cons.prems(2) obtain p' where
    p': "cleanup_ids ids (rp_drop k tx p) = Ok p'" "rp_core p'"
      "rp_tx_by_key p' = filter (\<lambda>e. fst e \<notin> set ids) (filter (\<lambda>e. fst e \<noteq> k) (rp_tx_by_key p))"
      "rp_txs_by_height p' = rp_txs_by_height p" "rp_key_counter p' = rp_key_counter p" "rp_expiry_height p' = rp_expiry_height p"
    by (auto simp: rp_drop_def delete_filter)
  have "rp_tx_by_key p' = filter (\<lambda>e. fst e \<notin> set (k # ids)) (rp_tx_by_key p)"
    unfolding p'(3) filter_filter by (rule filter_cong) auto
  with p' step show ?case by simp
qed simp

text \<open>The identifiers whose transactions expire at a height.\<close>

definition expired_ids :: "u64 \<Rightarrow> ('pk, 'sk, 'com) reorg_pool \<Rightarrow> nat list" where
  "expired_ids height p =
     (case checked_sub_u64 height (rp_expiry_height p) of None \<Rightarrow> [] | Some g \<Rightarrow> idx_get (rp_txs_by_height p) g)"

lemma rp_wf_distinct_ids:
  assumes "rp_wf p"
  shows "distinct (idx_ids (rp_txs_by_height p))" "set (idx_ids (rp_txs_by_height p)) = fst ` set (rp_tx_by_key p)"
  using assms mset_eq_imp_distinct_iff [of "idx_ids (rp_txs_by_height p)" "map fst (rp_tx_by_key p)"]
    mset_eq_setD [of "idx_ids (rp_txs_by_height p)" "map fst (rp_tx_by_key p)"]
  by (simp_all add: rp_wf_def rp_core_def)

lemma cleanup_expired_ok:
  assumes "rp_wf p"
  shows "\<exists>p'. cleanup_expired height p = Ok p' \<and> rp_wf p' \<and>
    rp_tx_by_key p' = filter (\<lambda>e. fst e \<notin> set (expired_ids height p)) (rp_tx_by_key p) \<and>
    rp_txs_by_height p' = (case checked_sub_u64 height (rp_expiry_height p) of
      None \<Rightarrow> rp_txs_by_height p | Some g \<Rightarrow> AList.delete g (rp_txs_by_height p)) \<and>
    rp_key_counter p' = rp_key_counter p \<and> rp_expiry_height p' = rp_expiry_height p"
proof (cases "checked_sub_u64 height (rp_expiry_height p)")
  case None
  then show ?thesis using assms by (simp add: cleanup_expired_def expired_ids_def)
next
  case (Some g)
  show ?thesis
  proof (cases "map_of (rp_txs_by_height p) g")
    case None
    then have "AList.delete g (rp_txs_by_height p) = rp_txs_by_height p"
      by (auto simp: map_of_eq_None_iff intro: delete_idem)
    with None Some assms show ?thesis by (simp add: cleanup_expired_def expired_ids_def idx_get_def)
  next
    case found: (Some ids)
    let ?p = "p\<lparr>rp_txs_by_height := AList.delete g (rp_txs_by_height p)\<rparr>"
    have keys: "distinct (map fst (rp_txs_by_height p))" using assms by (simp add: rp_wf_def idx_wf_def)
    have split: "mset (idx_ids (rp_txs_by_height p)) = mset (ids @ idx_ids (AList.delete g (rp_txs_by_height p)))"
      using idx_ids_delete [OF keys found] by simp
    have d: "distinct (ids @ idx_ids (AList.delete g (rp_txs_by_height p)))"
      "set (ids @ idx_ids (AList.delete g (rp_txs_by_height p))) = fst ` set (rp_tx_by_key p)"
      using rp_wf_distinct_ids [OF assms] mset_eq_imp_distinct_iff [OF split] mset_eq_setD [OF split] by simp_all
    have "rp_core ?p" using assms by (simp add: rp_wf_def rp_core_def)
    from cleanup_ids_ok [OF this, of ids] d obtain p' where p': "cleanup_ids ids ?p = Ok p'" "rp_core p'"
      "rp_tx_by_key p' = filter (\<lambda>e. fst e \<notin> set ids) (rp_tx_by_key p)"
      "rp_txs_by_height p' = AList.delete g (rp_txs_by_height p)" "rp_key_counter p' = rp_key_counter p"
      "rp_expiry_height p' = rp_expiry_height p"
      by auto
    have "set (idx_ids (AList.delete g (rp_txs_by_height p))) = set (map fst (rp_tx_by_key p'))"
      using d p'(3) by force
    then have "mset (idx_ids (AList.delete g (rp_txs_by_height p))) = mset (map fst (rp_tx_by_key p'))"
      using d(1) p'(2) by (subst set_eq_iff_mset_eq_distinct [symmetric]) (simp_all add: rp_core_def)
    moreover have "idx_wf (AList.delete g (rp_txs_by_height p))" using assms by (simp add: rp_wf_def idx_wf_delete)
    ultimately show ?thesis
      using p' found Some by (auto simp: cleanup_expired_def expired_ids_def idx_get_def rp_wf_def)
  qed
qed

subsection \<open>Insertion\<close>

lemma rp_store_wf:
  assumes "rp_wf p" and "rp_key_counter p = k"
  shows "rp_wf (rp_store height k tx (p\<lparr>rp_key_counter := k + 1\<rparr>))"
proof -
  have core: "rp_core p" "idx_wf (rp_txs_by_height p)"
    "mset (idx_ids (rp_txs_by_height p)) = mset (map fst (rp_tx_by_key p))" using assms(1) by (simp_all add: rp_wf_def)
  have fresh: "k \<notin> fst ` set (rp_tx_by_key p)" "k \<notin> set (idx_get (rp_txs_by_signature p) s)" for s
    using core(1) assms(2) by (auto simp: rp_core_def)
  have ne: "(k, t) \<notin> set (rp_tx_by_key p)" for t using fresh(1) by force
  have count: "count_list (idx_get (idx_push_all (tx_signatures tx) k (rp_txs_by_signature p)) s) j =
      count_list (idx_get (rp_txs_by_signature p) s) j + (if j = k then count_list (tx_signatures tx) s else 0)" for s j
    by (simp add: idx_all_lists mi.count_push_list)
  have "j < k + 1" if "j \<in> set (idx_get (idx_push_all (tx_signatures tx) k (rp_txs_by_signature p)) s)" for s j
  proof (cases "j = k")
    case False
    have "count_list (idx_get (idx_push_all (tx_signatures tx) k (rp_txs_by_signature p)) s) j \<noteq> 0"
      using that by (simp add: count_list_0_iff)
    then have "j \<in> set (idx_get (rp_txs_by_signature p) s)" using False by (simp add: count count_list_0_iff)
    then have "j < k" using core(1) assms(2) by (auto simp: rp_core_def)
    then show ?thesis by simp
  qed simp
  moreover have "\<forall>(j, t) \<in> set (rp_tx_by_key p @ [(k, tx)]). \<forall>s.
      count_list (idx_get (idx_push_all (tx_signatures tx) k (rp_txs_by_signature p)) s) j = count_list (tx_signatures t) s"
    using core(1) fresh(2) ne by (auto simp: rp_core_def count)
  moreover have "\<forall>j \<in> fst ` set (rp_tx_by_key p). j < k + 1" using core(1) assms(2) by (auto simp: rp_core_def)
  moreover have "distinct (map fst (rp_tx_by_key p @ [(k, tx)]))" using core(1) fresh(1) by (simp add: rp_core_def)
  ultimately have "rp_core (rp_store height k tx (p\<lparr>rp_key_counter := k + 1\<rparr>))"
    using core(1) fresh(1) unfolding rp_core_def rp_store_def
    by (simp add: update_fresh idx_wf_push_all)
  then show ?thesis using core fresh(1) by (simp add: rp_wf_def rp_store_def update_fresh idx_wf_push idx_ids_push)
qed

text \<open>
  What an operation may do: keep the pool consistent, add no transaction but the given ones, and move no transaction to another
  height.
\<close>

definition rp_grows :: "('pk, 'sk, 'com) transaction set \<Rightarrow> ('pk, 'sk, 'com) reorg_pool \<Rightarrow> ('pk, 'sk, 'com) reorg_pool \<Rightarrow> bool" where
  "rp_grows txs p p' \<longleftrightarrow> rp_wf p' \<and> rp_expiry_height p' = rp_expiry_height p \<and> rp_key_counter p \<le> rp_key_counter p' \<and>
     (\<forall>e \<in> set (rp_tx_by_key p'). e \<in> set (rp_tx_by_key p) \<or> rp_key_counter p \<le> fst e \<and> snd e \<in> txs) \<and>
     (\<forall>g. \<forall>k \<in> set (idx_get (rp_txs_by_height p') g). k < rp_key_counter p \<longrightarrow> k \<in> set (idx_get (rp_txs_by_height p) g))"

definition no_expired :: "u64 \<Rightarrow> ('pk, 'sk, 'com) reorg_pool \<Rightarrow> bool" where
  "no_expired height p \<longleftrightarrow>
     (\<forall>g. checked_sub_u64 height (rp_expiry_height p) = Some g \<longrightarrow> map_of (rp_txs_by_height p) g = None)"

lemma cleanup_grows:
  assumes "rp_wf p"
  shows "\<exists>p'. cleanup_expired height p = Ok p' \<and> rp_grows {} p p' \<and> rp_key_counter p' = rp_key_counter p \<and> no_expired height p' \<and>
    (\<forall>e \<in> set (rp_tx_by_key p'). fst e \<notin> set (expired_ids height p))"
proof -
  from cleanup_expired_ok [OF assms, of height] obtain p' where p': "cleanup_expired height p = Ok p'" "rp_wf p'"
    "rp_tx_by_key p' = filter (\<lambda>e. fst e \<notin> set (expired_ids height p)) (rp_tx_by_key p)"
    "rp_txs_by_height p' = (case checked_sub_u64 height (rp_expiry_height p) of
      None \<Rightarrow> rp_txs_by_height p | Some g \<Rightarrow> AList.delete g (rp_txs_by_height p))"
    "rp_key_counter p' = rp_key_counter p" "rp_expiry_height p' = rp_expiry_height p" by blast
  then show ?thesis
    by (intro exI [of _ p']) (simp add: rp_grows_def no_expired_def delete_conv' idx_get_def split: option.split)
qed

lemma rp_insert_grows:
  assumes "rp_wf p" and "rp_key_counter p + 1 < 2 ^ 64 - 1"
  shows "\<exists>p'. rp_insert height tx p = Ok p' \<and> rp_grows {tx} p p' \<and> rp_key_counter p' \<le> rp_key_counter p + 1 \<and> no_expired height p' \<and>
    (\<forall>e \<in> set (rp_tx_by_key p'). fst e \<notin> set (expired_ids height p))"
proof (cases "list_all (idx_contains (rp_txs_by_signature p)) (tx_signatures tx)")
  case True
  then show ?thesis using cleanup_grows [OF assms(1), of height] by (auto simp: rp_insert_def rp_grows_def)
next
  case False
  define k where "k = rp_key_counter p"
  define q where "q = rp_store height k tx (p\<lparr>rp_key_counter := k + 1\<rparr>)"
  have wf: "rp_wf q" unfolding q_def by (rule rp_store_wf [OF assms(1) k_def [symmetric]])
  have fresh: "k \<notin> fst ` set (rp_tx_by_key p)" using assms(1) by (auto simp: rp_wf_def rp_core_def k_def)
  have same: "rp_tx_by_key q = rp_tx_by_key p @ [(k, tx)]" "rp_key_counter q = k + 1" "rp_expiry_height q = rp_expiry_height p"
    using fresh by (simp_all add: q_def rp_store_def update_fresh)
  have heights: "j \<in> set (idx_get (rp_txs_by_height q) g) \<Longrightarrow> j < k \<Longrightarrow> j \<in> set (idx_get (rp_txs_by_height p) g)" for j g
    by (auto simp: q_def rp_store_def idx_get_push split: if_splits)
  have sub: "set (expired_ids height p) \<subseteq> set (expired_ids height q)"
    by (cases "checked_sub_u64 height (rp_expiry_height p)") (auto simp: q_def expired_ids_def rp_store_def idx_get_push)
  have step: "rp_insert height tx p = cleanup_expired height q"
    using False assms(2) by (simp add: rp_insert_def rp_get_next_key_def q_def k_def)
  from cleanup_grows [OF wf, of height] obtain p' where p': "cleanup_expired height q = Ok p'" "rp_grows {} q p'"
    "rp_key_counter p' = rp_key_counter q" "no_expired height p'" "\<forall>e \<in> set (rp_tx_by_key p'). fst e \<notin> set (expired_ids height q)" by blast
  moreover have "rp_grows {tx} p p'" using p'(2) unfolding rp_grows_def same by (auto simp: k_def intro!: heights [unfolded k_def])
  ultimately show ?thesis using step sub by (intro exI [of _ p']) (auto simp: same(2) k_def)
qed

lemma rp_grows_trans: "rp_grows A p q \<Longrightarrow> rp_grows B q r \<Longrightarrow> rp_grows (A \<union> B) p r"
  unfolding rp_grows_def
  by (elim conjE, intro conjI ballI allI) (simp, simp, simp, blast dest: order_trans, meson less_le_trans)

lemma idx_get_member: "v \<in> set (idx_get idx k) \<longleftrightarrow> (\<exists>vs. map_of idx k = Some vs \<and> v \<in> set vs)"
  by (cases "map_of idx k") (simp_all add: idx_get_def)

lemma idx_get_ids: "v \<in> set (idx_get idx k) \<Longrightarrow> v \<in> set (idx_ids idx)"
  by (force simp: idx_get_member idx_ids_def dest: map_of_SomeD)

lemma indexed_below:
  assumes "rp_wf p" and "k \<in> set (idx_get (rp_txs_by_height p) g)"
  shows "k < rp_key_counter p"
proof -
  have below: "\<forall>k \<in> fst ` set (rp_tx_by_key p). k < rp_key_counter p" using assms(1) unfolding rp_wf_def rp_core_def by blast
  have "k \<in> fst ` set (rp_tx_by_key p)" using idx_get_ids [OF assms(2)] rp_wf_distinct_ids(2) [OF assms(1)] by simp
  then show ?thesis by (rule bspec [OF below])
qed

lemma expired_ids_below: "rp_wf p \<Longrightarrow> k \<in> set (expired_ids height p) \<Longrightarrow> k < rp_key_counter p"
  by (auto simp: expired_ids_def indexed_below split: option.splits)

lemma rp_insert_each_grows:
  assumes "rp_wf p" and "rp_key_counter p + length txs < 2 ^ 64 - 1"
  shows "\<exists>p'. rp_insert_each height txs p = Ok p' \<and> rp_grows (set txs) p p' \<and> rp_key_counter p' \<le> rp_key_counter p + length txs \<and>
    (txs \<noteq> [] \<longrightarrow> no_expired height p' \<and> (\<forall>e \<in> set (rp_tx_by_key p'). fst e \<notin> set (expired_ids height p)))"
  using assms
proof (induction txs arbitrary: p)
  case Nil
  then show ?case by (simp add: rp_grows_def)
next
  case (Cons tx txs)
  from rp_insert_grows [OF Cons.prems(1), of height tx] Cons.prems(2) obtain p1 where
    p1: "rp_insert height tx p = Ok p1" "rp_grows {tx} p p1" "rp_key_counter p1 \<le> rp_key_counter p + 1" "no_expired height p1"
      "\<forall>e \<in> set (rp_tx_by_key p1). fst e \<notin> set (expired_ids height p)" by auto
  have wf1: "rp_wf p1" using p1(2) by (simp add: rp_grows_def)
  have "rp_key_counter p1 + length txs < 2 ^ 64 - 1" using p1(3) Cons.prems(2) by simp
  from Cons.IH [OF wf1 this] obtain p' where
    p': "rp_insert_each height txs p1 = Ok p'" "rp_grows (set txs) p1 p'" "rp_key_counter p' \<le> rp_key_counter p1 + length txs"
      "txs \<noteq> [] \<longrightarrow> no_expired height p'" by blast
  have "rp_insert_each height (tx # txs) p = Ok p'" using p1(1) p'(1) by simp
  moreover have "rp_grows (set (tx # txs)) p p'" using rp_grows_trans [OF p1(2) p'(2)] by simp
  moreover have "no_expired height p'" using p1(4) p' by (cases txs) simp_all
  moreover have "fst e \<notin> set (expired_ids height p)" if "e \<in> set (rp_tx_by_key p')" for e
  proof (cases "e \<in> set (rp_tx_by_key p1)")
    case False
    then have "rp_key_counter p \<le> fst e" using p'(2) p1(2) that by (auto simp: rp_grows_def)
    then show ?thesis using expired_ids_below [OF Cons.prems(1)] by (metis not_less)
  qed (use p1(5) in blast)
  ultimately show ?case using p1(3) p'(3) by auto
qed

lemma rp_insert_all_grows:
  assumes "rp_wf p" and "rp_key_counter p + length txs < 2 ^ 64 - 1"
  shows "\<exists>p'. rp_insert_all height txs p = Ok p' \<and> rp_grows (set txs) p p' \<and> rp_key_counter p' \<le> rp_key_counter p + length txs \<and>
    no_expired height p' \<and> (\<forall>e \<in> set (rp_tx_by_key p'). fst e \<notin> set (expired_ids height p))"
proof (cases txs)
  case Nil
  then show ?thesis using cleanup_grows [OF assms(1), of height] by (auto simp: rp_insert_all_def)
next
  case Cons
  then show ?thesis using rp_insert_each_grows [OF assms, of height] by (simp add: rp_insert_all_def)
qed

subsection \<open>Removal\<close>

text \<open>What a removal does: it keeps the pool consistent and exactly the transactions with a property.\<close>

definition rp_keeps ::
  "(nat \<times> ('pk, 'sk, 'com) transaction \<Rightarrow> bool) \<Rightarrow> ('pk, 'sk, 'com) reorg_pool \<Rightarrow> ('pk, 'sk, 'com) reorg_pool \<Rightarrow> bool" where
  "rp_keeps P p p' \<longleftrightarrow> rp_wf p' \<and> rp_expiry_height p' = rp_expiry_height p \<and> rp_key_counter p' = rp_key_counter p \<and>
     rp_tx_by_key p' = filter P (rp_tx_by_key p)"

lemma rp_keeps_trans: "rp_keeps P p q \<Longrightarrow> rp_keeps Q q r \<Longrightarrow> rp_keeps (\<lambda>e. P e \<and> Q e) p r"
  by (simp add: rp_keeps_def)

lemma rp_keeps_cong: "rp_keeps P p q \<Longrightarrow> \<forall>e \<in> set (rp_tx_by_key p). P e \<longleftrightarrow> Q e \<Longrightarrow> rp_keeps Q p q"
  unfolding rp_keeps_def by (metis filter_cong)

text \<open>Taking an identifier out of the height index and its transaction out of the pool.\<close>

definition rp_ids_wf :: "('pk, 'sk, 'com) reorg_pool \<Rightarrow> bool" where
  "rp_ids_wf p \<longleftrightarrow> distinct (map fst (rp_tx_by_key p)) \<and> idx_wf (rp_txs_by_height p) \<and>
     mset (idx_ids (rp_txs_by_height p)) = mset (map fst (rp_tx_by_key p))"

lemma rp_wf_ids: "rp_wf p \<longleftrightarrow> rp_core p \<and> rp_ids_wf p"
  by (auto simp: rp_wf_def rp_ids_wf_def rp_core_def)

lemma strip_removed:
  assumes "rp_ids_wf p"
  shows "idx_wf (strip k (rp_txs_by_height p))"
    "mset (idx_ids (strip k (rp_txs_by_height p))) = mset (map fst (filter (\<lambda>e. fst e \<noteq> k) (rp_tx_by_key p)))"
proof -
  show "idx_wf (strip k (rp_txs_by_height p))" using assms by (simp add: rp_ids_wf_def idx_wf_strip)
  have "distinct (idx_ids (rp_txs_by_height p))"
    using assms mset_eq_imp_distinct_iff unfolding rp_ids_wf_def by metis
  then have "mset (idx_ids (strip k (rp_txs_by_height p))) = mset (remove1 k (map fst (rp_tx_by_key p)))"
    using assms by (simp add: strip_ids rp_ids_wf_def)
  also have "remove1 k (map fst (rp_tx_by_key p)) = map fst (filter (\<lambda>e. fst e \<noteq> k) (rp_tx_by_key p))"
    using assms by (simp add: rp_ids_wf_def distinct_remove1_removeAll removeAll_filter_not_eq filter_map comp_def eq_commute [of k])
  finally show "mset (idx_ids (strip k (rp_txs_by_height p))) = mset (map fst (filter (\<lambda>e. fst e \<noteq> k) (rp_tx_by_key p)))" .
qed

lemma rp_remove_keeps:
  assumes "rp_wf p"
  shows "\<exists>p' t. rp_remove k p = Ok (p', t) \<and> rp_keeps (\<lambda>e. fst e \<noteq> k) p p'"
proof (cases "map_of (rp_tx_by_key p) k")
  case None
  then have "filter (\<lambda>e. fst e \<noteq> k) (rp_tx_by_key p) = rp_tx_by_key p" by (auto simp: map_of_eq_None_iff intro!: filter_True)
  with None assms show ?thesis by (simp add: rp_remove_def rp_keeps_def)
next
  case (Some tx)
  have core: "rp_core p" using assms by (simp add: rp_wf_def)
  have "rp_remove k p = Ok (remove_from_height_index k (rp_drop k tx p), Some tx)"
    using rp_signatures_removable [OF core Some, of idx_remove_strict] by (simp add: rp_remove_def Some rp_drop_def)
  moreover have "rp_wf (remove_from_height_index k (rp_drop k tx p))"
    using rp_core_drop [OF core, of k tx] strip_removed [of p k] assms
    by (simp add: rp_wf_ids rp_ids_wf_def remove_from_height_index_strip rp_core_def rp_drop_def delete_filter)
  ultimately show ?thesis
    by (auto simp: rp_keeps_def remove_from_height_index_strip rp_drop_def delete_filter)
qed

lemma rp_remove_each_keeps:
  assumes "rp_wf p"
  shows "\<exists>p'. rp_remove_each ids p = Ok p' \<and> rp_keeps (\<lambda>e. fst e \<notin> set ids) p p'"
  using assms
proof (induction ids arbitrary: p)
  case Nil
  then show ?case by (simp add: rp_keeps_def)
next
  case (Cons k ids)
  obtain p1 t where p1: "rp_remove k p = Ok (p1, t)" "rp_keeps (\<lambda>e. fst e \<noteq> k) p p1"
    using rp_remove_keeps [OF Cons.prems] by blast
  then have "rp_wf p1" by (simp add: rp_keeps_def)
  from Cons.IH [OF this] obtain p' where p': "rp_remove_each ids p1 = Ok p'" "rp_keeps (\<lambda>e. fst e \<notin> set ids) p1 p'" by blast
  have "rp_keeps (\<lambda>e. fst e \<notin> set (k # ids)) p p'"
    using rp_keeps_trans [OF p1(2) p'(2)] by (rule rp_keeps_cong) simp
  then show ?case using p1(1) p'(1) by simp
qed

text \<open>A transaction is spent by blocks when one of their inputs equals one of its inputs.\<close>

definition spent_by ::
  "('pk, 'sk, 'com) tx_crypto \<Rightarrow> ('pk, 'sk, 'com) block list \<Rightarrow> ('pk, 'sk, 'com) transaction \<Rightarrow> bool" where
  "spent_by X blocks tx \<longleftrightarrow> (\<exists>b \<in> set blocks. \<exists>i \<in> set (body_inputs (tx_body tx)). \<exists>j \<in> set (body_inputs (blk_body b)). input_eq X j i)"

lemma discard_double_spends_keeps:
  assumes "rp_wf p"
  shows "\<exists>p'. discard_double_spends X b p = Ok p' \<and> rp_keeps (\<lambda>e. \<not> spent_by X [b] (snd e)) p p'"
proof -
  define ids where "ids = concat (map (\<lambda>(tx_id, tx). map (\<lambda>_. tx_id)
          (filter (\<lambda>input. list_ex (\<lambda>b. input_eq X b input) (body_inputs (blk_body b))) (body_inputs (tx_body tx))))
          (rp_tx_by_key p))"
  have dist: "distinct (map fst (rp_tx_by_key p))" using assms by (simp add: rp_wf_def rp_core_def)
  have "fst e \<in> set ids \<longleftrightarrow> spent_by X [b] (snd e)" if "e \<in> set (rp_tx_by_key p)" for e
  proof -
    have "fst e \<in> set ids \<longleftrightarrow> (\<exists>tx. (fst e, tx) \<in> set (rp_tx_by_key p) \<and> spent_by X [b] tx)"
      unfolding ids_def by (force simp: spent_by_def list_ex_iff)
    moreover have "tx = snd e" if "(fst e, tx) \<in> set (rp_tx_by_key p)" for tx
      using that \<open>e \<in> set (rp_tx_by_key p)\<close> dist by (metis eq_key_imp_eq_value prod.collapse)
    ultimately show ?thesis using that by (metis prod.collapse)
  qed
  then have same: "\<forall>e \<in> set (rp_tx_by_key p). fst e \<notin> set ids \<longleftrightarrow> \<not> spent_by X [b] (snd e)" by blast
  obtain p' where p': "rp_remove_each ids p = Ok p'" "rp_keeps (\<lambda>e. fst e \<notin> set ids) p p'"
    using rp_remove_each_keeps [OF assms] by blast
  have "discard_double_spends X b p = Ok p'" using p'(1) unfolding discard_double_spends_def ids_def .
  then show ?thesis using rp_keeps_cong [OF p'(2) same] by blast
qed

lemma discard_each_keeps:
  assumes "rp_wf p"
  shows "\<exists>p'. discard_each X blocks p = Ok p' \<and> rp_keeps (\<lambda>e. \<not> spent_by X blocks (snd e)) p p'"
  using assms
proof (induction blocks arbitrary: p)
  case Nil
  then show ?case by (simp add: rp_keeps_def spent_by_def)
next
  case (Cons b blocks)
  obtain p1 where p1: "discard_double_spends X b p = Ok p1" "rp_keeps (\<lambda>e. \<not> spent_by X [b] (snd e)) p p1"
    using discard_double_spends_keeps [OF Cons.prems] by blast
  then have "rp_wf p1" by (simp add: rp_keeps_def)
  from Cons.IH [OF this] obtain p' where
    p': "discard_each X blocks p1 = Ok p'" "rp_keeps (\<lambda>e. \<not> spent_by X blocks (snd e)) p1 p'" by blast
  have "rp_keeps (\<lambda>e. \<not> spent_by X (b # blocks) (snd e)) p p'"
    using rp_keeps_trans [OF p1(2) p'(2)] by (rule rp_keeps_cong) (auto simp: spent_by_def)
  then show ?case using p1(1) p'(1) by auto
qed

subsection \<open>Taking the transactions of removed blocks\<close>

lemma mset_filter_split:
  "distinct (map fst xs) \<Longrightarrow> map_of xs k = Some v \<Longrightarrow>
   mset (map snd (filter (\<lambda>e. fst e = k \<or> P e) xs)) = add_mset v (mset (map snd (filter P (filter (\<lambda>e. fst e \<noteq> k) xs))))"
proof (induction xs)
  case (Cons x xs)
  show ?case
  proof (cases "fst x = k")
    case True
    then have "\<forall>e \<in> set xs. fst e \<noteq> k" using Cons.prems(1) by (auto simp: image_iff)
    then have "filter (\<lambda>e. fst e = k \<or> P e) xs = filter P (filter (\<lambda>e. fst e \<noteq> k) xs)"
      unfolding filter_filter by (intro filter_cong) auto
    then show ?thesis using True Cons.prems(2) by (cases x) simp
  next
    case False
    then show ?thesis using Cons by (cases x) auto
  qed
qed simp

lemma take_ids_ok:
  assumes "rp_ids_wf p"
  shows "\<exists>p' out. take_ids ids (p, acc) = (p', acc @ out) \<and> rp_ids_wf p' \<and>
    rp_tx_by_key p' = filter (\<lambda>e. fst e \<notin> set ids) (rp_tx_by_key p) \<and>
    mset out = mset (map snd (filter (\<lambda>e. fst e \<in> set ids) (rp_tx_by_key p))) \<and>
    rp_txs_by_signature p' = rp_txs_by_signature p \<and> rp_key_counter p' = rp_key_counter p \<and> rp_expiry_height p' = rp_expiry_height p"
  using assms
proof (induction ids arbitrary: p acc)
  case Nil
  then show ?case by simp
next
  case (Cons k ids)
  show ?case
  proof (cases "map_of (rp_tx_by_key p) k")
    case None
    then have "\<forall>e \<in> set (rp_tx_by_key p). fst e \<noteq> k" by (auto simp: map_of_eq_None_iff)
    then have "filter (\<lambda>e. fst e \<in> set (k # ids)) (rp_tx_by_key p) = filter (\<lambda>e. fst e \<in> set ids) (rp_tx_by_key p)"
      "filter (\<lambda>e. fst e \<notin> set (k # ids)) (rp_tx_by_key p) = filter (\<lambda>e. fst e \<notin> set ids) (rp_tx_by_key p)"
      by (auto intro!: filter_cong)
    with Cons.IH [OF Cons.prems, of acc] show ?thesis by (simp only: None take_ids.simps option.case)
  next
    case (Some tx)
    define q where "q = remove_from_height_index k (p\<lparr>rp_tx_by_key := AList.delete k (rp_tx_by_key p)\<rparr>)"
    have keys: "rp_tx_by_key q = filter (\<lambda>e. fst e \<noteq> k) (rp_tx_by_key p)"
      by (auto simp: q_def remove_from_height_index_strip delete_filter)
    have "rp_ids_wf q"
      using Cons.prems strip_removed [OF Cons.prems, of k]
      by (simp add: rp_ids_wf_def q_def remove_from_height_index_strip delete_filter distinct_map_filter)
    from Cons.IH [OF this, of "acc @ [tx]"] obtain p' out where
      p': "take_ids ids (q, acc @ [tx]) = (p', (acc @ [tx]) @ out)" "rp_ids_wf p'"
        "rp_tx_by_key p' = filter (\<lambda>e. fst e \<notin> set ids) (rp_tx_by_key q)"
        "mset out = mset (map snd (filter (\<lambda>e. fst e \<in> set ids) (rp_tx_by_key q)))"
        "rp_txs_by_signature p' = rp_txs_by_signature q" "rp_key_counter p' = rp_key_counter q" "rp_expiry_height p' = rp_expiry_height q"
      by blast
    have "take_ids (k # ids) (p, acc) = (p', acc @ (tx # out))" using p'(1) by (simp add: Some q_def)
    moreover have "rp_tx_by_key p' = filter (\<lambda>e. fst e \<notin> set (k # ids)) (rp_tx_by_key p)"
      unfolding p'(3) keys filter_filter by (rule filter_cong) auto
    moreover have "mset (tx # out) = mset (map snd (filter (\<lambda>e. fst e \<in> set (k # ids)) (rp_tx_by_key p)))"
      using mset_filter_split [OF _ Some, of "\<lambda>e. fst e \<in> set ids"] Cons.prems p'(4) by (simp add: keys rp_ids_wf_def)
    moreover have "rp_txs_by_signature p' = rp_txs_by_signature p" "rp_key_counter p' = rp_key_counter p" "rp_expiry_height p' = rp_expiry_height p"
      using p'(5-7) by (simp_all add: q_def remove_from_height_index_strip)
    ultimately show ?thesis using p'(2) by blast
  qed
qed

text \<open>A transaction is mined under signatures when one of its kernels carries one of them.\<close>

definition mined_under :: "'sk list \<Rightarrow> ('pk, 'sk, 'com) transaction \<Rightarrow> bool" where
  "mined_under sigs tx \<longleftrightarrow> (\<exists>s \<in> set sigs. s \<in> set (tx_signatures tx))"

lemma mined_under_Cons: "mined_under (s # sigs) tx \<longleftrightarrow> mined_under [s] tx \<or> mined_under sigs tx"
  by (simp add: mined_under_def)

lemma indexed_under:
  assumes "rp_core p" and "e \<in> set (rp_tx_by_key p)"
  shows "fst e \<in> set (idx_get (rp_txs_by_signature p) s) \<longleftrightarrow> s \<in> set (tx_signatures (snd e))"
proof -
  have "count_list (idx_get (rp_txs_by_signature p) s) (fst e) = count_list (tx_signatures (snd e)) s"
    using assms by (auto simp: rp_core_def)
  then show ?thesis by (metis count_list_0_iff)
qed

lemma take_signature_ok:
  assumes "rp_wf p" and "map_of (rp_txs_by_signature p) s = Some ids"
  shows "\<exists>p' out. take_ids ids (p\<lparr>rp_txs_by_signature := AList.delete s (rp_txs_by_signature p)\<rparr>, acc) = (p', acc @ out) \<and>
    rp_keeps (\<lambda>e. \<not> mined_under [s] (snd e)) p p' \<and> mset out = mset (map snd (filter (\<lambda>e. mined_under [s] (snd e)) (rp_tx_by_key p)))"
proof -
  let ?q = "p\<lparr>rp_txs_by_signature := AList.delete s (rp_txs_by_signature p)\<rparr>"
  have core: "rp_core p" using assms(1) by (simp add: rp_wf_def)
  have under: "fst e \<in> set ids \<longleftrightarrow> mined_under [s] (snd e)" if "e \<in> set (rp_tx_by_key p)" for e
    using indexed_under [OF core that, of s] assms(2) by (simp add: mined_under_def idx_get_def)
  have "rp_ids_wf ?q" using assms(1) by (simp add: rp_wf_ids rp_ids_wf_def)
  from take_ids_ok [OF this, of ids acc] obtain p' out where p': "take_ids ids (?q, acc) = (p', acc @ out)" "rp_ids_wf p'"
    "rp_tx_by_key p' = filter (\<lambda>e. fst e \<notin> set ids) (rp_tx_by_key p)"
    "mset out = mset (map snd (filter (\<lambda>e. fst e \<in> set ids) (rp_tx_by_key p)))"
    "rp_txs_by_signature p' = AList.delete s (rp_txs_by_signature p)"
    "rp_key_counter p' = rp_key_counter p" "rp_expiry_height p' = rp_expiry_height p"
    by auto
  have kept: "rp_tx_by_key p' = filter (\<lambda>e. \<not> mined_under [s] (snd e)) (rp_tx_by_key p)"
    unfolding p'(3) using under by (intro filter_cong) auto
  have get: "idx_get (AList.delete s (rp_txs_by_signature p)) t = (if t = s then [] else idx_get (rp_txs_by_signature p) t)" for t
    by (simp add: idx_get_def delete_conv')
  have "count_list (idx_get (rp_txs_by_signature p') t) k = count_list (tx_signatures tx) t" if "(k, tx) \<in> set (rp_tx_by_key p')" for k tx t
    using that core by (cases "t = s") (auto simp: get p'(5) kept mined_under_def count_list_0_iff rp_core_def)
  moreover have "\<forall>t. \<forall>k \<in> set (idx_get (rp_txs_by_signature p') t). k < rp_key_counter p'"
    using core by (simp add: get p'(5,6) rp_core_def)
  moreover have "\<forall>k \<in> fst ` set (rp_tx_by_key p'). k < rp_key_counter p'" using core by (auto simp: rp_core_def p'(3,6))
  ultimately have "rp_core p'"
    using core p'(2,5) unfolding rp_core_def rp_ids_wf_def by (auto simp: idx_wf_delete)
  moreover have "filter (\<lambda>e. fst e \<in> set ids) (rp_tx_by_key p) = filter (\<lambda>e. mined_under [s] (snd e)) (rp_tx_by_key p)"
    using under by (intro filter_cong) auto
  ultimately show ?thesis using p' kept by (simp add: rp_keeps_def rp_wf_ids)
qed

lemma mset_filter_disj:
  "mset (filter (\<lambda>x. P x \<or> Q x) xs) = mset (filter P xs) + mset (filter Q (filter (\<lambda>x. \<not> P x) xs))"
  by (induction xs) (auto simp: filter_filter_mset)

lemma take_signatures_ok:
  assumes "rp_wf p"
  shows "\<exists>p' out. take_signatures sigs (p, acc) = (p', acc @ out) \<and> rp_keeps (\<lambda>e. \<not> mined_under sigs (snd e)) p p' \<and>
    mset out = mset (map snd (filter (\<lambda>e. mined_under sigs (snd e)) (rp_tx_by_key p)))"
  using assms
proof (induction sigs arbitrary: p acc)
  case Nil
  then show ?case by (simp add: rp_keeps_def mined_under_def)
next
  case (Cons s sigs)
  have "\<exists>p1 out1. take_signatures (s # sigs) (p, acc) = take_signatures sigs (p1, acc @ out1) \<and>
    rp_keeps (\<lambda>e. \<not> mined_under [s] (snd e)) p p1 \<and> mset out1 = mset (map snd (filter (\<lambda>e. mined_under [s] (snd e)) (rp_tx_by_key p)))"
  proof (cases "map_of (rp_txs_by_signature p) s")
    case None
    then have none: "\<forall>e \<in> set (rp_tx_by_key p). \<not> mined_under [s] (snd e)"
      using indexed_under [of p _ s] Cons.prems by (simp add: mined_under_def idx_get_def rp_wf_def)
    then show ?thesis using Cons.prems None by (intro exI [of _ p] exI [of _ "[]"]) (simp add: rp_keeps_def)
  next
    case (Some ids)
    obtain p1 out1 where
      "take_ids ids (p\<lparr>rp_txs_by_signature := AList.delete s (rp_txs_by_signature p)\<rparr>, acc) = (p1, acc @ out1)"
      "rp_keeps (\<lambda>e. \<not> mined_under [s] (snd e)) p p1"
      "mset out1 = mset (map snd (filter (\<lambda>e. mined_under [s] (snd e)) (rp_tx_by_key p)))"
      using take_signature_ok [OF Cons.prems Some, of acc] by blast
    then show ?thesis by (intro exI [of _ p1] exI [of _ out1]) (simp add: Some)
  qed
  then obtain p1 out1 where p1: "take_signatures (s # sigs) (p, acc) = take_signatures sigs (p1, acc @ out1)"
    "rp_keeps (\<lambda>e. \<not> mined_under [s] (snd e)) p p1"
    "mset out1 = mset (map snd (filter (\<lambda>e. mined_under [s] (snd e)) (rp_tx_by_key p)))" by blast
  then have "rp_wf p1" by (simp add: rp_keeps_def)
  from Cons.IH [OF this, of "acc @ out1"] obtain p' out where p': "take_signatures sigs (p1, acc @ out1) = (p', (acc @ out1) @ out)"
    "rp_keeps (\<lambda>e. \<not> mined_under sigs (snd e)) p1 p'"
    "mset out = mset (map snd (filter (\<lambda>e. mined_under sigs (snd e)) (rp_tx_by_key p1)))" by blast
  have "rp_keeps (\<lambda>e. \<not> mined_under (s # sigs) (snd e)) p p'"
    using rp_keeps_trans [OF p1(2) p'(2)] by (rule rp_keeps_cong) (auto simp: mined_under_Cons [of s sigs])
  moreover have "mset (out1 @ out) = mset (map snd (filter (\<lambda>e. mined_under (s # sigs) (snd e)) (rp_tx_by_key p)))"
  proof -
    have "rp_tx_by_key p1 = filter (\<lambda>e. \<not> mined_under [s] (snd e)) (rp_tx_by_key p)" using p1(2) by (simp add: rp_keeps_def)
    then have "mset (out1 @ out) = image_mset snd (mset (filter (\<lambda>e. mined_under [s] (snd e)) (rp_tx_by_key p)) +
        mset (filter (\<lambda>e. mined_under sigs (snd e)) (filter (\<lambda>e. \<not> mined_under [s] (snd e)) (rp_tx_by_key p))))"
      using p1(3) p'(3) by simp
    then show ?thesis unfolding mset_filter_disj [symmetric] mined_under_Cons [of s sigs] mset_map .
  qed
  ultimately show ?case using p1(1) p'(1) by (metis append_assoc)
qed

subsection \<open>A reorganisation\<close>

text \<open>
  (C35) When a reorganisation replaces blocks, the pool never panics and stays consistent; it keeps exactly the transactions that no
  new block spends (by an equal input) and that share no kernel signature with a removed block, and hands back exactly the
  transactions that are not spent and share a signature with a removed block, each once.
\<close>

theorem reorg_exact:
  assumes "rp_wf pool"
  shows "\<exists>pool' txs. remove_reorged_txs_and_discard_double_spends X removed_blocks new_blocks pool = Ok (pool', txs) \<and> rp_wf pool' \<and>
    (let mined = (\<lambda>e. mined_under (concat (map block_signatures removed_blocks)) (snd e)); spent = (\<lambda>e. spent_by X new_blocks (snd e)) in
     rp_tx_by_key pool' = filter (\<lambda>e. \<not> spent e \<and> \<not> mined e) (rp_tx_by_key pool) \<and>
     mset txs = mset (map snd (filter (\<lambda>e. \<not> spent e \<and> mined e) (rp_tx_by_key pool))))"
proof -
  obtain q where q: "discard_each X new_blocks pool = Ok q" "rp_keeps (\<lambda>e. \<not> spent_by X new_blocks (snd e)) pool q"
    using discard_each_keeps [OF assms] by blast
  then have "rp_wf q" by (simp add: rp_keeps_def)
  from take_signatures_ok [OF this, of "concat (map block_signatures removed_blocks)" "[]"] q show ?thesis
    by (fastforce simp: remove_reorged_txs_and_discard_double_spends_def rp_keeps_def Let_def filter_filter_mset conj_commute)
qed

text \<open>
  (C37) A transaction with two kernels of which a removed block contains one is handed back, but its identifier stays under the
  signature of its other kernel: asking the pool for that signature afterwards panics, although the pool is empty.
\<close>

theorem stale_signature_panics:
  assumes "tx_signatures tx = [a, b]" and "a \<noteq> b" and "block_signatures removed = [a]" and "expiry \<noteq> 0"
  shows "\<exists>pool pool'. rp_insert height tx (rp_new expiry) = Ok pool \<and>
    remove_reorged_txs_and_discard_double_spends X [removed] [] pool = Ok (pool', [tx]) \<and> rp_snapshot pool' = [] \<and>
    rp_retrieve_by_excess_sigs [b] pool' = Panic"
proof -
  have "checked_sub_u64 height expiry \<noteq> Some height"
    using assms(4) by (auto simp: checked_sub_u64_def)
  then have "rp_insert height tx (rp_new expiry) = Ok \<lparr>rp_expiry_height = expiry, rp_key_counter = 1, rp_tx_by_key = [(0, tx)],
      rp_txs_by_signature = idx_push_all [a, b] 0 [], rp_txs_by_height = [(height, [0])]\<rparr>"
    using assms(1) by (auto simp: rp_insert_def rp_new_def rp_get_next_key_def rp_store_def cleanup_expired_def idx_contains_def
        idx_push_def idx_get_def split: option.split)
  moreover have "idx_push_all [a, b] (0::nat) [] = [(a, [0]), (b, [0])]" using assms(2) by (simp add: idx_push_def idx_get_def)
  ultimately show ?thesis
    using assms(2,3) by (auto simp: remove_reorged_txs_and_discard_double_spends_def remove_from_height_index_def rp_snapshot_def
        rp_retrieve_by_excess_sigs_def idx_get_def)
qed

subsection \<open>Expiry over a run of blocks\<close>

text \<open>The insertions that a sequence of published blocks causes, given by their heights and the transactions taken from the pool.\<close>

fun rp_publish ::
  "(u64 \<times> ('pk, 'sk, 'com) transaction list) list \<Rightarrow> ('pk, 'sk, 'com) reorg_pool \<Rightarrow> (unit, ('pk, 'sk, 'com) reorg_pool) outcome" where
  "rp_publish [] p = Ok p"
| "rp_publish ((height, txs) # run) p = and_then (rp_insert_all height txs p) (rp_publish run)"

abbreviation run_size :: "(u64 \<times> ('pk, 'sk, 'com) transaction list) list \<Rightarrow> nat" where
  "run_size run \<equiv> sum_list (map (\<lambda>b. length (snd b)) run)"

lemma rp_publish_grows:
  assumes "rp_wf p" and "rp_key_counter p + run_size run < 2 ^ 64 - 1"
  shows "\<exists>p' txs. rp_publish run p = Ok p' \<and> rp_grows txs p p'"
  using assms
proof (induction run arbitrary: p)
  case Nil
  then show ?case by (auto simp: rp_grows_def)
next
  case (Cons b run)
  obtain p1 where p1: "rp_insert_all (fst b) (snd b) p = Ok p1" "rp_grows (set (snd b)) p p1"
      "rp_key_counter p1 \<le> rp_key_counter p + length (snd b)"
    using rp_insert_all_grows [OF Cons.prems(1), of "snd b" "fst b"] Cons.prems(2) by auto
  have "rp_wf p1" "rp_key_counter p1 + run_size run < 2 ^ 64 - 1" using p1 Cons.prems(2) by (simp_all add: rp_grows_def)
  from Cons.IH [OF this] obtain p' txs where "rp_publish run p1 = Ok p'" "rp_grows txs p1 p'" by blast
  then show ?case using p1(1) rp_grows_trans [OF p1(2)] by (cases b) auto
qed

text \<open>Once an identifier is gone it does not come back, and while it is stored it is stored at its height.\<close>

lemma rp_grows_gone: "rp_grows txs p p' \<Longrightarrow> k < rp_key_counter p \<Longrightarrow> k \<notin> fst ` set (rp_tx_by_key p) \<Longrightarrow> k \<notin> fst ` set (rp_tx_by_key p')"
  unfolding rp_grows_def by (elim conjE) (force simp: image_iff)

lemma stored_at_some_height:
  assumes "rp_wf p" and "k \<in> fst ` set (rp_tx_by_key p)"
  shows "\<exists>g. k \<in> set (idx_get (rp_txs_by_height p) g)"
proof -
  have "k \<in> set (idx_ids (rp_txs_by_height p))" using rp_wf_distinct_ids(2) [OF assms(1)] assms(2) by simp
  then obtain g ids where e: "(g, ids) \<in> set (rp_txs_by_height p)" "k \<in> set ids" by (auto simp: idx_ids_def)
  moreover have "distinct (map fst (rp_txs_by_height p))" using assms(1) by (simp add: rp_wf_def idx_wf_def)
  ultimately show ?thesis by (intro exI [of _ g]) (simp add: idx_get_def)
qed

lemma stored_at_one_height:
  assumes "rp_wf p" and "k \<in> set (idx_get (rp_txs_by_height p) g)" and "k \<in> set (idx_get (rp_txs_by_height p) g')"
  shows "g' = g"
proof (rule ccontr)
  assume "g' \<noteq> g"
  obtain ids where ids: "map_of (rp_txs_by_height p) g = Some ids" "k \<in> set ids"
    using assms(2) unfolding idx_get_member by blast
  have "mset (idx_ids (rp_txs_by_height p)) = mset (ids @ idx_ids (AList.delete g (rp_txs_by_height p)))"
    using idx_ids_delete [OF _ ids(1)] assms(1) by (simp add: rp_wf_def idx_wf_def)
  then have "distinct (ids @ idx_ids (AList.delete g (rp_txs_by_height p)))"
    using rp_wf_distinct_ids(1) [OF assms(1)] mset_eq_imp_distinct_iff by metis
  moreover obtain ids' where ids': "map_of (rp_txs_by_height p) g' = Some ids'" "k \<in> set ids'"
    using assms(3) unfolding idx_get_member by blast
  have "(g', ids') \<in> set (AList.delete g (rp_txs_by_height p))"
    using map_of_SomeD [OF ids'(1)] \<open>g' \<noteq> g\<close> by (simp add: delete_filter)
  then have "k \<in> set (idx_ids (AList.delete g (rp_txs_by_height p)))" using ids'(2) by (force simp: idx_ids_def)
  ultimately show False using ids(2) by auto
qed

lemma rp_publish_expires:
  assumes "rp_wf p" and "rp_key_counter p + run_size run < 2 ^ 64 - 1"
    and "k < rp_key_counter p" and "\<forall>g'. k \<in> set (idx_get (rp_txs_by_height p) g') \<longrightarrow> g' = g"
    and "unat g + unat (rp_expiry_height p) < 2 ^ 64" and "g + rp_expiry_height p \<in> fst ` set run"
  shows "\<exists>p'. rp_publish run p = Ok p' \<and> rp_wf p' \<and> k \<notin> fst ` set (rp_tx_by_key p')"
  using assms
proof (induction run arbitrary: p)
  case (Cons b run)
  obtain p1 where p1: "rp_insert_all (fst b) (snd b) p = Ok p1" "rp_grows (set (snd b)) p p1"
      "rp_key_counter p1 \<le> rp_key_counter p + length (snd b)" "\<forall>e \<in> set (rp_tx_by_key p1). fst e \<notin> set (expired_ids (fst b) p)"
    using rp_insert_all_grows [OF Cons.prems(1), of "snd b" "fst b"] Cons.prems(2) by auto
  have wf1: "rp_wf p1" "rp_key_counter p1 + run_size run < 2 ^ 64 - 1" "rp_expiry_height p1 = rp_expiry_height p"
      "rp_key_counter p \<le> rp_key_counter p1"
    using p1 Cons.prems(2) by (simp_all add: rp_grows_def)
  have step: "rp_publish (b # run) p = rp_publish run p1" using p1(1) by (cases b) simp
  show ?case
  proof (cases "fst b = g + rp_expiry_height p")
    case True
    have "checked_sub_u64 (fst b) (rp_expiry_height p) = Some g"
      using Cons.prems(5) by (simp add: True checked_sub_u64_def word_le_nat_alt unat_add_lem [THEN iffD1])
    then have expired: "expired_ids (fst b) p = idx_get (rp_txs_by_height p) g" by (simp add: expired_ids_def)
    have "k \<notin> fst ` set (rp_tx_by_key p1)"
    proof (cases "k \<in> fst ` set (rp_tx_by_key p)")
      case True
      then have "k \<in> set (expired_ids (fst b) p)" using stored_at_some_height [OF Cons.prems(1)] Cons.prems(4) expired by metis
      then show ?thesis using p1(4) by blast
    qed (rule rp_grows_gone [OF p1(2) Cons.prems(3)])
    moreover obtain p' txs where "rp_publish run p1 = Ok p'" "rp_grows txs p1 p'" using rp_publish_grows [OF wf1(1,2)] by blast
    ultimately show ?thesis using step rp_grows_gone [of txs p1 p' k] Cons.prems(3) wf1(4) by (simp add: rp_grows_def)
  next
    case False
    have "\<forall>g'. k \<in> set (idx_get (rp_txs_by_height p1) g') \<longrightarrow> g' = g"
      using p1(2) Cons.prems(3,4) unfolding rp_grows_def by blast
    then show ?thesis using Cons.IH [OF wf1(1,2)] Cons.prems(3,5,6) wf1(3,4) False step by auto
  qed
qed simp

text \<open>
  (C36) Every transaction of the pool expires: once blocks have been published up to and including the height at which the
  transaction was stored plus the expiry height, whatever the other blocks of the run are, the transaction has left the pool;
  no publication of the run panics. The identifiers must not wrap around during the run.
\<close>

theorem reorg_expiry:
  assumes "rp_wf pool" and "rp_key_counter pool + run_size run < 2 ^ 64 - 1"
    and "k \<in> set (idx_get (rp_txs_by_height pool) stored_at)" and "unat stored_at + unat (rp_expiry_height pool) < 2 ^ 64"
    and "stored_at + rp_expiry_height pool \<in> fst ` set run"
  shows "\<exists>pool'. rp_publish run pool = Ok pool' \<and> rp_wf pool' \<and> map_of (rp_tx_by_key pool') k = None"
proof -
  have "k < rp_key_counter pool" by (rule indexed_below [OF assms(1,3)])
  moreover have "\<forall>g'. k \<in> set (idx_get (rp_txs_by_height pool) g') \<longrightarrow> g' = stored_at"
    using stored_at_one_height [OF assms(1,3)] by blast
  ultimately show ?thesis
    using rp_publish_expires [OF assms(1,2) _ _ assms(4,5)] unfolding map_of_eq_None_iff by simp
qed

subsection \<open>Concrete instances\<close>

definition sample_reorg_pool :: "(u8, u8, u8) reorg_pool" where
  "sample_reorg_pool =
     \<lparr>rp_expiry_height = 5, rp_key_counter = 3,
      rp_tx_by_key = [(0, sample_spend [[9]] 1 1 1), (1, sample_spend [[8]] 2 2 2), (2, sample_spend [[7]] 3 5 3)],
      rp_txs_by_signature = [(1, [0]), (2, [1]), (3, [2])], rp_txs_by_height = [(10, [0, 1]), (11, [2])]\<rparr>"

lemma sample_reorg_pool_wf: "rp_wf sample_reorg_pool"
  by (auto simp: rp_wf_def rp_core_def sample_reorg_pool_def idx_wf_def idx_get_def idx_ids_def split: if_splits)

definition sample_block :: "(u8, u8, u8) aggregate_body \<Rightarrow> (u8, u8, u8) block" where
  "sample_block body = \<lparr>blk_header = sample_header 11 0, blk_body = body\<rparr>"

theorem reorg_exact_witness:
  "\<exists>pool'. remove_reorged_txs_and_discard_double_spends sample_tx [sample_block (body_new [] [] [sample_kernel 1 0, sample_kernel 2 0])]
       [sample_block (tx_body (sample_spend [[8]] 4 4 4))] sample_reorg_pool = Ok (pool', [sample_spend [[9]] 1 1 1]) \<and>
     rp_snapshot pool' = [sample_spend [[7]] 3 5 3]"
proof -
  let ?old = "sample_block (body_new [] [] [sample_kernel 1 0, sample_kernel 2 0])" and ?new = "sample_block (tx_body (sample_spend [[8]] 4 4 4))"
  have "spent_by sample_tx [?new] (sample_spend [h] c fee s) \<longleftrightarrow> h = [8]" for h c fee s
    by (auto simp: spent_by_def sample_block_def sample_spend_def transaction_new_def body_new_def input_eq_def input_output_hash_def)
  moreover have "mined_under (concat (map block_signatures [?old])) (sample_spend hs c fee s) \<longleftrightarrow> s = 1 \<or> s = 2" for hs c fee s
    by (auto simp: mined_under_def block_signatures_def sample_block_def body_new_def sample_kernel_def)
  ultimately show ?thesis
    using reorg_exact [OF sample_reorg_pool_wf, of sample_tx "[?old]" "[?new]"]
    by (auto simp: Let_def sample_reorg_pool_def rp_snapshot_def)
qed

theorem stale_signature_panics_witness:
  "\<exists>pool pool'. rp_insert 7 (transaction_new [] [] [sample_kernel 1 0, sample_kernel 2 0] 0 0) (rp_new 5) = Ok pool \<and>
     remove_reorged_txs_and_discard_double_spends sample_tx [sample_block (body_new [] [] [sample_kernel 1 0])] [] pool =
       Ok (pool', [transaction_new [] [] [sample_kernel 1 0, sample_kernel 2 0] 0 0]) \<and> rp_snapshot pool' = [] \<and>
     rp_retrieve_by_excess_sigs [2] pool' = Panic"
  by (rule stale_signature_panics [where a = 1])
     (simp_all add: tx_signatures_def transaction_new_def body_new_def sample_kernel_def block_signatures_def sample_block_def)

theorem reorg_expiry_witness:
  "\<exists>pool'. rp_publish [(12, [sample_spend [[6]] 6 1 6]), (15, []), (16, [])] sample_reorg_pool = Ok pool' \<and> rp_wf pool' \<and>
     map_of (rp_tx_by_key pool') 2 = None"
  by (rule reorg_expiry [OF sample_reorg_pool_wf, of _ _ 11]) (simp_all add: sample_reorg_pool_def idx_get_def)

end
