(* ===== verification/Consensus_Manager.thy ===== *)
theory Consensus_Manager
  imports Blocks
begin

text \<open>
  Accumulated difficulty, chain strength and the consensus manager: \<open>blocks/accumulated_data.rs\<close>,
  \<open>consensus/chain_strength_comparer.rs\<close>, \<open>consensus/consensus_manager.rs\<close>, \<open>chain_storage/target_difficulties.rs\<close>,
  and the difficulty of a hash (\<open>proof_of_work/difficulty.rs\<close>, \<open>proof_of_work/sha3_pow.rs\<close>), under \<open>src/base_layer/core/src/\<close>.

  The deleted bitmaps and the pruned hash sets of the accumulated data of a block belong to the database and are not
  modelled here. The genesis blocks are built from files of the repository that hold their transactions and are a parameter.
\<close>

subsection \<open>The difficulty of a hash\<close>

text \<open>\<open>U256::from_little_endian\<close>, division and the cut at \<open>u64::MAX\<close>; dividing by zero panics.\<close>

definition difficulty_of_scalar :: "nat \<Rightarrow> (unit, difficulty) outcome" where
  "difficulty_of_scalar scalar = (if scalar = 0 then Panic else Ok (of_nat (min ((2 ^ 256 - 1) div scalar) (2 ^ 64 - 1))))"

definition big_endian_difficulty :: "bytes \<Rightarrow> (unit, difficulty) outcome" where
  "big_endian_difficulty hash = difficulty_of_scalar (le_value (rev hash))"

definition little_endian_difficulty :: "bytes \<Rightarrow> (unit, difficulty) outcome" where
  "little_endian_difficulty hash = difficulty_of_scalar (le_value hash)"

definition sha3_hash :: "('pk, 'sk, 'com) tx_crypto \<Rightarrow> 'sk block_ops \<Rightarrow> 'sk block_header \<Rightarrow> bytes" where
  "sha3_hash X B header =
     sha3_256 (crypto X) (le_bytes_64 (hd_nonce header) @ mining_hash B header @ pow_to_bytes (hd_pow header))"

definition sha3x_difficulty_with_hash ::
  "('pk, 'sk, 'com) tx_crypto \<Rightarrow> 'sk block_ops \<Rightarrow> 'sk block_header \<Rightarrow> (unit, difficulty \<times> bytes) outcome" where
  "sha3x_difficulty_with_hash X B header =
     (let hash = sha3_256 (crypto X) (sha3_256 (crypto X) (sha3_hash X B header))
      in map_ok (\<lambda>d. (d, hash)) (big_endian_difficulty hash))"

definition sha3x_difficulty ::
  "('pk, 'sk, 'com) tx_crypto \<Rightarrow> 'sk block_ops \<Rightarrow> 'sk block_header \<Rightarrow> (unit, difficulty) outcome" where
  "sha3x_difficulty X B header = map_ok fst (sha3x_difficulty_with_hash X B header)"

subsection \<open>Accumulated data\<close>

record 'sk accumulated_data =
  ad_hash :: bytes
  ad_total_kernel_offset :: 'sk
  ad_achieved_difficulty :: difficulty
  ad_total_accumulated_difficulty :: nat
  ad_accumulated_monero_difficulty :: difficulty
  ad_accumulated_sha_difficulty :: difficulty
  ad_target_difficulty :: difficulty

datatype block_error =
  BuilderMissingField string | BuilderInvalidValue string | HistoricalBlockContainsPrunedTxos | ChainBlockInvariantError

record 'sk accumulated_data_builder =
  adb_previous_accum :: "'sk accumulated_data"
  adb_hash :: "bytes option"
  adb_current_total_kernel_offset :: "'sk option"
  adb_current_achieved_target :: "achieved_target_difficulty option"

definition adb_from_previous :: "'sk accumulated_data \<Rightarrow> 'sk accumulated_data_builder" where
  "adb_from_previous prev =
     \<lparr>adb_previous_accum = prev, adb_hash = None, adb_current_total_kernel_offset = None, adb_current_achieved_target = None\<rparr>"

definition with_hash :: "bytes \<Rightarrow> 'sk accumulated_data_builder \<Rightarrow> 'sk accumulated_data_builder" where
  "with_hash h self = self\<lparr>adb_hash := Some h\<rparr>"

definition with_total_kernel_offset :: "'sk \<Rightarrow> 'sk accumulated_data_builder \<Rightarrow> 'sk accumulated_data_builder" where
  "with_total_kernel_offset off self = self\<lparr>adb_current_total_kernel_offset := Some off\<rparr>"

definition with_achieved_target_difficulty ::
  "achieved_target_difficulty \<Rightarrow> 'sk accumulated_data_builder \<Rightarrow> 'sk accumulated_data_builder" where
  "with_achieved_target_difficulty a self = self\<lparr>adb_current_achieved_target := Some a\<rparr>"

definition adb_build ::
  "('pk, 'sk, 'com) tx_crypto \<Rightarrow> 'sk accumulated_data_builder \<Rightarrow> (block_error, 'sk accumulated_data) outcome" where
  "adb_build X self =
     (let prev = adb_previous_accum self
      in and_then (ok_or (BuilderMissingField ''hash'') (adb_hash self)) (\<lambda>h.
         if h = ad_hash prev then Err (BuilderInvalidValue ''hash'')
         else and_then (ok_or (BuilderMissingField ''Current achieved difficulty'') (adb_current_achieved_target self)) (\<lambda>tgt.
         and_then (case pow_algo tgt of
             Monero \<Rightarrow> map_ok (\<lambda>m. (m, ad_accumulated_sha_difficulty prev)) (add_u64 (ad_accumulated_monero_difficulty prev) (achieved tgt))
           | Sha3 \<Rightarrow> map_ok (\<lambda>s. (ad_accumulated_monero_difficulty prev, s)) (add_u64 (ad_accumulated_sha_difficulty prev) (achieved tgt)))
           (\<lambda>(monero_diff, blake_diff).
         and_then (ok_or (BuilderMissingField ''total_kernel_offset'') (adb_current_total_kernel_offset self)) (\<lambda>off.
         and_then (u128 (unat monero_diff * unat blake_diff)) (\<lambda>total.
         Ok \<lparr>ad_hash = h, ad_total_kernel_offset = sk_add X (ad_total_kernel_offset prev) off,
             ad_achieved_difficulty = achieved tgt, ad_total_accumulated_difficulty = total,
             ad_accumulated_monero_difficulty = monero_diff, ad_accumulated_sha_difficulty = blake_diff,
             ad_target_difficulty = target tgt\<rparr>))))))"

subsection \<open>Headers and blocks of a chain\<close>

record 'sk chain_header =
  ch_header :: "'sk block_header"
  ch_accumulated_data :: "'sk accumulated_data"

record ('pk, 'sk, 'com) chain_block =
  cb_accumulated_data :: "'sk accumulated_data"
  cb_block :: "('pk, 'sk, 'com) block"

definition chain_header_try_construct ::
  "'sk block_ops \<Rightarrow> 'sk block_header \<Rightarrow> 'sk accumulated_data \<Rightarrow> 'sk chain_header option" where
  "chain_header_try_construct B header accum =
     (if ad_hash accum \<noteq> header_hash B header then None else Some \<lparr>ch_header = header, ch_accumulated_data = accum\<rparr>)"

definition chain_block_try_construct ::
  "'sk block_ops \<Rightarrow> ('pk, 'sk, 'com) block \<Rightarrow> 'sk accumulated_data \<Rightarrow> ('pk, 'sk, 'com) chain_block option" where
  "chain_block_try_construct B blk accum =
     (if ad_hash accum \<noteq> block_hash B blk then None else Some \<lparr>cb_accumulated_data = accum, cb_block = blk\<rparr>)"

definition to_chain_header :: "'sk block_ops \<Rightarrow> ('pk, 'sk, 'com) chain_block \<Rightarrow> (unit, 'sk chain_header) outcome" where
  "to_chain_header B self = or_panic (chain_header_try_construct B (blk_header (cb_block self)) (cb_accumulated_data self))"

definition upgrade_to_chain_block ::
  "'sk block_ops \<Rightarrow> ('pk, 'sk, 'com) aggregate_body \<Rightarrow> 'sk chain_header \<Rightarrow> (unit, ('pk, 'sk, 'com) chain_block) outcome" where
  "upgrade_to_chain_block B body self =
     or_panic (chain_block_try_construct B \<lparr>blk_header = ch_header self, blk_body = body\<rparr> (ch_accumulated_data self))"

subsection \<open>Chain strength\<close>

datatype ordering = OrdLess | OrdEqual | OrdGreater

type_synonym 'sk comparer = "'sk chain_header \<Rightarrow> 'sk chain_header \<Rightarrow> ordering"

definition ord_cmp :: "'a :: linorder \<Rightarrow> 'a \<Rightarrow> ordering" where
  "ord_cmp a b = (if a < b then OrdLess else if a = b then OrdEqual else OrdGreater)"

definition then_comparer :: "'sk comparer \<Rightarrow> 'sk comparer \<Rightarrow> 'sk comparer" where
  "then_comparer before after a b = (case before a b of OrdEqual \<Rightarrow> after a b | OrdLess \<Rightarrow> OrdLess | OrdGreater \<Rightarrow> OrdGreater)"

definition accumulated_difficulty_squared_comparer :: "'sk comparer" where
  "accumulated_difficulty_squared_comparer a b =
     ord_cmp (ad_total_accumulated_difficulty (ch_accumulated_data a)) (ad_total_accumulated_difficulty (ch_accumulated_data b))"

definition monero_difficulty_comparer :: "'sk comparer" where
  "monero_difficulty_comparer a b =
     ord_cmp (ad_accumulated_monero_difficulty (ch_accumulated_data a)) (ad_accumulated_monero_difficulty (ch_accumulated_data b))"

definition sha3_difficulty_comparer :: "'sk comparer" where
  "sha3_difficulty_comparer a b =
     ord_cmp (ad_accumulated_sha_difficulty (ch_accumulated_data a)) (ad_accumulated_sha_difficulty (ch_accumulated_data b))"

definition height_comparer :: "'sk comparer" where
  "height_comparer a b = ord_cmp (hd_height (ch_header a)) (hd_height (ch_header b))"

definition add_comparer_as_then :: "'sk comparer \<Rightarrow> 'sk comparer option \<Rightarrow> 'sk comparer option" where
  "add_comparer_as_then inner self = Some (case self of Some t \<Rightarrow> then_comparer t inner | None \<Rightarrow> inner)"

definition comparer_build :: "'sk comparer option \<Rightarrow> (unit, 'sk comparer) outcome" where
  "comparer_build self = or_panic self"

definition strongest_chain :: "'sk comparer option" where
  "strongest_chain = None"

subsection \<open>The consensus manager\<close>

record ('pk, 'sk, 'com) consensus_manager =
  cm_consensus_constants :: "consensus_constants list"
  cm_network :: network
  cm_emission :: emission_schedule
  cm_gen_block :: "('pk, 'sk, 'com) chain_block option"
  cm_chain_strength_comparer :: "'sk comparer"

record ('pk, 'sk, 'com) consensus_manager_builder =
  cmb_consensus_constants :: "consensus_constants list"
  cmb_network :: network
  cmb_gen_block :: "('pk, 'sk, 'com) chain_block option"
  cmb_chain_strength_comparer :: "'sk comparer option"

definition cmb_new :: "network \<Rightarrow> ('pk, 'sk, 'com) consensus_manager_builder" where
  "cmb_new net =
     \<lparr>cmb_consensus_constants = [], cmb_network = net, cmb_gen_block = None, cmb_chain_strength_comparer = None\<rparr>"

definition add_consensus_constants ::
  "consensus_constants \<Rightarrow> ('pk, 'sk, 'com) consensus_manager_builder \<Rightarrow> ('pk, 'sk, 'com) consensus_manager_builder" where
  "add_consensus_constants c self = self\<lparr>cmb_consensus_constants := cmb_consensus_constants self @ [c]\<rparr>"

definition with_block ::
  "('pk, 'sk, 'com) chain_block \<Rightarrow> ('pk, 'sk, 'com) consensus_manager_builder \<Rightarrow> ('pk, 'sk, 'com) consensus_manager_builder" where
  "with_block blk self = self\<lparr>cmb_gen_block := Some blk\<rparr>"

definition on_ties ::
  "'sk comparer \<Rightarrow> ('pk, 'sk, 'com) consensus_manager_builder \<Rightarrow> ('pk, 'sk, 'com) consensus_manager_builder" where
  "on_ties cmp self = self\<lparr>cmb_chain_strength_comparer := Some cmp\<rparr>"

definition default_comparer :: "(unit, 'sk comparer) outcome" where
  "default_comparer =
     comparer_build (add_comparer_as_then sha3_difficulty_comparer (add_comparer_as_then monero_difficulty_comparer
       (add_comparer_as_then height_comparer (add_comparer_as_then accumulated_difficulty_squared_comparer strongest_chain))))"

definition cmb_build ::
  "('pk, 'sk, 'com) consensus_manager_builder \<Rightarrow> (unit, ('pk, 'sk, 'com) consensus_manager) outcome" where
  "cmb_build self =
     and_then (if cmb_consensus_constants self = [] then create_consensus_constants (cmb_network self)
               else Ok (cmb_consensus_constants self)) (\<lambda>constants.
     case constants of
       [] \<Rightarrow> Panic
     | c # _ \<Rightarrow>
         and_then (emission_new (emission_initial c) (emission_decay c) (emission_tail c)) (\<lambda>emission.
         and_then (case cmb_chain_strength_comparer self of Some cmp \<Rightarrow> Ok cmp | None \<Rightarrow> default_comparer) (\<lambda>cmp.
         Ok \<lparr>cm_consensus_constants = constants, cm_network = cmb_network self, cm_emission = emission,
             cm_gen_block = cmb_gen_block self, cm_chain_strength_comparer = cmp\<rparr>)))"

definition cm_get_genesis_block ::
  "(network \<Rightarrow> ('pk, 'sk, 'com) chain_block) \<Rightarrow> ('pk, 'sk, 'com) consensus_manager \<Rightarrow> ('pk, 'sk, 'com) chain_block" where
  "cm_get_genesis_block genesis self =
     (case cm_network self of
        LocalNet \<Rightarrow> (case cm_gen_block self of Some b \<Rightarrow> b | None \<Rightarrow> genesis LocalNet)
      | net \<Rightarrow> genesis net)"

fun constants_from :: "consensus_constants \<Rightarrow> u64 \<Rightarrow> consensus_constants list \<Rightarrow> consensus_constants" where
  "constants_from constants height [] = constants"
| "constants_from constants height (c # cs) =
     (if effective_from_height c > height then constants else constants_from c height cs)"

definition consensus_constants_at ::
  "u64 \<Rightarrow> ('pk, 'sk, 'com) consensus_manager \<Rightarrow> ('e, consensus_constants) outcome" where
  "consensus_constants_at height self =
     (case cm_consensus_constants self of [] \<Rightarrow> Panic | c # cs \<Rightarrow> Ok (constants_from c height (c # cs)))"

definition new_target_difficulty ::
  "pow_algorithm \<Rightarrow> u64 \<Rightarrow> ('pk, 'sk, 'com) consensus_manager \<Rightarrow> (unit, lwma) outcome" where
  "new_target_difficulty algo height self =
     and_then (consensus_constants_at height self) (\<lambda>c.
     window_new (unat (difficulty_block_window c)) (get_diff_target_block_interval algo c) (get_difficulty_max_block_interval algo c))"

text \<open>\<open>None\<close> when the loop of \<open>block_reward\<close> does not return.\<close>

definition calculate_coinbase_and_fees ::
  "u64 \<Rightarrow> ('pk, 'sk, 'com) transaction_kernel list \<Rightarrow> ('pk, 'sk, 'com) consensus_manager \<Rightarrow> (unit, micro_tari) outcome option" where
  "calculate_coinbase_and_fees height kernels self =
     map_option (\<lambda>r. and_then r (\<lambda>coinbase. sum_from coinbase (map ker_fee kernels))) (block_reward (cm_emission self) height)"

subsection \<open>Target difficulties per algorithm\<close>

record target_difficulties_pair =
  td_monero :: lwma
  td_sha3 :: lwma

definition td_new :: "u64 \<Rightarrow> ('pk, 'sk, 'com) consensus_manager \<Rightarrow> (unit, target_difficulties_pair) outcome" where
  "td_new height rules =
     and_then (new_target_difficulty Monero height rules) (\<lambda>m.
     and_then (new_target_difficulty Sha3 height rules) (\<lambda>s. Ok \<lparr>td_monero = m, td_sha3 = s\<rparr>))"

definition td_get :: "pow_algorithm \<Rightarrow> target_difficulties_pair \<Rightarrow> lwma" where
  "td_get algo self = (case algo of Monero \<Rightarrow> td_monero self | Sha3 \<Rightarrow> td_sha3 self)"

definition td_update :: "pow_algorithm \<Rightarrow> (lwma \<Rightarrow> lwma) \<Rightarrow> target_difficulties_pair \<Rightarrow> target_difficulties_pair" where
  "td_update algo f self =
     (case algo of Monero \<Rightarrow> self\<lparr>td_monero := f (td_monero self)\<rparr> | Sha3 \<Rightarrow> self\<lparr>td_sha3 := f (td_sha3 self)\<rparr>)"

definition td_add_back :: "'sk block_header \<Rightarrow> difficulty \<Rightarrow> target_difficulties_pair \<Rightarrow> target_difficulties_pair" where
  "td_add_back header d self = td_update (pow_algo_used (hd_pow header)) (lwma_add_back (hd_timestamp header) d) self"

definition td_add_front :: "'sk block_header \<Rightarrow> difficulty \<Rightarrow> target_difficulties_pair \<Rightarrow> target_difficulties_pair" where
  "td_add_front header d self = td_update (pow_algo_used (hd_pow header)) (lwma_add_front (hd_timestamp header) d) self"

definition td_is_algo_full :: "pow_algorithm \<Rightarrow> target_difficulties_pair \<Rightarrow> bool" where
  "td_is_algo_full algo self \<longleftrightarrow> lwma_is_full (td_get algo self)"

definition td_is_full :: "target_difficulties_pair \<Rightarrow> bool" where
  "td_is_full self \<longleftrightarrow> lwma_is_full (td_sha3 self) \<and> lwma_is_full (td_monero self)"

subsection \<open>The strongest orphan tip\<close>

text \<open>\<open>find_strongest_orphan_tip\<close> of \<open>chain_storage/blockchain_database.rs\<close>: the loop over the tips, from the best so far.\<close>

fun strongest_from :: "'sk comparer \<Rightarrow> 'sk chain_header option \<Rightarrow> 'sk chain_header list \<Rightarrow> 'sk chain_header option" where
  "strongest_from cmp best [] = best"
| "strongest_from cmp best (tip # tips) =
     strongest_from cmp
       (case best of
          Some current_best \<Rightarrow> (case cmp current_best tip of OrdLess \<Rightarrow> Some tip | _ \<Rightarrow> Some current_best)
        | None \<Rightarrow> Some tip) tips"

definition find_strongest_orphan_tip :: "'sk chain_header list \<Rightarrow> 'sk comparer \<Rightarrow> 'sk chain_header option" where
  "find_strongest_orphan_tip tips cmp = strongest_from cmp None tips"

subsection \<open>The contract of a comparer\<close>

fun ord_reverse :: "ordering \<Rightarrow> ordering" where
  "ord_reverse OrdLess = OrdGreater"
| "ord_reverse OrdEqual = OrdEqual"
| "ord_reverse OrdGreater = OrdLess"

text \<open>
  What the choice of the strongest chain relies on: swapping the arguments reverses the result, and \<open>not weaker than\<close> is
  transitive.
\<close>

locale strength_order =
  fixes compare :: "'h \<Rightarrow> 'h \<Rightarrow> ordering"
  assumes compare_swap: "compare b a = ord_reverse (compare a b)"
    and compare_trans: "compare a b \<noteq> OrdLess \<Longrightarrow> compare b c \<noteq> OrdLess \<Longrightarrow> compare a c \<noteq> OrdLess"
begin

lemma compare_refl: "compare a a = OrdEqual"
  using compare_swap [of a a] by (cases "compare a a") auto

lemma compare_strict: "compare a b = OrdGreater \<Longrightarrow> compare b c \<noteq> OrdLess \<Longrightarrow> compare a c = OrdGreater"
  using compare_trans [of a b c] compare_trans [of b c a] compare_swap [of c a] compare_swap [of b a]
  by (cases "compare a c") auto

lemma compare_greater: "compare a b = OrdGreater \<longleftrightarrow> compare b a = OrdLess"
  using compare_swap [of b a] by (cases "compare a b") auto

lemma compare_equal:
  assumes "compare a b = OrdEqual"
  shows "compare a c = compare b c"
proof -
  have "compare b a = OrdEqual" using assms compare_swap [of b a] by simp
  then have "compare a c = OrdLess \<longleftrightarrow> compare b c = OrdLess" "compare c a = OrdLess \<longleftrightarrow> compare c b = OrdLess"
    using assms compare_trans [of a b c] compare_trans [of b a c] compare_trans [of c a b] compare_trans [of c b a] by auto
  then show ?thesis using compare_greater [of a c] compare_greater [of b c] by (cases "compare a c"; cases "compare b c") simp_all
qed

text \<open>A scan that replaces the current best by a stronger one finds a strongest one among those that are given.\<close>

fun scan :: "'h \<Rightarrow> 'h list \<Rightarrow> 'h" where
  "scan best [] = best"
| "scan best (h # hs) = scan (if compare best h = OrdLess then h else best) hs"

lemma scan_strongest: "scan best hs \<in> set (best # hs) \<and> (\<forall>h \<in> set (best # hs). compare h (scan best hs) \<noteq> OrdGreater)"
proof (induction hs arbitrary: best)
  case (Cons h hs)
  define b where "b = (if compare best h = OrdLess then h else best)"
  have b: "b = h \<or> b = best" "scan best (h # hs) = scan b hs" by (simp_all add: b_def)
  have "compare b x \<noteq> OrdLess" if "x = h \<or> x = best" for x
    using that compare_swap [of h best] unfolding b_def by (cases "compare best h") (auto simp: compare_refl)
  moreover have "compare (scan b hs) b \<noteq> OrdLess"
    using Cons.IH [of b] compare_swap [of "scan b hs" b] by (cases "compare b (scan b hs)") auto
  ultimately have "compare (scan b hs) h \<noteq> OrdLess" "compare (scan b hs) best \<noteq> OrdLess"
    using compare_trans by blast+
  then have "compare h (scan b hs) \<noteq> OrdGreater" "compare best (scan b hs) \<noteq> OrdGreater"
    by (simp_all only: compare_greater not_False_eq_True)
  then show ?case using Cons.IH [of b] b(1) unfolding b(2) by auto
qed (simp add: compare_refl)

end

lemma ord_cmp_less: "ord_cmp a b = OrdLess \<longleftrightarrow> a < b"
  by (simp add: ord_cmp_def)

lemma strength_order_key: "strength_order (\<lambda>a b. ord_cmp (key a) (key b))"
proof
  show "ord_cmp (key b) (key a) = ord_reverse (ord_cmp (key a) (key b))" for a b
    by (simp add: ord_cmp_def not_less_iff_gr_or_eq)
  show "ord_cmp (key a) (key c) \<noteq> OrdLess" if "ord_cmp (key a) (key b) \<noteq> OrdLess" "ord_cmp (key b) (key c) \<noteq> OrdLess" for a b c
    using that by (auto simp: ord_cmp_less not_less intro: order_trans)
qed

lemma then_comparer_eq:
  "then_comparer f g a b = OrdLess \<longleftrightarrow> f a b = OrdLess \<or> f a b = OrdEqual \<and> g a b = OrdLess"
  by (simp add: then_comparer_def split: ordering.split)

lemma strength_order_then:
  assumes "strength_order f" and "strength_order g"
  shows "strength_order (then_comparer f g)"
proof
  fix a b c
  show "then_comparer f g b a = ord_reverse (then_comparer f g a b)"
    using strength_order.compare_swap [OF assms(1), of b a] strength_order.compare_swap [OF assms(2), of b a]
    by (cases "f a b"; cases "g a b") (simp_all add: then_comparer_def)
  assume ab: "then_comparer f g a b \<noteq> OrdLess" and bc: "then_comparer f g b c \<noteq> OrdLess"
  show "then_comparer f g a c \<noteq> OrdLess"
  proof (cases "f a b = OrdEqual")
    case True
    then show ?thesis
      using ab bc strength_order.compare_equal [OF assms(1) True, of c] strength_order.compare_trans [OF assms(2), of a b c]
      by (simp add: then_comparer_eq)
  next
    case False
    then have "f a b = OrdGreater" using ab by (cases "f a b") (simp_all add: then_comparer_eq)
    moreover have "f b c \<noteq> OrdLess" using bc by (simp add: then_comparer_eq)
    ultimately have "f a c = OrdGreater" using strength_order.compare_strict [OF assms(1), of a b c] by blast
    then show ?thesis by (simp add: then_comparer_eq)
  qed
qed

text \<open>The order the consensus manager uses unless it is given another one.\<close>

definition strongest :: "'sk comparer" where
  "strongest = then_comparer (then_comparer (then_comparer accumulated_difficulty_squared_comparer height_comparer)
     monero_difficulty_comparer) sha3_difficulty_comparer"

lemma default_comparer_eq: "default_comparer = Ok strongest"
  by (simp add: default_comparer_def comparer_build_def add_comparer_as_then_def strongest_chain_def strongest_def or_panic_def)

interpretation cs: strength_order "strongest :: 'sk comparer"
  unfolding strongest_def accumulated_difficulty_squared_comparer_def height_comparer_def monero_difficulty_comparer_def
    sha3_difficulty_comparer_def
  by (intro strength_order_then strength_order_key)

definition sample_accumulated :: "u8 accumulated_data" where
  "sample_accumulated = \<lparr>ad_hash = zero_hash, ad_total_kernel_offset = 0, ad_achieved_difficulty = 1,
     ad_total_accumulated_difficulty = 1, ad_accumulated_monero_difficulty = 1, ad_accumulated_sha_difficulty = 1, ad_target_difficulty = 1\<rparr>"

definition sample_tip :: "nat \<Rightarrow> u8 chain_header" where
  "sample_tip d = \<lparr>ch_header = sample_header 1 0, ch_accumulated_data = sample_accumulated\<lparr>ad_total_accumulated_difficulty := d\<rparr>\<rparr>"

lemma strongest_from_scan: "strongest_from strongest (Some best) tips = Some (cs.scan best tips)"
  by (induction tips arbitrary: best) (simp_all split: ordering.split)

text \<open>
  (C33) The strongest orphan tip. With the default order \<open>find_strongest_orphan_tip\<close> returns nothing only for no tips, and
  otherwise one of the tips, such that no other tip is stronger.
\<close>

theorem strongest_tip_maximal:
  "case find_strongest_orphan_tip tips strongest of
     None \<Rightarrow> tips = []
   | Some best \<Rightarrow> best \<in> set tips \<and> (\<forall>tip \<in> set tips. strongest tip best \<noteq> OrdGreater)"
proof (cases tips)
  case (Cons tip rest)
  show ?thesis
    using cs.scan_strongest [of tip rest] by (simp add: find_strongest_orphan_tip_def Cons strongest_from_scan)
qed (simp add: find_strongest_orphan_tip_def)

theorem strongest_tip_maximal_witness:
  "\<exists>best. find_strongest_orphan_tip [sample_tip 1, sample_tip 5, sample_tip 3] strongest = Some best \<and>
     (\<forall>tip \<in> {sample_tip 1, sample_tip 5, sample_tip 3}. strongest tip best \<noteq> OrdGreater)"
proof -
  obtain best where "find_strongest_orphan_tip [sample_tip 1, sample_tip 5, sample_tip 3] strongest = Some best"
    using strongest_from_scan [of "sample_tip 1" "[sample_tip 5, sample_tip 3]"]
    by (simp only: find_strongest_orphan_tip_def strongest_from.simps option.case)
  then show ?thesis using strongest_tip_maximal [of "[sample_tip 1, sample_tip 5, sample_tip 3]"] by simp
qed

subsection \<open>Longer chains are stronger\<close>

definition accumulated_wf :: "'sk accumulated_data \<Rightarrow> bool" where
  "accumulated_wf d \<longleftrightarrow> 0 < ad_accumulated_monero_difficulty d \<and> 0 < ad_accumulated_sha_difficulty d \<and>
     ad_total_accumulated_difficulty d = unat (ad_accumulated_monero_difficulty d) * unat (ad_accumulated_sha_difficulty d)"

definition extend_accumulated ::
  "('pk, 'sk, 'com) tx_crypto \<Rightarrow> 'sk accumulated_data \<Rightarrow> bytes \<Rightarrow> 'sk \<Rightarrow> achieved_target_difficulty \<Rightarrow>
   (block_error, 'sk accumulated_data) outcome" where
  "extend_accumulated X prev h off tgt =
     adb_build X (with_achieved_target_difficulty tgt (with_total_kernel_offset off (with_hash h (adb_from_previous prev))))"

lemma product_fits: "u128 (unat (a :: u64) * unat (b :: u64)) = Ok (unat a * unat b)"
proof -
  have "unat a * unat b \<le> (2 ^ 64 - 1) * (2 ^ 64 - 1)"
    using unat_less_u64 [of a] unat_less_u64 [of b] by (intro mult_le_mono) simp_all
  then show ?thesis by (simp add: u128_def)
qed

lemma extend_accumulated_eq:
  "extend_accumulated X prev h off tgt =
     (if h = ad_hash prev then Err (BuilderInvalidValue ''hash'')
      else and_then (case pow_algo tgt of
             Monero \<Rightarrow> map_ok (\<lambda>m. (m, ad_accumulated_sha_difficulty prev)) (add_u64 (ad_accumulated_monero_difficulty prev) (achieved tgt))
           | Sha3 \<Rightarrow> map_ok (\<lambda>s. (ad_accumulated_monero_difficulty prev, s)) (add_u64 (ad_accumulated_sha_difficulty prev) (achieved tgt)))
         (\<lambda>(m, s). Ok \<lparr>ad_hash = h, ad_total_kernel_offset = sk_add X (ad_total_kernel_offset prev) off,
             ad_achieved_difficulty = achieved tgt, ad_total_accumulated_difficulty = unat m * unat s,
             ad_accumulated_monero_difficulty = m, ad_accumulated_sha_difficulty = s, ad_target_difficulty = target tgt\<rparr>))"
  by (simp add: extend_accumulated_def adb_build_def with_achieved_target_difficulty_def with_total_kernel_offset_def with_hash_def
      adb_from_previous_def product_fits split: pow_algorithm.split)

text \<open>
  (C32) Extending a chain. From well-formed accumulated data the accumulated data of the next block are an error exactly when
  the block has the hash of its predecessor, and panic exactly when the difficulty of its algorithm overflows; otherwise they
  are well-formed, their total is the product of the two difficulties without overflow, and, when the block achieved a
  positive difficulty, a header with them is stronger than any header with the data of the predecessor.
\<close>

theorem extension_stronger:
  assumes "accumulated_wf prev" and "0 < achieved tgt"
  shows "case extend_accumulated X prev h off tgt of
      Err e \<Rightarrow> h = ad_hash prev
    | Panic \<Rightarrow> h \<noteq> ad_hash prev \<and> 2 ^ 64 \<le> unat (achieved tgt) +
        unat (case pow_algo tgt of Monero \<Rightarrow> ad_accumulated_monero_difficulty prev | Sha3 \<Rightarrow> ad_accumulated_sha_difficulty prev)
    | Ok acc \<Rightarrow> h \<noteq> ad_hash prev \<and> ad_hash acc = h \<and> accumulated_wf acc \<and> ad_total_accumulated_difficulty acc < 2 ^ 128 \<and>
        strongest \<lparr>ch_header = header, ch_accumulated_data = acc\<rparr> \<lparr>ch_header = prev_header, ch_accumulated_data = prev\<rparr> = OrdGreater"
proof -
  have less: "strongest \<lparr>ch_header = header, ch_accumulated_data = acc\<rparr> \<lparr>ch_header = prev_header, ch_accumulated_data = prev\<rparr> = OrdGreater"
    if "ad_total_accumulated_difficulty prev < ad_total_accumulated_difficulty acc" for acc
    using that by (simp add: strongest_def then_comparer_def accumulated_difficulty_squared_comparer_def ord_cmp_def)
  let ?m = "ad_accumulated_monero_difficulty prev" and ?s = "ad_accumulated_sha_difficulty prev"
  have pos: "0 < unat ?m" "0 < unat ?s" "0 < unat (achieved tgt)"
    using assms by (auto simp: accumulated_wf_def unat_gt_0)
  have fits: "unat a * unat b < 2 ^ 128" for a b :: u64
    using product_fits [of a b] by (simp add: u128_def split: if_splits)
  show ?thesis
  proof (cases "pow_algo tgt")
    case Monero
    show ?thesis
    proof (cases "add_u64 ?m (achieved tgt) :: (block_error, u64) outcome")
      case (Ok m)
      then have m: "unat m = unat ?m + unat (achieved tgt)" by (simp add: u64_simps)
      then have "0 < m" using pos by (simp add: word_less_nat_alt)
      moreover have "unat ?m * unat ?s < unat m * unat ?s" using m pos by simp
      ultimately show ?thesis
        using assms(1) Ok fits [of m ?s] by (auto simp: extend_accumulated_eq Monero accumulated_wf_def intro!: less)
    next
      case Panic
      then have "2 ^ 64 \<le> unat ?m + unat (achieved tgt)" by (simp add: u64_simps)
      then show ?thesis by (simp add: extend_accumulated_eq Monero Panic)
    qed (simp add: add_u64_def or_panic_def split: option.splits)
  next
    case Sha3
    show ?thesis
    proof (cases "add_u64 ?s (achieved tgt) :: (block_error, u64) outcome")
      case (Ok s)
      then have s: "unat s = unat ?s + unat (achieved tgt)" by (simp add: u64_simps)
      then have "0 < s" using pos by (simp add: word_less_nat_alt)
      moreover have "unat ?m * unat ?s < unat ?m * unat s" using s pos by simp
      ultimately show ?thesis
        using assms(1) Ok fits [of ?m s] by (auto simp: extend_accumulated_eq Sha3 accumulated_wf_def intro!: less)
    next
      case Panic
      then have "2 ^ 64 \<le> unat ?s + unat (achieved tgt)" by (simp add: u64_simps)
      then show ?thesis by (simp add: extend_accumulated_eq Sha3 Panic)
    qed (simp add: add_u64_def or_panic_def split: option.splits)
  qed
qed

theorem extension_stronger_witness:
  "\<exists>acc. extend_accumulated sample_tx sample_accumulated [1] 0 \<lparr>pow_algo = Monero, achieved = 5, target = 3\<rparr> = Ok acc \<and>
     accumulated_wf acc \<and> strongest \<lparr>ch_header = sample_header 2 0, ch_accumulated_data = acc\<rparr>
       \<lparr>ch_header = sample_header 9 0, ch_accumulated_data = sample_accumulated\<rparr> = OrdGreater"
proof -
  let ?tgt = "\<lparr>pow_algo = Monero, achieved = 5, target = 3\<rparr>"
  have "length zero_hash \<noteq> length [1 :: u8]" by (simp add: zero_hash_def)
  then have "[1] \<noteq> zero_hash" by metis
  then obtain acc where "extend_accumulated sample_tx sample_accumulated [1] 0 ?tgt = Ok acc"
    by (simp add: extend_accumulated_eq sample_accumulated_def add_u64_def checked_add_u64_def u64_of_nat_def)
  moreover have "accumulated_wf sample_accumulated" by (simp add: accumulated_wf_def sample_accumulated_def)
  ultimately show ?thesis
    using extension_stronger [where prev = sample_accumulated and tgt = ?tgt and X = sample_tx and h = "[1]" and off = 0
        and header = "sample_header 2 0" and prev_header = "sample_header 9 0"] by simp
qed

subsection \<open>The manager of a network\<close>

lemma constants_from_latest:
  assumes "sorted (map effective_from_height (c # cs))" and "effective_from_height c \<le> height"
  shows "constants_from c height cs \<in> set (c # cs) \<and> effective_from_height (constants_from c height cs) \<le> height \<and>
    (\<forall>d \<in> set (c # cs). effective_from_height d \<le> height \<longrightarrow> effective_from_height d \<le> effective_from_height (constants_from c height cs))"
  using assms
proof (induction cs arbitrary: c)
  case (Cons d ds)
  show ?case
  proof (cases "effective_from_height d > height")
    case True
    then show ?thesis using Cons.prems by auto
  next
    case False
    then have "effective_from_height d \<le> height" by simp
    with Cons.IH [of d] Cons.prems have IH: "constants_from d height ds \<in> set (d # ds)"
      "effective_from_height (constants_from d height ds) \<le> height"
      "\<forall>e \<in> set (d # ds). effective_from_height e \<le> height \<longrightarrow> effective_from_height e \<le> effective_from_height (constants_from d height ds)"
      by simp_all
    have "effective_from_height c \<le> effective_from_height (constants_from d height ds)"
      using IH(3) Cons.prems(1) \<open>effective_from_height d \<le> height\<close> by (auto intro: order_trans)
    then show ?thesis using IH False by simp
  qed
qed simp

definition heights_ok :: "consensus_constants list \<Rightarrow> bool" where
  "heights_ok cs \<longleftrightarrow> cs \<noteq> [] \<and> effective_from_height (hd cs) = 0 \<and> sorted (map effective_from_height cs)"

lemma networks_heights_ok:
  "heights_ok localnet" "heights_ok weatherwax" "heights_ok igor" "heights_ok dibbler" "heights_ok esmeralda" "heights_ok stagenet"
  "heights_ok nextnet" "heights_ok mainnet"
  by (simp_all add: heights_ok_def network_defs)

lemma network_good:
  assumes "create_consensus_constants net = (Ok cs :: (unit, consensus_constants list) outcome)"
  shows "list_all constants_wf cs \<and> heights_ok cs"
  using assms networks_wf networks_heights_ok by (cases net) (simp_all add: create_consensus_constants_def)

lemma emission_new_ok: "proper_decay ds \<Longrightarrow> \<exists>s. emission_new i ds t = Ok s"
  by (simp add: emission_new_def proper_decay_def)

text \<open>
  (C34) The manager of a network. For every network that is still supported the builder succeeds, with the default order of
  chains; for every height there are constants, the latest of the network that are effective at that height, and the
  difficulty window of every proof-of-work algorithm can be created from them without panicking.
\<close>

theorem manager_total:
  assumes "net \<noteq> Ridcully" and "net \<noteq> Stibbons"
  shows "\<exists>m :: ('pk, 'sk, 'com) consensus_manager. cmb_build (cmb_new net) = Ok m \<and> cm_chain_strength_comparer m = strongest \<and>
    (\<forall>height algo. \<exists>c w. consensus_constants_at height m = (Ok c :: (unit, consensus_constants) outcome) \<and>
       c \<in> set (cm_consensus_constants m) \<and> effective_from_height c \<le> height \<and>
       (\<forall>d \<in> set (cm_consensus_constants m). effective_from_height d \<le> height \<longrightarrow> effective_from_height d \<le> effective_from_height c) \<and>
       new_target_difficulty algo height m = Ok w)"
proof -
  obtain cs where cs: "create_consensus_constants net = (Ok cs :: (unit, consensus_constants list) outcome)"
    using assms by (cases net) (simp_all add: create_consensus_constants_def)
  have wf: "list_all constants_wf cs" "heights_ok cs" using network_good [OF cs] by blast+
  then obtain c ds where c: "cs = c # ds" "proper_decay (emission_decay c)"
    by (cases cs) (auto simp: constants_wf_def heights_ok_def)
  obtain s where s: "emission_new (emission_initial c) (emission_decay c) (emission_tail c) = Ok s"
    using emission_new_ok [OF c(2)] by blast
  define m :: "('pk, 'sk, 'com) consensus_manager" where
    "m = \<lparr>cm_consensus_constants = cs, cm_network = net, cm_emission = s, cm_gen_block = None, cm_chain_strength_comparer = strongest\<rparr>"
  have m: "cmb_build (cmb_new net) = Ok m"
    using cs s by (simp add: cmb_build_def cmb_new_def c(1) default_comparer_eq m_def)
  have eff: "effective_from_height c = 0" "sorted (map effective_from_height (c # ds))"
    using wf(2) by (simp_all add: heights_ok_def c(1))
  have at: "consensus_constants_at height m = (Ok (constants_from c height ds) :: (unit, consensus_constants) outcome)" for height
    using eff by (simp add: consensus_constants_at_def m_def c(1))
  have latest: "constants_from c height ds \<in> set cs" "effective_from_height (constants_from c height ds) \<le> height"
    "\<forall>d \<in> set cs. effective_from_height d \<le> height \<longrightarrow> effective_from_height d \<le> effective_from_height (constants_from c height ds)" for height
    using constants_from_latest [of c ds height] eff unfolding c(1) by auto
  have "\<exists>w. new_target_difficulty algo height m = Ok w" for algo height
    using window_available [of "constants_from c height ds" algo] latest(1) [of height] wf(1)
    by (simp add: new_target_difficulty_def at list_all_iff)
  then show ?thesis using m at latest by (intro exI [of _ m]) (simp add: m_def)
qed

theorem manager_total_witness:
  "\<exists>m :: (u8, u8, u8) consensus_manager. cmb_build (cmb_new Dibbler) = Ok m \<and>
    (\<exists>c. consensus_constants_at 30000 m = (Ok c :: (unit, consensus_constants) outcome) \<and> effective_from_height c \<le> 30000)"
proof -
  have "\<exists>m :: (u8, u8, u8) consensus_manager. cmb_build (cmb_new Dibbler) = Ok m \<and>
    (\<forall>height algo. \<exists>c w. consensus_constants_at height m = (Ok c :: (unit, consensus_constants) outcome) \<and>
       effective_from_height c \<le> height)"
    by (rule exE [OF manager_total [of Dibbler]]) (simp, simp, blast)
  then obtain m :: "(u8, u8, u8) consensus_manager" where "cmb_build (cmb_new Dibbler) = Ok m"
    "\<exists>c. consensus_constants_at 30000 m = (Ok c :: (unit, consensus_constants) outcome) \<and> effective_from_height c \<le> 30000"
    by metis
  then show ?thesis by (intro exI [of _ m] conjI)
qed

end
