(* ===== verification/Body_Validation.thy ===== *)
theory Body_Validation
  imports Consensus_Manager
begin

text \<open>
  Validation of bodies on their own: the checks of \<open>src/base_layer/core/src/validation/helpers.rs\<close> that need no database,
  \<open>aggregate_body/aggregate_body_internal_validator.rs\<close>, \<open>block_body/block_body_internal_validator.rs\<close> and
  \<open>transaction/transaction_internal_validator.rs\<close>, with the signature and range proof checks of outputs
  (\<open>transaction_components/transaction_output.rs\<close>) and the registrations of validator nodes.

  The message strings of errors are left out. \<open>unwrap\<close> also converts the outcome of a function that has no error to the error type
  of its caller.
\<close>

subsection \<open>Errors\<close>

datatype pow_error =
  InvalidProofOfWork | AchievedDifficultyTooLow difficulty difficulty | InvalidTargetDifficulty difficulty difficulty | PowMergeMineError

datatype block_header_validation_error =
    ChainedGenesisBlockHeader | IncorrectGenesisBlockHeader | InvalidChaining | InvalidTimestamp | InvalidTimestampFutureTimeLimit
  | HeaderProofOfWorkError pow_error | OldSeedHash | InvalidHeight u64 u64 | InvalidPreviousHash bytes bytes

datatype validation_error =
    BlockHeaderError block_header_validation_error | BlockError block_validation_error | MaturityError | BlockTooLarge u64 u64
  | UnknownInputs "bytes list" | UnknownInput | TransactionError_V transaction_error | RangeProofError_V | CustomError | FatalStorageError
  | InvalidAccountingBalance | ContainsSTxO | ContainsTxO | ContainsDuplicateUtxoCommitment | ContainsDuplicateUtxoUniqueID
  | UniqueIdInInputNotPresentInOutputs | DuplicateUniqueIdInOutputs | UniqueIdBurnedButPresentInOutputs
  | ChainBalanceValidationFailed u64 | ProofOfWorkError_V pow_error | ValidatingGenesis | PreviousHashNotFound
  | UnsortedOrDuplicateInput | UnsortedOrDuplicateOutput | UnsortedOrDuplicateKernel | MergeMineError | InvalidMinedHeight
  | MaxTransactionWeightExceeded | EndOfTimeError | IncorrectHeight u64 u64 | IncorrectPreviousHash bytes bytes | AsyncTaskFailed
  | TransactionInputSpentOutputMissing | TransactionInputSpendsPrunedOutput | BadBlockFound bytes | TariScriptExceedsMaxSize nat nat
  | ConsensusError | DuplicateKernelError | CovenantError_V covenant_error | InvalidBlockchainVersion "16 word"
  | ErroneousCoinbaseOutput | NonContractOutputContainsSidechainFeatures output_type bytes | InvalidBurnError
  | OutputTypeNotPermitted output_type | RangeProofTypeNotPermitted range_proof_type | FixedHashSizeError | ValidatorNodeMmmrError
  | ValidatorNodeRegistrationMinDepositAmount micro_tari micro_tari | ValidatorNodeRegistrationMinLockHeight u64 u64
  | InvalidValidatorNodeSignature | NotEnoughTimestamps nat nat

subsection \<open>Code outside the repository\<close>

text \<open>
  Subtraction of public keys and scalars, the neutral commitment that \<open>Iterator::sum\<close> starts from, the product of scalars and the
  scalar of a number, batch verification of range proofs (a proof with its commitment and minimum value each), and the digests that
  metadata signatures and validator node registrations sign.
\<close>

record ('pk, 'sk, 'com) validation_ops =
  pk_sub :: "'pk \<Rightarrow> 'pk \<Rightarrow> 'pk"
  com_default :: 'com
  sk_sub :: "'sk \<Rightarrow> 'sk \<Rightarrow> 'sk"
  sk_mul :: "'sk \<Rightarrow> 'sk \<Rightarrow> 'sk"
  sk_of_u64 :: "u64 \<Rightarrow> 'sk"
  verify_batch :: "(bytes \<times> 'com \<times> u64) list \<Rightarrow> bool"
  metadata_challenge :: "transaction_output_version \<Rightarrow> 'pk tari_script \<Rightarrow> ('pk, 'sk) output_features \<Rightarrow> 'pk \<Rightarrow> 'com \<Rightarrow> 'pk \<Rightarrow>
    'com \<Rightarrow> ('pk, 'com) covenant \<Rightarrow> bytes \<Rightarrow> micro_tari \<Rightarrow> bytes"
  registration_challenge :: "'pk \<Rightarrow> 'pk \<Rightarrow> bytes \<Rightarrow> bytes"

subsection \<open>Signatures and range proofs of outputs\<close>

definition verify_metadata_signature_internal ::
  "('pk, 'sk, 'com) tx_crypto \<Rightarrow> ('pk, 'sk, 'com) validation_ops \<Rightarrow> ('pk, 'sk, 'com) transaction_output \<Rightarrow>
   (transaction_error, bytes) outcome" where
  "verify_metadata_signature_internal X V self =
     (let challenge = metadata_challenge V (out_version self) (out_script self) (out_features self) (out_sender_offset_public_key self)
            (fst (out_metadata_signature self)) (fst (snd (out_metadata_signature self))) (out_commitment self) (out_covenant self)
            (out_encrypted_data self) (out_minimum_value_promise self)
      in if verify_com_and_pub X (out_metadata_signature self) (out_commitment self) (out_sender_offset_public_key self) challenge
         then Ok challenge else Err InvalidSignatureError)"

definition verify_metadata_signature ::
  "('pk, 'sk, 'com) tx_crypto \<Rightarrow> ('pk, 'sk, 'com) validation_ops \<Rightarrow> ('pk, 'sk, 'com) transaction_output \<Rightarrow>
   (transaction_error, unit) outcome" where
  "verify_metadata_signature X V self = map_ok (\<lambda>_. ()) (verify_metadata_signature_internal X V self)"

text \<open>The result is \<open>Err ()\<close> for a \<open>RangeProofError\<close>.\<close>

definition revealed_value_range_proof_check ::
  "('pk, 'sk, 'com) tx_crypto \<Rightarrow> ('pk, 'sk, 'com) validation_ops \<Rightarrow> ('pk, 'sk, 'com) transaction_output \<Rightarrow> (unit, unit) outcome" where
  "revealed_value_range_proof_check X V self =
     (if range_proof_type (out_features self) \<noteq> RevealedValue then Err ()
      else and_then (map_err (\<lambda>_. ()) (verify_metadata_signature_internal X V self)) (\<lambda>e_bytes.
        and_then (or_panic (sk_from_bytes (crypto X) e_bytes)) (\<lambda>e.
        let u_a = fst (snd (snd (out_metadata_signature self)));
            expected = sk_add X (sk_default X) (sk_mul V e (sk_of_u64 V (out_minimum_value_promise self)))
        in if sk_as_bytes (crypto X) u_a = sk_as_bytes (crypto X) expected then Ok () else Err ())))"

definition proof_result :: "('pk, 'sk, 'com) transaction_output \<Rightarrow> (unit, bytes) outcome" where
  "proof_result self = ok_or () (out_proof self)"

definition verify_range_proof ::
  "('pk, 'sk, 'com) tx_crypto \<Rightarrow> ('pk, 'sk, 'com) validation_ops \<Rightarrow> ('pk, 'sk, 'com) transaction_output \<Rightarrow>
   (transaction_error, unit) outcome" where
  "verify_range_proof X V self =
     (case range_proof_type (out_features self) of
        RevealedValue \<Rightarrow> map_err (\<lambda>_. ValidationError) (revealed_value_range_proof_check X V self)
      | BulletProofPlus \<Rightarrow>
          and_then (map_err (\<lambda>_. RangeProofError_Tx) (proof_result self)) (\<lambda>proof.
          if verify_batch V [(proof, out_commitment self, out_minimum_value_promise self)] then Ok () else Err ValidationError))"

fun collect_proofs :: "('pk, 'sk, 'com) transaction_output list \<Rightarrow> (unit, (bytes \<times> 'com \<times> u64) list) outcome" where
  "collect_proofs [] = Ok []"
| "collect_proofs (out # outs) =
     and_then (proof_result out) (\<lambda>p. map_ok (Cons (p, out_commitment out, out_minimum_value_promise out)) (collect_proofs outs))"

text \<open>
  When the batch fails every output is verified alone to find the one to report; every branch is a \<open>RangeProofError\<close>, unless a
  verification panics.
\<close>

definition batch_verify_range_proofs ::
  "('pk, 'sk, 'com) tx_crypto \<Rightarrow> ('pk, 'sk, 'com) validation_ops \<Rightarrow> ('pk, 'sk, 'com) transaction_output list \<Rightarrow> (unit, unit) outcome" where
  "batch_verify_range_proofs X V outputs =
     (let bulletproof_plus_proofs = filter (\<lambda>out. range_proof_type (out_features out) = BulletProofPlus) outputs;
          revealed_value_proofs = filter (\<lambda>out. range_proof_type (out_features out) = RevealedValue) outputs
      in and_then
           (if bulletproof_plus_proofs \<noteq> [] then
              and_then (collect_proofs bulletproof_plus_proofs) (\<lambda>proofs.
              if verify_batch V proofs then Ok ()
              else and_then (check_each (\<lambda>out. map_err (\<lambda>_. ()) (verify_range_proof X V out)) bulletproof_plus_proofs) (\<lambda>_. Err ()))
            else Ok ())
           (\<lambda>_. check_each (revealed_value_range_proof_check X V) revealed_value_proofs))"

definition is_valid_signature_for ::
  "('pk, 'sk, 'com) tx_crypto \<Rightarrow> ('pk, 'sk, 'com) validation_ops \<Rightarrow> ('pk, 'sk) validator_node_signature \<Rightarrow> bytes \<Rightarrow> bool" where
  "is_valid_signature_for X V self msg =
     verify_challenge (crypto X) (vn_signature self) (vn_public_key self)
       (registration_challenge V (vn_public_key self) (fst (vn_signature self)) msg)"

subsection \<open>Helpers\<close>

fun unique_sorted_from :: "'k :: linorder \<Rightarrow> 'k list \<Rightarrow> bool" where
  "unique_sorted_from prev [] \<longleftrightarrow> True"
| "unique_sorted_from prev (item # items) \<longleftrightarrow> (if item \<le> prev then False else unique_sorted_from item items)"

definition is_all_unique_and_sorted :: "'k :: linorder list \<Rightarrow> bool" where
  "is_all_unique_and_sorted items \<longleftrightarrow> (case items of [] \<Rightarrow> True | prev # items \<Rightarrow> unique_sorted_from prev items)"

definition check_tari_script_byte_size ::
  "('pk, 'sk, 'com) tx_crypto \<Rightarrow> 'pk tari_script \<Rightarrow> nat \<Rightarrow> (validation_error, unit) outcome" where
  "check_tari_script_byte_size X script max_script_size =
     (let script_size = length (script_borsh_serialize (crypto X) script)
      in if script_size > max_script_size then Err (TariScriptExceedsMaxSize max_script_size script_size) else Ok ())"

definition check_permitted_output_types ::
  "consensus_constants \<Rightarrow> ('pk, 'sk, 'com) transaction_output \<Rightarrow> (validation_error, unit) outcome" where
  "check_permitted_output_types constants out =
     (if output_type (out_features out) \<notin> set (permitted_output_types constants)
      then Err (OutputTypeNotPermitted (output_type (out_features out))) else Ok ())"

definition check_permitted_range_proof_types ::
  "consensus_constants \<Rightarrow> ('pk, 'sk, 'com) transaction_output \<Rightarrow> (validation_error, unit) outcome" where
  "check_permitted_range_proof_types constants out =
     (if range_proof_type (out_features out) \<notin> set (permitted_range_proof_types constants)
      then Err (RangeProofTypeNotPermitted (range_proof_type (out_features out))) else Ok ())"

definition validate_input_version ::
  "consensus_constants \<Rightarrow> ('pk, 'sk, 'com) transaction_input \<Rightarrow> (validation_error, unit) outcome" where
  "validate_input_version constants input =
     (if \<not> range_contains (input_version_range constants) (in_version input) then Err ConsensusError else Ok ())"

definition validate_output_version ::
  "consensus_constants \<Rightarrow> ('pk, 'sk, 'com) transaction_output \<Rightarrow> (validation_error, unit) outcome" where
  "validate_output_version constants out =
     (if \<not> range_contains (ovr_outputs (output_versions constants)) (out_version out) then Err ConsensusError
      else if \<not> range_contains (ovr_features (output_versions constants)) (features_version (out_features out)) then Err ConsensusError
      else check_each (\<lambda>opcode. if \<not> range_contains (ovr_opcode (output_versions constants)) (get_version opcode)
                        then Err ConsensusError else Ok ()) (out_script out))"

definition validate_kernel_version ::
  "consensus_constants \<Rightarrow> ('pk, 'sk, 'com) transaction_kernel \<Rightarrow> (validation_error, unit) outcome" where
  "validate_kernel_version constants ker =
     (if \<not> range_contains (kernel_version_range constants) (ker_version ker) then Err ConsensusError else Ok ())"

subsection \<open>The checks of an aggregate body\<close>

definition body_verify_kernel_signatures ::
  "('pk, 'sk, 'com) tx_crypto \<Rightarrow> ('pk, 'sk, 'com) aggregate_body \<Rightarrow> (validation_error, unit) outcome" where
  "body_verify_kernel_signatures X body = check_each (\<lambda>k. map_err TransactionError_V (kernel_verify_signature X k)) (body_kernels body)"

definition check_script_size ::
  "('pk, 'sk, 'com) tx_crypto \<Rightarrow> ('pk, 'sk, 'com) aggregate_body \<Rightarrow> nat \<Rightarrow> (validation_error, unit) outcome" where
  "check_script_size X body max_script_size =
     check_each (\<lambda>out. check_tari_script_byte_size X (out_script out) max_script_size) (body_outputs body)"

definition check_sorting_and_duplicates ::
  "('pk, 'sk, 'com) tx_crypto \<Rightarrow> ('pk, 'sk, 'com) aggregate_body \<Rightarrow> (validation_error, unit) outcome" where
  "check_sorting_and_duplicates X body =
     (if \<not> is_all_unique_and_sorted (map (input_output_hash X) (body_inputs body)) then Err UnsortedOrDuplicateInput
      else if \<not> is_all_unique_and_sorted (map (\<lambda>out. com_key X (out_commitment out)) (body_outputs body)) then Err UnsortedOrDuplicateOutput
      else if \<not> is_all_unique_and_sorted (map (\<lambda>k. sig_key X (ker_excess_sig k)) (body_kernels body)) then Err UnsortedOrDuplicateKernel
      else Ok ())"

fun sum_kernels ::
  "('pk, 'sk, 'com) tx_crypto \<Rightarrow> micro_tari \<times> 'com \<Rightarrow> ('pk, 'sk, 'com) transaction_kernel list \<Rightarrow> (validation_error, micro_tari \<times> 'com) outcome" where
  "sum_kernels X acc [] = Ok acc"
| "sum_kernels X (fees, excess) (k # ks) =
     and_then (add_u64 fees (ker_fee k)) (\<lambda>fees. sum_kernels X (fees, com_add (crypto X) excess (ker_excess k)) ks)"

fun collect_commitments :: "('pk, 'sk, 'com) transaction_input list \<Rightarrow> (transaction_error, 'com list) outcome" where
  "collect_commitments [] = Ok []"
| "collect_commitments (input # inputs) =
     and_then (input_commitment input) (\<lambda>c. map_ok (Cons c) (collect_commitments inputs))"

definition com_sum :: "('pk, 'sk, 'com) tx_crypto \<Rightarrow> ('pk, 'sk, 'com) validation_ops \<Rightarrow> 'com list \<Rightarrow> 'com" where
  "com_sum X V cs = foldl (com_add (crypto X)) (com_default V) cs"

definition sum_commitments ::
  "('pk, 'sk, 'com) tx_crypto \<Rightarrow> ('pk, 'sk, 'com) validation_ops \<Rightarrow> ('pk, 'sk, 'com) aggregate_body \<Rightarrow> (validation_error, 'com) outcome" where
  "sum_commitments X V body =
     and_then (map_err TransactionError_V (collect_commitments (body_inputs body))) (\<lambda>inputs.
     Ok (com_sub (crypto X) (com_sum X V (map out_commitment (body_outputs body))) (com_sum X V inputs)))"

definition validate_kernel_sum ::
  "('pk, 'sk, 'com) tx_crypto \<Rightarrow> ('pk, 'sk, 'com) validation_ops \<Rightarrow> ('pk, 'sk, 'com) aggregate_body \<Rightarrow> 'com \<Rightarrow>
   (validation_error, unit) outcome" where
  "validate_kernel_sum X V body offset_and_reward =
     and_then (sum_kernels X (0, offset_and_reward) (body_kernels body)) (\<lambda>(fees, excess).
     and_then (sum_commitments X V body) (\<lambda>sum_io.
     if excess \<noteq> com_add (crypto X) sum_io (commit_value X (sk_default X) fees) then Err CustomError else Ok ()))"

definition validate_range_proofs ::
  "('pk, 'sk, 'com) tx_crypto \<Rightarrow> ('pk, 'sk, 'com) validation_ops \<Rightarrow> ('pk, 'sk, 'com) aggregate_body \<Rightarrow> (transaction_error, unit) outcome" where
  "validate_range_proofs X V body = map_err (\<lambda>_. RangeProofError_Tx) (batch_verify_range_proofs X V (body_outputs body))"

definition verify_metadata_signatures ::
  "('pk, 'sk, 'com) tx_crypto \<Rightarrow> ('pk, 'sk, 'com) validation_ops \<Rightarrow> ('pk, 'sk, 'com) aggregate_body \<Rightarrow> (validation_error, unit) outcome" where
  "verify_metadata_signatures X V body =
     check_each (\<lambda>out. map_err TransactionError_V (verify_metadata_signature X V out)) (body_outputs body)"

text \<open>The loop over the inputs, which adds up the keys their scripts leave.\<close>

fun sum_script_keys ::
  "('pk, 'sk, 'com) tx_crypto \<Rightarrow> u64 \<Rightarrow> bytes \<Rightarrow> 'pk \<Rightarrow> ('pk, 'sk, 'com) transaction_input list \<Rightarrow> (validation_error, 'pk) outcome" where
  "sum_script_keys X height prev_hash input_keys [] = Ok input_keys"
| "sum_script_keys X height prev_hash input_keys (input # inputs) =
     and_then (map_err TransactionError_V (input_commitment input)) (\<lambda>com.
     and_then (map_err TransactionError_V (input_run_and_verify_script X input
         \<lparr>block_height = height, prev_block_hash = prev_hash, commitment = com\<rparr>)) (\<lambda>key.
     sum_script_keys X height prev_hash (pk_add (crypto X) input_keys key) inputs))"

definition sum_sender_keys ::
  "('pk, 'sk, 'com) tx_crypto \<Rightarrow> ('pk, 'sk, 'com) transaction_output list \<Rightarrow> 'pk" where
  "sum_sender_keys X outputs =
     foldl (\<lambda>output_keys out. pk_add (crypto X) output_keys (out_sender_offset_public_key out)) (pk_default (crypto X))
       (filter (\<lambda>out. \<not> output_is_coinbase out) outputs)"

definition validate_script_and_script_offset ::
  "('pk, 'sk, 'com) tx_crypto \<Rightarrow> ('pk, 'sk, 'com) validation_ops \<Rightarrow> ('pk, 'sk, 'com) aggregate_body \<Rightarrow> 'pk \<Rightarrow> bytes option \<Rightarrow> u64 \<Rightarrow>
   (validation_error, unit) outcome" where
  "validate_script_and_script_offset X V body script_offset prev_header height =
     (let prev_hash = (case prev_header of None \<Rightarrow> zero_hash | Some h \<Rightarrow> h)
      in and_then (sum_script_keys X height prev_hash (pk_default (crypto X)) (body_inputs body)) (\<lambda>input_keys.
         let lhs = pk_sub V input_keys (sum_sender_keys X (body_outputs body))
         in if lhs \<noteq> script_offset then Err (TransactionError_V ScriptOffset) else Ok ()))"

definition validate_covenants ::
  "('pk, 'sk, 'com) tx_crypto \<Rightarrow> ('pk, 'sk, 'com) aggregate_body \<Rightarrow> u64 \<Rightarrow> (validation_error, unit) outcome" where
  "validate_covenants X body height =
     check_each (\<lambda>input.
       and_then (map_err TransactionError_V (input_covenant input)) (\<lambda>cov.
       map_ok (\<lambda>_. ()) (map_err CovenantError_V (covenant_execute X cov height input (body_outputs body))))) (body_inputs body)"

definition check_weight ::
  "('pk, 'sk, 'com) tx_crypto \<Rightarrow> ('pk, 'sk, 'com) aggregate_body \<Rightarrow> consensus_constants \<Rightarrow> (validation_error, unit) outcome" where
  "check_weight X body constants =
     and_then (unwrap (calculate_body X (transaction_weight_params constants) body)) (\<lambda>block_weight.
     if block_weight \<le> max_block_transaction_weight constants then Ok ()
     else Err (BlockTooLarge block_weight (max_block_transaction_weight constants)))"

definition check_kernel_lock_height :: "u64 \<Rightarrow> ('pk, 'sk, 'com) transaction_kernel list \<Rightarrow> (validation_error, unit) outcome" where
  "check_kernel_lock_height height kernels =
     (if list_ex (\<lambda>k. ker_lock_height k > height) kernels then Err MaturityError else Ok ())"

definition check_maturity :: "u64 \<Rightarrow> ('pk, 'sk, 'com) transaction_input list \<Rightarrow> (transaction_error, unit) outcome" where
  "check_maturity height inputs =
     check_each (\<lambda>input. and_then (input_is_mature_at input height) (\<lambda>mature. if mature then Ok () else Err InputMaturity)) inputs"

text \<open>The set of the burned outputs is a list without repetitions.\<close>

definition burned_commitments :: "('pk, 'sk, 'com) transaction_output list \<Rightarrow> 'com list" where
  "burned_commitments outputs = fold (\<lambda>out burned. List.insert (out_commitment out) burned) (filter output_is_burned outputs) []"

fun match_burned_kernels ::
  "'com list \<Rightarrow> ('pk, 'sk, 'com) transaction_kernel list \<Rightarrow> (validation_error, 'com list) outcome" where
  "match_burned_kernels burned [] = Ok burned"
| "match_burned_kernels burned (k # ks) =
     (if kernel_is_burned k then
        and_then (map_err TransactionError_V (get_burn_commitment k)) (\<lambda>c.
        if c \<notin> set burned then Err InvalidBurnError else match_burned_kernels (removeAll c burned) ks)
      else match_burned_kernels burned ks)"

definition check_total_burned :: "('pk, 'sk, 'com) aggregate_body \<Rightarrow> (validation_error, unit) outcome" where
  "check_total_burned body =
     and_then (match_burned_kernels (burned_commitments (body_outputs body)) (body_kernels body)) (\<lambda>burned.
     if burned \<noteq> [] then Err InvalidBurnError else Ok ())"

definition check_validator_node_registration_utxo ::
  "('pk, 'sk, 'com) tx_crypto \<Rightarrow> ('pk, 'sk, 'com) validation_ops \<Rightarrow> consensus_constants \<Rightarrow> ('pk, 'sk, 'com) transaction_output \<Rightarrow>
   (validation_error, unit) outcome" where
  "check_validator_node_registration_utxo X V constants utxo =
     (case Option.bind (sidechain_feature (out_features utxo)) validator_node_registration of
        None \<Rightarrow> Ok ()
      | Some reg \<Rightarrow>
          if out_minimum_value_promise utxo < vn_registration_min_deposit_amount constants
          then Err (ValidatorNodeRegistrationMinDepositAmount (vn_registration_min_deposit_amount constants) (out_minimum_value_promise utxo))
          else if maturity (out_features utxo) < vn_registration_lock_height constants
          then Err (ValidatorNodeRegistrationMinLockHeight (vn_registration_lock_height constants) (maturity (out_features utxo)))
          else if \<not> is_valid_signature_for X V reg [] then Err InvalidValidatorNodeSignature
          else Ok ())"

definition validate_versions ::
  "('pk, 'sk, 'com) aggregate_body \<Rightarrow> consensus_constants \<Rightarrow> (validation_error, unit) outcome" where
  "validate_versions body constants =
     and_then (check_each (validate_input_version constants) (body_inputs body)) (\<lambda>_.
     and_then (check_each (validate_output_version constants) (body_outputs body)) (\<lambda>_.
     check_each (validate_kernel_version constants) (body_kernels body)))"

subsection \<open>The internal validators\<close>

record ('pk, 'sk, 'com) body_validator =
  bv_bypass_range_proof_verification :: bool
  bv_consensus_manager :: "('pk, 'sk, 'com) consensus_manager"

definition body_validate ::
  "('pk, 'sk, 'com) tx_crypto \<Rightarrow> ('pk, 'sk, 'com) validation_ops \<Rightarrow> ('pk, 'sk, 'com) body_validator \<Rightarrow> ('pk, 'sk, 'com) aggregate_body \<Rightarrow>
   'sk \<Rightarrow> 'sk \<Rightarrow> micro_tari option \<Rightarrow> bytes option \<Rightarrow> u64 \<Rightarrow> (validation_error, unit) outcome" where
  "body_validate X V self body offset script_offset total_reward prev_header height =
     (let total_reward = (case total_reward of None \<Rightarrow> 0 | Some r \<Rightarrow> r) in
      and_then (body_verify_kernel_signatures X body) (\<lambda>_.
      and_then (consensus_constants_at height (bv_consensus_manager self)) (\<lambda>constants.
      and_then (check_script_size X body (max_script_byte_size constants)) (\<lambda>_.
      and_then (check_sorting_and_duplicates X body) (\<lambda>_.
      and_then (validate_kernel_sum X V body (commit_value X offset total_reward)) (\<lambda>_.
      and_then (if bv_bypass_range_proof_verification self then Ok ()
                else map_err TransactionError_V (validate_range_proofs X V body)) (\<lambda>_.
      and_then (verify_metadata_signatures X V body) (\<lambda>_.
      and_then (validate_script_and_script_offset X V body (pk_from_secret_key (crypto X) script_offset) prev_header height) (\<lambda>_.
      and_then (validate_covenants X body height) (\<lambda>_.
      and_then (validate_versions body constants) (\<lambda>_.
      and_then (check_weight X body constants) (\<lambda>_.
      and_then (check_each (\<lambda>out.
          and_then (check_permitted_output_types constants out) (\<lambda>_.
          and_then (check_permitted_range_proof_types constants out) (\<lambda>_.
          check_validator_node_registration_utxo X V constants out))) (body_outputs body)) (\<lambda>_.
      and_then (check_total_burned body) (\<lambda>_.
      and_then (map_err TransactionError_V (check_maturity height (body_inputs body))) (\<lambda>_.
      check_kernel_lock_height height (body_kernels body))))))))))))))))"

text \<open>\<open>None\<close> when the loop that computes the block reward does not return.\<close>

definition validate_block_specific_checks ::
  "('pk, 'sk, 'com) tx_crypto \<Rightarrow> ('pk, 'sk, 'com) consensus_manager \<Rightarrow> ('pk, 'sk, 'com) block \<Rightarrow> (validation_error, unit) outcome option" where
  "validate_block_specific_checks X rules block =
     run_then (Some (consensus_constants_at (hd_height (blk_header block)) rules)) (\<lambda>constants.
     if hd_height (blk_header block) = 0 then Some (Err ValidatingGenesis)
     else run_then (map_option unwrap (calculate_coinbase_and_fees (hd_height (blk_header block)) (body_kernels (blk_body block)) rules))
       (\<lambda>total_coinbase.
       Some (and_then (map_err BlockError (block_check_coinbase_output X total_coinbase constants block)) (\<lambda>_.
         map_err TransactionError_V (check_output_features (blk_body block) (coinbase_output_features_extra_max_length constants))))))"

definition validate_block_aggregate_body ::
  "('pk, 'sk, 'com) tx_crypto \<Rightarrow> ('pk, 'sk, 'com) validation_ops \<Rightarrow> ('pk, 'sk, 'com) body_validator \<Rightarrow> ('pk, 'sk, 'com) block \<Rightarrow>
   (validation_error, unit) outcome option" where
  "validate_block_aggregate_body X V validator block =
     run_then (map_option unwrap (calculate_coinbase_and_fees (hd_height (blk_header block)) (body_kernels (blk_body block))
         (bv_consensus_manager validator))) (\<lambda>total_coinbase.
     Some (body_validate X V validator (blk_body block) (hd_total_kernel_offset (blk_header block)) (hd_total_script_offset (blk_header block))
       (Some total_coinbase) (Some (hd_prev_hash (blk_header block))) (hd_height (blk_header block))))"

definition block_internal_validate ::
  "('pk, 'sk, 'com) tx_crypto \<Rightarrow> ('pk, 'sk, 'com) validation_ops \<Rightarrow> ('pk, 'sk, 'com) body_validator \<Rightarrow> ('pk, 'sk, 'com) block \<Rightarrow>
   (validation_error, unit) outcome option" where
  "block_internal_validate X V validator block =
     run_then (validate_block_specific_checks X (bv_consensus_manager validator) block) (\<lambda>_.
     validate_block_aggregate_body X V validator block)"

text \<open>The tip of the chain, as far as the validators use it: its height and its hash.\<close>

record chain_metadata =
  height_of_longest_chain :: u64
  best_block :: bytes

definition validate_with_current_tip ::
  "('pk, 'sk, 'com) tx_crypto \<Rightarrow> ('pk, 'sk, 'com) validation_ops \<Rightarrow> ('pk, 'sk, 'com) body_validator \<Rightarrow> ('pk, 'sk, 'com) transaction \<Rightarrow>
   chain_metadata \<Rightarrow> (validation_error, unit) outcome" where
  "validate_with_current_tip X V validator tx tip_metadata =
     (if list_ex output_is_coinbase (body_outputs (tx_body tx)) then Err ErroneousCoinbaseOutput
      else and_then (map_err TransactionError_V (check_output_features (tx_body tx) 1)) (\<lambda>_.
        body_validate X V validator (tx_body tx) (tx_offset tx) (tx_script_offset tx) None (Some (best_block tip_metadata))
          (height_of_longest_chain tip_metadata)))"

subsection \<open>What acceptance means\<close>

lemma and_then_unit_Ok: "and_then (m :: ('e, unit) outcome) (\<lambda>_. k) = Ok b \<longleftrightarrow> m = Ok () \<and> k = Ok b"
  by (cases m) auto

lemma unique_sorted_from_iff: "unique_sorted_from prev items \<longleftrightarrow> sorted_wrt (<) (prev # items)"
  by (induction items arbitrary: prev) (auto dest: less_trans)

lemma is_all_unique_and_sorted_iff: "is_all_unique_and_sorted items \<longleftrightarrow> sorted_wrt (<) items"
  by (cases items) (simp_all add: is_all_unique_and_sorted_def unique_sorted_from_iff)

text \<open>The steps of the internal validation, each of which has succeeded when the body is accepted.\<close>

lemma body_validate_Ok:
  assumes "body_validate X V val body offset script_offset total_reward prev_header height = Ok ()"
  shows "\<exists>constants. consensus_constants_at height (bv_consensus_manager val) = (Ok constants :: (validation_error, consensus_constants) outcome) \<and>
    body_verify_kernel_signatures X body = Ok () \<and> check_script_size X body (max_script_byte_size constants) = Ok () \<and>
    check_sorting_and_duplicates X body = Ok () \<and>
    validate_kernel_sum X V body (commit_value X offset (case total_reward of None \<Rightarrow> 0 | Some r \<Rightarrow> r)) = Ok () \<and>
    verify_metadata_signatures X V body = Ok () \<and>
    validate_script_and_script_offset X V body (pk_from_secret_key (crypto X) script_offset) prev_header height = Ok () \<and>
    validate_covenants X body height = Ok () \<and> validate_versions body constants = Ok () \<and> check_weight X body constants = Ok () \<and>
    check_total_burned body = Ok () \<and> check_maturity height (body_inputs body) = Ok () \<and>
    check_kernel_lock_height height (body_kernels body) = Ok ()"
  using assms unfolding body_validate_def Let_def and_then_unit_Ok and_then_eq_Ok map_err_eq
  by (elim conjE exE) (intro exI conjI; assumption)

lemma validate_with_current_tip_Ok:
  "validate_with_current_tip X V val tx tip = Ok () \<Longrightarrow>
   body_validate X V val (tx_body tx) (tx_offset tx) (tx_script_offset tx) None (Some (best_block tip)) (height_of_longest_chain tip) = Ok ()"
  by (auto simp: validate_with_current_tip_def outcome_simps split: if_splits)

subsection \<open>Conservation of value\<close>

text \<open>
  The commitments of the library are homomorphic in the blinding factor and in the value. A body is opened by the pairs of blinding
  factor and value of its inputs and outputs and by the blinding factors of its excesses, which commit to zero.
\<close>

definition pedersen :: "('pk, 'sk, 'com) tx_crypto \<Rightarrow> ('pk, 'sk, 'com) validation_ops \<Rightarrow> ('sk \<Rightarrow> int \<Rightarrow> 'com) \<Rightarrow> bool" where
  "pedersen X V commit \<longleftrightarrow>
     (\<forall>k v. commit_value X k v = commit k (uint v)) \<and> com_default V = commit (sk_default X) 0 \<and>
     (\<forall>k l v w. com_add (crypto X) (commit k v) (commit l w) = commit (sk_add X k l) (v + w)) \<and>
     (\<forall>k l v w. com_sub (crypto X) (commit k v) (commit l w) = commit (sk_sub V k l) (v - w))"

definition body_opens ::
  "('sk \<Rightarrow> int \<Rightarrow> 'com) \<Rightarrow> ('pk, 'sk, 'com) aggregate_body \<Rightarrow> ('sk \<times> int) list \<Rightarrow> ('sk \<times> int) list \<Rightarrow> 'sk list \<Rightarrow> bool" where
  "body_opens commit body ins outs excesses \<longleftrightarrow>
     collect_commitments (body_inputs body) = Ok (map (\<lambda>(k, v). commit k v) ins) \<and>
     map out_commitment (body_outputs body) = map (\<lambda>(k, v). commit k v) outs \<and>
     map ker_excess (body_kernels body) = map (\<lambda>k. commit k 0) excesses"

text \<open>
  The two openings that the balance equation compares: on the left the offset and the reward with the excesses, on the right the
  outputs less the inputs with the fees. The commitment binds here when these are not two openings of one commitment to different
  values.
\<close>

definition left_blinding :: "('pk, 'sk, 'com) tx_crypto \<Rightarrow> 'sk \<Rightarrow> 'sk list \<Rightarrow> 'sk" where
  "left_blinding X offset excesses = foldl (sk_add X) offset excesses"

definition right_blinding ::
  "('pk, 'sk, 'com) tx_crypto \<Rightarrow> ('pk, 'sk, 'com) validation_ops \<Rightarrow> ('sk \<times> int) list \<Rightarrow> ('sk \<times> int) list \<Rightarrow> 'sk" where
  "right_blinding X V ins outs =
     sk_add X (sk_sub V (foldl (sk_add X) (sk_default X) (map fst outs)) (foldl (sk_add X) (sk_default X) (map fst ins))) (sk_default X)"

definition total_value :: "('sk \<times> int) list \<Rightarrow> int" where
  "total_value os = sum_list (map snd os)"

definition total_fees :: "('pk, 'sk, 'com) aggregate_body \<Rightarrow> int" where
  "total_fees body = sum_list (map (\<lambda>k. uint (ker_fee k)) (body_kernels body))"

definition binds :: "('sk \<Rightarrow> int \<Rightarrow> 'com) \<Rightarrow> 'sk \<Rightarrow> int \<Rightarrow> 'sk \<Rightarrow> int \<Rightarrow> bool" where
  "binds commit k v l w \<longleftrightarrow> (commit k v = commit l w \<longrightarrow> v = w)"

lemma com_sum_opens:
  assumes "pedersen X V commit"
  shows "com_sum X V (map (\<lambda>(k, v). commit k v) os) = commit (foldl (sk_add X) (sk_default X) (map fst os)) (total_value os)"
proof -
  have "foldl (com_add (crypto X)) (commit k v) (map (\<lambda>(k, v). commit k v) os) = commit (foldl (sk_add X) k (map fst os)) (v + total_value os)"
    for k v
    using assms by (induction os arbitrary: k v) (auto simp: pedersen_def total_value_def add.assoc)
  from this [of "sk_default X" 0] assms show ?thesis by (simp add: com_sum_def pedersen_def)
qed

lemma add_u64_uint: "add_u64 a b = Ok c \<Longrightarrow> uint c = uint a + uint b"
  by (simp only: add_u64_eq uint_nat of_nat_add)

lemma sum_kernels_opens:
  assumes "pedersen X V commit" and "map ker_excess ks = map (\<lambda>k. commit k 0) es" and "sum_kernels X (fees, commit k v) ks = Ok (f, c)"
  shows "c = commit (foldl (sk_add X) k es) v \<and> uint f = uint fees + sum_list (map (\<lambda>k. uint (ker_fee k)) ks)"
  using assms
proof (induction ks arbitrary: fees k es)
  case (Cons a ks)
  then obtain e es' where es: "es = e # es'" by (cases es) auto
  from Cons.prems(3) obtain g where g: "add_u64 fees (ker_fee a) = (Ok g :: (validation_error, u64) outcome)"
    "sum_kernels X (g, com_add (crypto X) (commit k v) (ker_excess a)) ks = Ok (f, c)" by (auto simp: outcome_simps)
  have "ker_excess a = commit e 0" "map ker_excess ks = map (\<lambda>k. commit k 0) es'" using Cons.prems(2) es by auto
  moreover from this have "com_add (crypto X) (commit k v) (ker_excess a) = commit (sk_add X k e) v"
    using Cons.prems(1) by (simp add: pedersen_def)
  moreover have "uint g = uint fees + uint (ker_fee a)" by (rule add_u64_uint [OF g(1)])
  ultimately show ?case using Cons.IH [OF Cons.prems(1), of es' g "sk_add X k e"] g(2) es by simp
qed auto

lemma kernel_sum_balances:
  assumes "pedersen X V commit" and "body_opens commit body ins outs excesses"
    and "validate_kernel_sum X V body (commit_value X offset rwd) = Ok ()"
  shows "commit (left_blinding X offset excesses) (uint rwd) =
    commit (right_blinding X V ins outs) (total_value outs - total_value ins + total_fees body)"
proof -
  have cv: "commit_value X k v = commit k (uint v)" for k v using assms(1) by (simp add: pedersen_def)
  from assms(3) obtain fees excess sum_io where
    k: "sum_kernels X (0, commit offset (uint rwd)) (body_kernels body) = Ok (fees, excess)"
    and io: "sum_commitments X V body = Ok sum_io" and eq: "excess = com_add (crypto X) sum_io (commit (sk_default X) (uint fees))"
    by (auto simp: validate_kernel_sum_def outcome_simps cv split: if_splits)
  have "map ker_excess (body_kernels body) = map (\<lambda>k. commit k 0) excesses" using assms(2) by (simp add: body_opens_def)
  from sum_kernels_opens [OF assms(1) this k] have
    l: "excess = commit (left_blinding X offset excesses) (uint rwd)" "uint fees = total_fees body"
    by (simp_all add: left_blinding_def total_fees_def)
  have "sum_io = com_sub (crypto X) (com_sum X V (map (\<lambda>(k, v). commit k v) outs)) (com_sum X V (map (\<lambda>(k, v). commit k v) ins))"
    using io assms(2) by (auto simp: sum_commitments_def body_opens_def outcome_simps)
  with eq l assms(1) show ?thesis by (simp add: com_sum_opens [OF assms(1)] right_blinding_def pedersen_def)
qed

lemma validated_body_balances:
  assumes "pedersen X V commit" and "body_opens commit body ins outs excesses"
    and "body_validate X V val body offset script_offset (Some rwd) prev_header height = Ok ()"
    and "binds commit (left_blinding X offset excesses) (uint rwd)
      (right_blinding X V ins outs) (total_value outs - total_value ins + total_fees body)"
  shows "uint rwd = total_value outs - total_value ins + total_fees body"
  using body_validate_Ok [OF assms(3)] kernel_sum_balances [OF assms(1,2), of offset rwd] assms(4) by (auto simp: binds_def)

lemma no_reward: "body_validate X V val body offset script_offset None prev_header height =
  body_validate X V val body offset script_offset (Some 0) prev_header height"
  by (simp add: body_validate_def)

subsection \<open>Burned outputs\<close>

abbreviation burn_list :: "('pk, 'sk, 'com) transaction_kernel list \<Rightarrow> 'com option list" where
  "burn_list ks \<equiv> map ker_burn_commitment (filter kernel_is_burned ks)"

lemma match_burned_kernels_iff:
  "match_burned_kernels burned ks = Ok rest \<longleftrightarrow>
   (\<exists>cs. burn_list ks = map Some cs \<and> distinct cs \<and> set cs \<subseteq> set burned \<and> rest = filter (\<lambda>c. c \<notin> set cs) burned)"
proof (induction ks arbitrary: burned)
  case Nil
  then show ?case by auto
next
  case (Cons k ks)
  show ?case
  proof (cases "kernel_is_burned k")
    case True
    show ?thesis
    proof (cases "ker_burn_commitment k")
      case None
      then have "map_err TransactionError_V (get_burn_commitment k) = Err (TransactionError_V InvalidKernel)"
        by (simp add: get_burn_commitment_def)
      then show ?thesis using True None by (simp add: map_eq_Cons_conv Cons_eq_map_conv)
    next
      case (Some c)
      have "match_burned_kernels burned (k # ks) = Ok rest \<longleftrightarrow> c \<in> set burned \<and> match_burned_kernels (removeAll c burned) ks = Ok rest"
        using True Some by (simp add: get_burn_commitment_def)
      also have "\<dots> \<longleftrightarrow> (\<exists>cs. burn_list ks = map Some cs \<and> distinct (c # cs) \<and> set (c # cs) \<subseteq> set burned \<and>
          rest = filter (\<lambda>d. d \<notin> set (c # cs)) burned)"
        unfolding Cons.IH by (auto simp: removeAll_filter_not_eq intro!: arg_cong2 [of _ _ _ _ filter])
      also have "\<dots> \<longleftrightarrow> (\<exists>cs. burn_list (k # ks) = map Some cs \<and> distinct cs \<and> set cs \<subseteq> set burned \<and> rest = filter (\<lambda>d. d \<notin> set cs) burned)"
        using True Some by (auto simp: Cons_eq_map_conv)
      finally show ?thesis .
    qed
  qed (use Cons in simp)
qed

lemma set_fold_insert: "set (fold (\<lambda>x. List.insert (f x)) xs acc) = f ` set xs \<union> set acc"
  by (induction xs arbitrary: acc) auto

lemma set_burned_commitments: "set (burned_commitments outputs) = out_commitment ` {out \<in> set outputs. output_is_burned out}"
  by (simp add: burned_commitments_def set_fold_insert)

text \<open>
  (C39) The burn check accepts a body exactly when the commitments named by its burn kernels are pairwise distinct and are the
  commitments of its burned outputs: nothing is burned without a kernel that accounts for it, nor accounted for twice.
\<close>

theorem burned_matched:
  "check_total_burned body = Ok () \<longleftrightarrow>
   (\<exists>cs. map ker_burn_commitment (filter kernel_is_burned (body_kernels body)) = map Some cs \<and> distinct cs \<and>
      set cs = out_commitment ` {out \<in> set (body_outputs body). output_is_burned out})"
proof -
  have "check_total_burned body = Ok () \<longleftrightarrow> match_burned_kernels (burned_commitments (body_outputs body)) (body_kernels body) = Ok []"
    by (auto simp: check_total_burned_def outcome_simps split: if_splits)
  also have "\<dots> \<longleftrightarrow> (\<exists>cs. burn_list (body_kernels body) = map Some cs \<and> distinct cs \<and> set cs = set (burned_commitments (body_outputs body)))"
    unfolding match_burned_kernels_iff by (auto simp: empty_filter_conv)
  finally show ?thesis unfolding set_burned_commitments .
qed

subsection \<open>The rules an accepted body obeys\<close>

lemma sum_script_keys_Ok:
  "sum_script_keys X height prev_hash keys inputs = Ok key \<Longrightarrow> input \<in> set inputs \<Longrightarrow>
   \<exists>com k. input_commitment input = Ok com \<and>
     input_run_and_verify_script X input \<lparr>block_height = height, prev_block_hash = prev_hash, commitment = com\<rparr> = Ok k"
  by (induction X height prev_hash keys inputs rule: sum_script_keys.induct) (auto simp: outcome_simps)

lemma accepted_spendable:
  assumes "check_maturity height (body_inputs body) = Ok ()" and "check_kernel_lock_height height (body_kernels body) = Ok ()"
  shows "min_spendable_height body \<le> height"
proof -
  have "maturity_or 0 i \<le> height" if "i \<in> set (body_inputs body)" for i
    using that assms(1) unfolding check_maturity_def check_each_eq_Ok
    by (cases "in_spent_output i") (auto simp: input_is_mature_at_def maturity_or_def input_features_def split: if_splits)
  then have "max_input_maturity body \<le> height" by (simp add: max_input_maturity_def foldl_max_le)
  moreover have "max_kernel_timelock body \<le> height"
    using assms(2) by (auto simp: check_kernel_lock_height_def max_kernel_timelock_def foldl_max_le list_ex_iff not_less split: if_splits)
  ultimately show ?thesis by (simp add: min_spendable_height_def)
qed

text \<open>
  (C38) What the internal validation of a body guarantees: inputs, outputs and kernels are strictly sorted and so free of
  duplicates, every input runs its script to a key under which its script signature verifies and has a covenant that selects
  outputs, the body may be spent at the height, and its weight is within the limit of the network.
\<close>

theorem body_validate_rules:
  assumes "body_validate X V val body offset script_offset total_reward (Some prev_hash) height = Ok ()"
  shows "sorted_wrt (<) (map (input_output_hash X) (body_inputs body)) \<and>
    sorted_wrt (<) (map (\<lambda>out. com_key X (out_commitment out)) (body_outputs body)) \<and>
    sorted_wrt (<) (map (\<lambda>k. sig_key X (ker_excess_sig k)) (body_kernels body)) \<and>
    list_all (\<lambda>input. \<exists>com key cov n. input_commitment input = Ok com \<and>
      input_run_and_verify_script X input \<lparr>block_height = height, prev_block_hash = prev_hash, commitment = com\<rparr> = Ok key \<and>
      input_covenant input = Ok cov \<and> covenant_execute X cov height input (body_outputs body) = Ok n) (body_inputs body) \<and>
    min_spendable_height body \<le> height \<and>
    (\<exists>constants w. consensus_constants_at height (bv_consensus_manager val) = (Ok constants :: (unit, consensus_constants) outcome) \<and>
      calculate_body X (transaction_weight_params constants) body = Ok w \<and> w \<le> max_block_transaction_weight constants)"
proof -
  obtain constants where c: "consensus_constants_at height (bv_consensus_manager val) = (Ok constants :: (validation_error, consensus_constants) outcome)"
    "check_sorting_and_duplicates X body = Ok ()"
    "validate_script_and_script_offset X V body (pk_from_secret_key (crypto X) script_offset) (Some prev_hash) height = Ok ()"
    "validate_covenants X body height = Ok ()" "check_weight X body constants = Ok ()"
    "check_maturity height (body_inputs body) = Ok ()" "check_kernel_lock_height height (body_kernels body) = Ok ()"
    using body_validate_Ok [OF assms] by blast
  have 1: "sorted_wrt (<) (map (input_output_hash X) (body_inputs body)) \<and>
    sorted_wrt (<) (map (\<lambda>out. com_key X (out_commitment out)) (body_outputs body)) \<and>
    sorted_wrt (<) (map (\<lambda>k. sig_key X (ker_excess_sig k)) (body_kernels body))"
    using c(2) by (auto simp: check_sorting_and_duplicates_def is_all_unique_and_sorted_iff split: if_splits)
  obtain key where key: "sum_script_keys X height prev_hash (pk_default (crypto X)) (body_inputs body) = Ok key"
    using c(3) by (auto simp: validate_script_and_script_offset_def outcome_simps Let_def)
  have 2: "\<exists>com key cov n. input_commitment i = Ok com \<and>
      input_run_and_verify_script X i \<lparr>block_height = height, prev_block_hash = prev_hash, commitment = com\<rparr> = Ok key \<and>
      input_covenant i = Ok cov \<and> covenant_execute X cov height i (body_outputs body) = Ok n" if "i \<in> set (body_inputs body)" for i
    using sum_script_keys_Ok [OF key that] c(4) that unfolding validate_covenants_def check_each_eq_Ok by (fastforce simp: outcome_simps)
  have 3: "consensus_constants_at height (bv_consensus_manager val) = (Ok constants :: (unit, consensus_constants) outcome)"
    using c(1) by (auto simp: consensus_constants_at_def split: list.splits)
  have 4: "\<exists>w. calculate_body X (transaction_weight_params constants) body = Ok w \<and> w \<le> max_block_transaction_weight constants"
    using c(5) by (auto simp: check_weight_def outcome_simps split: if_splits)
  show ?thesis using 1 2 3 4 accepted_spendable [OF c(6,7)] unfolding list_all_iff by blast
qed

text \<open>
  (C3) No inflation by a transaction. When a transaction is accepted at the tip, its commitments are homomorphic and opened by
  the given values, and the library's commitment binds on the two sides of the balance equation, then the outputs and the fees are
  together worth exactly the inputs.
\<close>

theorem transaction_conserves_value:
  assumes "pedersen X V commit" and "validate_with_current_tip X V val tx tip = Ok ()"
    and "body_opens commit (tx_body tx) ins outs excesses"
    and "binds commit (left_blinding X (tx_offset tx) excesses) 0
      (right_blinding X V ins outs) (total_value outs - total_value ins + total_fees (tx_body tx))"
  shows "total_value outs + total_fees (tx_body tx) = total_value ins"
proof -
  have "uint (0 :: u64) = total_value outs - total_value ins + total_fees (tx_body tx)"
    using assms(4) by (intro validated_body_balances [OF assms(1,3) validate_with_current_tip_Ok [OF assms(2), unfolded no_reward]]) simp
  then show ?thesis by simp
qed

lemma accepted_reward:
  assumes "block_internal_validate X V val block = Some (Ok ())"
  shows "\<exists>coinbase total. block_reward (cm_emission (bv_consensus_manager val)) (hd_height (blk_header block)) = Some (Ok coinbase) \<and>
    uint total = uint coinbase + total_fees (blk_body block) \<and>
    body_validate X V val (blk_body block) (hd_total_kernel_offset (blk_header block)) (hd_total_script_offset (blk_header block))
      (Some total) (Some (hd_prev_hash (blk_header block))) (hd_height (blk_header block)) = Ok ()"
proof -
  let ?rules = "bv_consensus_manager val" and ?h = "hd_height (blk_header block)" and ?ks = "body_kernels (blk_body block)"
  from assms obtain total where c: "map_option unwrap (calculate_coinbase_and_fees ?h ?ks ?rules) = Some (Ok total :: (validation_error, micro_tari) outcome)"
    and v: "body_validate X V val (blk_body block) (hd_total_kernel_offset (blk_header block)) (hd_total_script_offset (blk_header block))
      (Some total) (Some (hd_prev_hash (blk_header block))) ?h = Ok ()"
    unfolding block_internal_validate_def validate_block_aggregate_body_def run_then_eq_Ok by auto
  from c obtain coinbase where b: "block_reward (cm_emission ?rules) ?h = Some (Ok coinbase)" "sum_from coinbase (map ker_fee ?ks) = (Ok total :: (unit, micro_tari) outcome)"
    unfolding calculate_coinbase_and_fees_def by (auto simp: outcome_simps)
  have "int (sum_list (map unat (map ker_fee ks))) = sum_list (map (\<lambda>k. uint (ker_fee k)) ks)" for ks :: "('a, 'b, 'c) transaction_kernel list"
    by (induction ks) simp_all
  then have "uint total = uint coinbase + total_fees (blk_body block)"
    using b(2) unfolding sum_from_eq_Ok uint_nat total_fees_def by (metis of_nat_add uint_nat)
  with b(1) v show ?thesis by blast
qed

text \<open>
  (C1) An accepted block creates exactly the reward of the emission schedule: when its commitments are opened and the library's
  commitment binds on the two sides of the balance equation, the outputs are worth the inputs plus the scheduled reward of the
  height of the block. The fees are neither lost nor paid twice.
\<close>

theorem block_mints_reward:
  assumes "pedersen X V commit" and "block_internal_validate X V val block = Some (Ok ())"
    and "proper_decay (decay (cm_emission (bv_consensus_manager val)))"
    and "supply_spec (cm_emission (bv_consensus_manager val)) (unat (hd_height (blk_header block))) < 2 ^ 64"
    and "body_opens commit (blk_body block) ins outs excesses"
    and "let rwd = int (reward_spec (cm_emission (bv_consensus_manager val)) (unat (hd_height (blk_header block)))) in
      binds commit (left_blinding X (hd_total_kernel_offset (blk_header block)) excesses) (rwd + total_fees (blk_body block))
        (right_blinding X V ins outs) (total_value outs - total_value ins + total_fees (blk_body block))"
  shows "total_value outs = total_value ins + int (reward_spec (cm_emission (bv_consensus_manager val)) (unat (hd_height (blk_header block))))"
proof -
  let ?s = "cm_emission (bv_consensus_manager val)" and ?h = "hd_height (blk_header block)"
  obtain coinbase total where b: "block_reward ?s ?h = Some (Ok coinbase)" "uint total = uint coinbase + total_fees (blk_body block)"
    "body_validate X V val (blk_body block) (hd_total_kernel_offset (blk_header block)) (hd_total_script_offset (blk_header block))
      (Some total) (Some (hd_prev_hash (blk_header block))) ?h = Ok ()"
    using accepted_reward [OF assms(2)] by blast
  have "unat coinbase = reward_spec ?s (unat ?h)"
    using emission_loop_ok [OF assms(3) rate_at_iter _ assms(4)] b(1) by (auto simp: block_reward_def rate_at_def)
  then have total: "uint total = int (reward_spec ?s (unat ?h)) + total_fees (blk_body block)" using b(2) by (simp only: uint_nat)
  have "uint total = total_value outs - total_value ins + total_fees (blk_body block)"
    using assms(6) unfolding total [symmetric] Let_def by (rule validated_body_balances [OF assms(1,5) b(3)])
  with total show ?thesis by simp
qed

subsection \<open>Fees that overflow\<close>

lemma sum_kernels_overflow:
  "2 ^ 64 \<le> unat fees + sum_list (map (\<lambda>k. unat (ker_fee k)) ks) \<Longrightarrow> sum_kernels X (fees, c) ks = Panic"
proof (induction ks arbitrary: fees c)
  case (Cons k ks)
  show ?case
  proof (cases "2 ^ 64 \<le> unat fees + unat (ker_fee k)")
    case True
    then have "add_u64 fees (ker_fee k) = (Panic :: (validation_error, u64) outcome)" by (simp only: add_u64_eq)
    then show ?thesis by simp
  next
    case False
    then obtain g where g: "add_u64 fees (ker_fee k) = (Ok g :: (validation_error, u64) outcome)" "unat g = unat fees + unat (ker_fee k)"
      using add_u64_ok [of fees "ker_fee k"] by (metis not_le)
    then have "2 ^ 64 \<le> unat g + sum_list (map (\<lambda>k. unat (ker_fee k)) ks)" using Cons.prems by simp
    then show ?thesis using Cons.IH g(1) by simp
  qed
next
  case Nil
  then show ?case using unat_less_u64 [of fees] by simp
qed

text \<open>
  (C40) The fees are added with the plain operator before the balance is checked: a transaction with valid kernel signatures whose
  fees exceed 64 bits aborts the node that validates it, whatever its inputs and outputs are worth.
\<close>

theorem fee_overflow_panics:
  assumes "\<not> list_ex output_is_coinbase (body_outputs (tx_body tx))" and "check_output_features (tx_body tx) 1 = Ok ()"
    and "consensus_constants_at (height_of_longest_chain tip) (bv_consensus_manager val) = (Ok constants :: (validation_error, consensus_constants) outcome)"
    and "body_verify_kernel_signatures X (tx_body tx) = Ok ()" and "check_script_size X (tx_body tx) (max_script_byte_size constants) = Ok ()"
    and "check_sorting_and_duplicates X (tx_body tx) = Ok ()"
    and "2 ^ 64 \<le> (\<Sum>k\<leftarrow>body_kernels (tx_body tx). unat (ker_fee k))"
  shows "validate_with_current_tip X V val tx tip = Panic"
  using assms
  by (simp add: validate_with_current_tip_def body_validate_def validate_kernel_sum_def sum_kernels_overflow)

subsection \<open>Concrete instances\<close>

definition sample_validation :: "(u8, u8, u8) validation_ops" where
  "sample_validation = \<lparr>pk_sub = (-), com_default = 0, sk_sub = (-), sk_mul = (*), sk_of_u64 = (\<lambda>v. of_nat (unat v)),
     verify_batch = (\<lambda>_. True), metadata_challenge = (\<lambda>v s f k ec ek c cov e m. replicate 32 0), registration_challenge = (\<lambda>k n m. m)\<rparr>"

definition sample_manager :: "(u8, u8, u8) consensus_manager" where
  "sample_manager = \<lparr>cm_consensus_constants = localnet, cm_network = LocalNet, cm_emission = \<lparr>initial = 10, decay = [3], tail = 1\<rparr>,
     cm_gen_block = None, cm_chain_strength_comparer = height_comparer\<rparr>"

definition sample_validator :: "(u8, u8, u8) body_validator" where
  "sample_validator = \<lparr>bv_bypass_range_proof_verification = False, bv_consensus_manager = sample_manager\<rparr>"

definition signed_input :: "(u8, u8, u8) transaction_input" where
  "signed_input = sample_input\<lparr>in_input_data := [PublicKey 5], in_script_signature := (0, 0, 9, 0, 0)\<rparr>"

definition proved_output :: "u8 \<Rightarrow> (u8, u8, u8) transaction_output" where
  "proved_output c = (sample_output c 0)\<lparr>out_proof := Some [], out_metadata_signature := (0, 0, c, 0, 0)\<rparr>"

definition fee_kernel :: "u8 \<Rightarrow> u64 \<Rightarrow> (u8, u8, u8) transaction_kernel" where
  "fee_kernel s fee = (sample_kernel s 0)\<lparr>ker_fee := fee, ker_excess := 0\<rparr>"

definition sample_payment :: "(u8, u8, u8) transaction" where
  "sample_payment = \<lparr>tx_offset = 0, tx_body = body_new [signed_input] [proved_output 7] [fee_kernel 3 2], tx_script_offset = 4\<rparr>"

definition sample_tip :: chain_metadata where
  "sample_tip = \<lparr>height_of_longest_chain = 1, best_block = zero_hash\<rparr>"

lemma sample_constants_at: "consensus_constants_at height sample_manager = Ok (hd localnet)"
  by (simp add: consensus_constants_at_def sample_manager_def localnet_def Let_def)

lemma sample_constants:
  "max_script_byte_size (hd localnet) = 2048" "coinbase_lock_height (hd localnet) = 2"
  "transaction_weight_params (hd localnet) = weight_params_v1" "max_block_transaction_weight (hd localnet) = 19500"
  "input_version_range (hd localnet) = (InputV0, InputV0)" "kernel_version_range (hd localnet) = (KernelV0, KernelV0)"
  "output_versions (hd localnet) = \<lparr>ovr_outputs = (OutputV0, OutputV0), ovr_features = (FeaturesV0, FeaturesV0), ovr_opcode = (V0, V0)\<rparr>"
  "permitted_output_types (hd localnet) = output_type_all" "permitted_range_proof_types (hd localnet) = range_proof_type_all"
  "coinbase_output_features_extra_max_length (hd localnet) = 64"
  by (simp_all add: localnet_def Let_def version_zero_def)

lemmas sample_body_simps = signed_input_def proved_output_def fee_kernel_def sample_input_def sample_output_def sample_kernel_def
  output_features_default_def

lemma signed_input_simps:
  "input_commitment signed_input = Ok 9" "input_covenant signed_input = Ok []" "input_is_mature_at signed_input height = Ok True"
  "in_version signed_input = InputV0"
  "input_run_and_verify_script sample_tx signed_input \<lparr>block_height = h, prev_block_hash = b, commitment = c\<rparr> = Ok 5"
  by (simp_all add: sample_body_simps input_commitment_def input_covenant_def input_is_mature_at_def input_run_and_verify_script_def
      input_run_script_def execute_with_context_def input_validate_script_signature_def sample_tx_def exec_state_default_def vec_pop_def Let_def)

lemma proved_output_simps:
  "out_commitment (proved_output c) = c" "\<not> output_is_coinbase (proved_output c)" "\<not> output_is_burned (proved_output c)"
  "verify_metadata_signature sample_tx sample_validation (proved_output c) = Ok ()" "out_script (proved_output c) = []"
  "range_proof_type (out_features (proved_output c)) = BulletProofPlus" "proof_result (proved_output c) = Ok []"
  "out_sender_offset_public_key (proved_output c) = 1"
  by (simp_all add: sample_body_simps output_is_coinbase_def output_is_burned_def verify_metadata_signature_def
      verify_metadata_signature_internal_def sample_tx_def proof_result_def)

lemma fee_kernel_simps:
  "kernel_verify_signature sample_tx (fee_kernel s fee) = Ok ()" "\<not> kernel_is_burned (fee_kernel s fee)"
  "\<not> kernel_is_coinbase (fee_kernel s fee)" "ker_fee (fee_kernel s fee) = fee" "ker_excess (fee_kernel s fee) = 0"
  "ker_lock_height (fee_kernel s fee) = 0" "ker_version (fee_kernel s fee) = KernelV0"
  by (simp_all add: sample_body_simps kernel_verify_signature_def sample_tx_def sample_crypto_def kernel_is_burned_def BURN_KERNEL_def
      kernel_is_coinbase_def COINBASE_KERNEL_def)

definition coinbase_kernel :: "(u8, u8, u8) transaction_kernel" where
  "coinbase_kernel = (fee_kernel 1 0)\<lparr>ker_features := COINBASE_KERNEL\<rparr>"

definition coinbase_output :: "(u8, u8, u8) transaction_output" where
  "coinbase_output = (proved_output 11)\<lparr>out_features := create_coinbase 3 None\<rparr>"

definition sample_mined :: "(u8, u8, u8) block" where
  "sample_mined = \<lparr>blk_header = (sample_header 1 0)\<lparr>hd_total_script_offset := 4\<rparr>,
     blk_body = body_new [signed_input] [proved_output 7, coinbase_output] [coinbase_kernel, fee_kernel 3 2]\<rparr>"

lemma coinbase_kernel_simps:
  "kernel_verify_signature sample_tx coinbase_kernel = Ok ()" "\<not> kernel_is_burned coinbase_kernel" "kernel_is_coinbase coinbase_kernel"
  "ker_fee coinbase_kernel = 0" "ker_excess coinbase_kernel = 0" "ker_lock_height coinbase_kernel = 0" "ker_version coinbase_kernel = KernelV0"
  by (simp_all add: coinbase_kernel_def sample_body_simps kernel_verify_signature_def sample_tx_def sample_crypto_def kernel_is_burned_def
      BURN_KERNEL_def kernel_is_coinbase_def COINBASE_KERNEL_def)

lemma coinbase_output_simps:
  "out_commitment coinbase_output = 11" "output_is_coinbase coinbase_output" "\<not> output_is_burned coinbase_output"
  "verify_metadata_signature sample_tx sample_validation coinbase_output = Ok ()" "out_script coinbase_output = []"
  "range_proof_type (out_features coinbase_output) = BulletProofPlus" "proof_result coinbase_output = Ok []"
  by (simp_all add: coinbase_output_def create_coinbase_def sample_body_simps output_is_coinbase_def output_is_burned_def
      verify_metadata_signature_def verify_metadata_signature_internal_def sample_tx_def proof_result_def)

lemmas sample_parts = signed_input_simps proved_output_simps fee_kernel_simps coinbase_kernel_simps coinbase_output_simps

lemma sample_versions:
  "validate_input_version c signed_input = Ok ()" "validate_output_version c (proved_output n) = Ok ()"
  "validate_output_version c coinbase_output = Ok ()" "validate_kernel_version c (fee_kernel s fee) = Ok ()"
  "validate_kernel_version c coinbase_kernel = Ok ()"
  if "input_version_range c = (InputV0, InputV0)" "kernel_version_range c = (KernelV0, KernelV0)"
    "output_versions c = \<lparr>ovr_outputs = (OutputV0, OutputV0), ovr_features = (FeaturesV0, FeaturesV0), ovr_opcode = (V0, V0)\<rparr>"
  using that by (simp_all add: validate_input_version_def validate_output_version_def validate_kernel_version_def range_contains_def
      coinbase_output_def coinbase_kernel_def create_coinbase_def sample_body_simps)

lemma sample_permitted:
  "and_then (check_permitted_output_types c out) (\<lambda>_. and_then (check_permitted_range_proof_types c out) (\<lambda>_.
     check_validator_node_registration_utxo X V c out)) = Ok ()"
  if "permitted_output_types c = output_type_all" "permitted_range_proof_types c = range_proof_type_all"
    "out = proved_output n \<or> out = coinbase_output"
  using that by (auto simp: check_permitted_output_types_def check_permitted_range_proof_types_def output_type_all_def
      range_proof_type_all_def check_validator_node_registration_utxo_def coinbase_output_def create_coinbase_def sample_body_simps)

lemma sample_out_size:
  "get_features_and_scripts_size sample_tx (proved_output n) = Ok 26" "get_features_and_scripts_size sample_tx coinbase_output = Ok 26"
  using sample_size [of n 0] sample_size [of 11 3]
  by (simp_all add: get_features_and_scripts_size_def coinbase_output_def proved_output_def sample_output_def create_coinbase_def
      sample_tx_def output_features_default_def)

lemma sample_weight:
  assumes "transaction_weight_params c = weight_params_v1" "max_block_transaction_weight c = 19500"
    "length (body_inputs body) \<le> 1" "length (body_kernels body) \<le> 2" "length (body_outputs body) \<le> 2"
    "\<forall>out \<in> set (body_outputs body). get_features_and_scripts_size sample_tx out = Ok 26"
  shows "check_weight sample_tx body c = Ok ()"
proof -
  have "body_small sample_tx body" using assms by (simp add: body_small_def list_all_iff output_size_def)
  from calculate_body_v1 [OF this] obtain w where w: "calculate_body sample_tx weight_params_v1 body = Ok w"
    "unat w = body_weight_v1 sample_tx body" by blast
  have "(\<Sum>out\<leftarrow>body_outputs body. 53 + (output_size sample_tx out + 15) div 16) = (\<Sum>out\<leftarrow>body_outputs body. 55)"
    using assms(6) by (intro arg_cong [where f = sum_list] map_cong) (simp_all add: output_size_def)
  then have "unat w \<le> 138" using w(2) assms(3-5) by (simp add: body_weight_v1_def sum_list_triv)
  then have "w \<le> 19500" by (simp add: word_le_nat_alt)
  then show ?thesis using w(1) assms(1,2) by (simp add: check_weight_def)
qed

lemma check_each_all: "(\<And>x. x \<in> set xs \<Longrightarrow> f x = Ok ()) \<Longrightarrow> check_each f xs = Ok ()"
  by (simp add: check_each_eq_Ok)

lemma sample_proofs:
  assumes "\<forall>out \<in> set (body_outputs body). proof_result out = Ok [] \<and> range_proof_type (out_features out) = BulletProofPlus"
  shows "validate_range_proofs sample_tx sample_validation body = Ok ()"
proof -
  have "\<exists>ps. collect_proofs outs = Ok ps" if "\<forall>out \<in> set outs. proof_result out = Ok []" for outs :: "(u8, u8, u8) transaction_output list"
    using that by (induction outs) auto
  then obtain ps where "collect_proofs (body_outputs body) = Ok ps" using assms by blast
  moreover have "filter (\<lambda>out. range_proof_type (out_features out) = RevealedValue) (body_outputs body) = []"
    using assms by (simp add: filter_empty_conv)
  moreover have "filter (\<lambda>out. range_proof_type (out_features out) = BulletProofPlus) (body_outputs body) = body_outputs body"
    using assms by (simp add: filter_id_conv)
  ultimately show ?thesis
    using assms by (auto simp: validate_range_proofs_def batch_verify_range_proofs_def sample_validation_def Let_def)
qed

lemma sample_body_accepted:
  assumes parts: "body_inputs body = [signed_input]" "set (body_outputs body) \<subseteq> {proved_output n, coinbase_output}"
      "set (body_kernels body) \<subseteq> {fee_kernel s fee, coinbase_kernel}" "length (body_outputs body) \<le> 2" "length (body_kernels body) \<le> 2"
    and checks: "check_sorting_and_duplicates sample_tx body = Ok ()"
      "validate_kernel_sum sample_tx sample_validation body (commit_value sample_tx offset (case total_reward of None \<Rightarrow> 0 | Some r \<Rightarrow> r)) = Ok ()"
      "validate_script_and_script_offset sample_tx sample_validation body (pk_from_secret_key (crypto sample_tx) script_offset) prev_header height = Ok ()"
  shows "body_validate sample_tx sample_validation sample_validator body offset script_offset total_reward prev_header height = Ok ()"
proof -
  define c where "c = hd localnet"
  note c = sample_constants [folded c_def]
  have "body_verify_kernel_signatures sample_tx body = Ok ()"
    using parts(3) unfolding body_verify_kernel_signatures_def by (intro check_each_all) (auto simp: sample_parts)
  moreover have "length (script_borsh_serialize sample_crypto []) = 8"
    by (simp add: script_borsh_serialize_def script_to_bytes_def sample_crypto_def Let_def)
  then have "check_script_size sample_tx body (max_script_byte_size c) = Ok ()"
    using parts(2) c(1) unfolding check_script_size_def
    by (intro check_each_all) (auto simp: check_tari_script_byte_size_def sample_parts sample_tx_def)
  moreover have "validate_range_proofs sample_tx sample_validation body = Ok ()"
    using parts(2) by (intro sample_proofs) (auto simp: sample_parts)
  moreover have "verify_metadata_signatures sample_tx sample_validation body = Ok ()"
    using parts(2) unfolding verify_metadata_signatures_def by (intro check_each_all) (auto simp: sample_parts)
  moreover have "validate_covenants sample_tx body height = Ok ()"
    using parts(1) by (simp add: validate_covenants_def sample_parts covenant_execute_def)
  moreover have "validate_versions body c = Ok ()"
    using parts(1-3) c(5-7) sample_versions [OF c(5-7)] unfolding validate_versions_def and_then_unit_Ok
    by (intro conjI check_each_all) auto
  moreover have "check_weight sample_tx body c = Ok ()"
    using parts by (intro sample_weight c(3,4)) (auto simp: sample_out_size)
  moreover have "check_each (\<lambda>out. and_then (check_permitted_output_types c out) (\<lambda>_. and_then (check_permitted_range_proof_types c out) (\<lambda>_.
      check_validator_node_registration_utxo sample_tx sample_validation c out))) (body_outputs body) = Ok ()"
    using parts(2) by (intro check_each_all sample_permitted c(8,9)) auto
  moreover have "check_total_burned body = Ok ()"
  proof -
    have none: "filter kernel_is_burned (body_kernels body) = []" "{out \<in> set (body_outputs body). output_is_burned out} = {}"
      using parts(2,3) by (auto simp: filter_empty_conv sample_parts)
    have "set (burned_commitments (body_outputs body)) = {}" unfolding set_burned_commitments none(2) by simp
    then show ?thesis using none(1) by (simp add: check_total_burned_def match_burned_kernels_iff outcome_simps)
  qed
  moreover have "check_maturity height (body_inputs body) = Ok ()" using parts(1) by (simp add: check_maturity_def sample_parts)
  moreover have "check_kernel_lock_height height (body_kernels body) = Ok ()"
    using parts(3) by (auto simp: check_kernel_lock_height_def list_ex_iff sample_parts)
  ultimately show ?thesis using checks by (simp add: body_validate_def sample_validator_def sample_constants_at c_def)
qed

lemma sample_offset:
  assumes "body_inputs body = [signed_input]" and "filter (\<lambda>out. \<not> output_is_coinbase out) (body_outputs body) = [proved_output n]"
  shows "validate_script_and_script_offset sample_tx sample_validation body (pk_from_secret_key (crypto sample_tx) 4) prev_header height = Ok ()"
proof -
  have crypto: "crypto sample_tx = sample_crypto" by (simp add: sample_tx_def)
  have "sum_script_keys sample_tx height prev_hash (pk_default sample_crypto) [signed_input] = Ok 5" for prev_hash
    by (simp add: sample_parts crypto) (simp add: sample_crypto_def)
  moreover have "sum_sender_keys sample_tx (body_outputs body) = 1"
    using assms(2) by (simp add: sum_sender_keys_def sample_parts crypto) (simp add: sample_crypto_def)
  ultimately show ?thesis
    using assms(1) by (simp add: validate_script_and_script_offset_def crypto Let_def) (simp add: sample_validation_def sample_crypto_def)
qed

lemma sample_pedersen: "pedersen sample_tx sample_validation (\<lambda>k v. of_int v)"
proof -
  have "(of_nat (n mod 256) :: u8) = of_nat n" for n by (simp only: word_unat_eq_iff unat_of_nat) simp
  then have "(of_nat (unat v mod 256) :: u8) = of_int (uint v)" for v :: u64 by (simp only: uint_nat of_int_of_nat_eq)
  then show ?thesis by (simp add: pedersen_def sample_tx_def sample_crypto_def sample_validation_def)
qed

lemma sample_payment_accepted:
  "validate_with_current_tip sample_tx sample_validation sample_validator sample_payment sample_tip = Ok ()"
proof -
  let ?body = "tx_body sample_payment"
  have parts: "body_inputs ?body = [signed_input]" "body_outputs ?body = [proved_output 7]" "body_kernels ?body = [fee_kernel 3 2]"
    "tx_offset sample_payment = 0" "tx_script_offset sample_payment = 4"
    by (simp_all add: sample_payment_def body_new_def)
  have "check_output_features ?body 1 = Ok ()"
    by (simp add: check_output_features_def parts sample_parts) (simp add: sample_body_simps)
  moreover have "validate_kernel_sum sample_tx sample_validation ?body (commit_value sample_tx 0 0) = Ok ()"
    by (simp add: validate_kernel_sum_def parts sample_parts sum_commitments_def com_sum_def)
       (simp add: sample_tx_def sample_crypto_def sample_validation_def add_u64_def checked_add_u64_def u64_of_nat_def)
  moreover have "check_sorting_and_duplicates sample_tx ?body = Ok ()"
    by (simp add: check_sorting_and_duplicates_def parts is_all_unique_and_sorted_def)
  ultimately have "body_validate sample_tx sample_validation sample_validator ?body 0 4 None (Some (best_block sample_tip))
      (height_of_longest_chain sample_tip) = Ok ()"
    by (intro sample_body_accepted [where n = 7 and s = 3 and fee = 2] sample_offset [where n = 7]) (simp_all add: parts sample_parts)
  then show ?thesis
    using \<open>check_output_features ?body 1 = Ok ()\<close> by (simp add: validate_with_current_tip_def parts sample_parts)
qed

theorem transaction_conserves_value_witness:
  "total_value [(0 :: u8, 7)] + total_fees (tx_body sample_payment) = total_value [(0 :: u8, 9)]"
proof (rule transaction_conserves_value [OF sample_pedersen sample_payment_accepted])
  show "body_opens (\<lambda>k v. of_int v) (tx_body sample_payment) [(0, 9)] [(0, 7)] [0]"
    by (simp add: body_opens_def sample_payment_def body_new_def sample_parts)
  show "binds (\<lambda>k v. of_int v :: u8) (left_blinding sample_tx (tx_offset sample_payment) [0]) 0
    (right_blinding sample_tx sample_validation [(0, 9)] [(0, 7)]) (total_value [(0 :: u8, 7)] - total_value [(0 :: u8, 9)] + total_fees (tx_body sample_payment))"
    by (simp add: binds_def total_value_def total_fees_def sample_payment_def body_new_def sample_parts)
qed

theorem body_validate_rules_witness:
  "min_spendable_height (tx_body sample_payment) \<le> 1 \<and> sorted_wrt (<) (map (input_output_hash sample_tx) (body_inputs (tx_body sample_payment)))"
  using body_validate_rules [OF validate_with_current_tip_Ok [OF sample_payment_accepted]] by (simp add: sample_tip_def)

theorem fee_overflow_panics_witness:
  "validate_with_current_tip sample_tx sample_validation sample_validator
     (transaction_new [] [] [fee_kernel 1 (2 ^ 63), fee_kernel 3 (2 ^ 63)] 0 0) sample_tip = Panic"
proof (rule fee_overflow_panics [where constants = "hd localnet"])
  show "consensus_constants_at (height_of_longest_chain sample_tip) (bv_consensus_manager sample_validator) =
    (Ok (hd localnet) :: (validation_error, consensus_constants) outcome)"
    by (simp add: sample_validator_def sample_constants_at)
qed (simp_all add: transaction_new_def body_new_def check_output_features_def body_verify_kernel_signatures_def sample_parts
    check_script_size_def check_sorting_and_duplicates_def is_all_unique_and_sorted_def, simp_all add: fee_kernel_def sample_kernel_def sample_tx_def)

lemma sample_mined_accepted: "block_internal_validate sample_tx sample_validation sample_validator sample_mined = Some (Ok ())"
proof -
  let ?body = "blk_body sample_mined" and ?h = "blk_header sample_mined"
  have parts: "body_inputs ?body = [signed_input]" "body_outputs ?body = [proved_output 7, coinbase_output]"
    "body_kernels ?body = [coinbase_kernel, fee_kernel 3 2]" "hd_height ?h = 1" "hd_total_script_offset ?h = 4" "hd_total_kernel_offset ?h = 0"
    by (simp_all add: sample_mined_def body_new_def sample_header_def header_new_def sample_tx_def)
  have one: "unat (1 :: u64) = Suc 0" by simp
  obtain it where "emission_loop 1 (emission_iter \<lparr>initial = 10, decay = [3], tail = 1\<rparr>) = Some (Ok it)"
    "rate_at \<lparr>initial = 10, decay = [3], tail = 1\<rparr> (unat (1 :: u64)) it"
    using emission_loop_ok [of "\<lparr>initial = 10, decay = [3], tail = 1\<rparr>" 0 _ 1, OF _ rate_at_iter]
    unfolding one by (auto simp: proper_decay_def)
  then have "block_reward (cm_emission sample_manager) 1 = Some (Ok 9)"
    unfolding one by (simp add: block_reward_def sample_manager_def rate_at_def word_unat_eq_iff)
  then have total: "calculate_coinbase_and_fees 1 [coinbase_kernel, fee_kernel 3 2] sample_manager = Some (Ok 11)"
    by (simp add: calculate_coinbase_and_fees_def parts sample_parts add_u64_def checked_add_u64_def u64_of_nat_def)
  have rules: "bv_consensus_manager sample_validator = sample_manager" by (simp add: sample_validator_def)
  have "check_output_features ?body 64 = Ok ()"
    by (simp add: check_output_features_def parts sample_parts) (simp add: sample_body_simps coinbase_output_def create_coinbase_def)
  moreover have "scan_coinbase_kernels 0 None (body_kernels ?body) = (1, Some coinbase_kernel)" by (simp add: parts sample_parts)
  moreover have "scan_coinbase_outputs 1 2 0 None (body_outputs ?body) = Ok (1, Some coinbase_output)"
    unfolding parts by (simp add: sample_body_simps coinbase_output_def create_coinbase_def add_u64_def checked_add_u64_def u64_of_nat_def)
  moreover have "com_add (crypto sample_tx) 0 (commit_value sample_tx (sk_default sample_tx) 11) = 11"
    by (simp add: sample_tx_def sample_crypto_def)
  ultimately have "check_output_features ?body 64 = Ok ()" "block_check_coinbase_output sample_tx 11 (hd localnet) sample_mined = Ok ()"
    by (simp_all add: block_check_coinbase_output_def check_coinbase_output_def parts(4) sample_parts sample_constants block_transaction_error_def)
  then have "validate_block_specific_checks sample_tx sample_manager sample_mined = Some (Ok ())"
    by (simp add: validate_block_specific_checks_def sample_constants_at parts total sample_constants)
  moreover have "validate_block_aggregate_body sample_tx sample_validation sample_validator sample_mined = Some (Ok ())"
  proof -
    have "validate_kernel_sum sample_tx sample_validation ?body (commit_value sample_tx 0 11) = Ok ()"
      by (simp add: validate_kernel_sum_def parts sample_parts sum_commitments_def com_sum_def)
         (simp add: sample_tx_def sample_crypto_def sample_validation_def add_u64_def checked_add_u64_def u64_of_nat_def)
    moreover have "check_sorting_and_duplicates sample_tx ?body = Ok ()"
      by (simp add: check_sorting_and_duplicates_def parts is_all_unique_and_sorted_def sample_parts)
         (simp add: coinbase_kernel_def fee_kernel_def sample_kernel_def sample_tx_def)
    ultimately have "body_validate sample_tx sample_validation sample_validator ?body 0 4 (Some 11) (Some (hd_prev_hash ?h)) 1 = Ok ()"
      by (intro sample_body_accepted [where n = 7 and s = 3 and fee = 2] sample_offset [where n = 7]) (simp_all add: parts sample_parts)
    then show ?thesis by (simp add: validate_block_aggregate_body_def rules parts total)
  qed
  ultimately show ?thesis by (simp add: block_internal_validate_def rules)
qed

theorem block_mints_reward_witness:
  "total_value [(0 :: u8, 7), (0, 11)] = total_value [(0 :: u8, 9)] + int (reward_spec (cm_emission sample_manager) (unat (1 :: u64)))"
proof -
  have one: "unat (1 :: u64) = Suc 0" by simp
  have h: "hd_height (blk_header sample_mined) = 1" "bv_consensus_manager sample_validator = sample_manager"
    by (simp_all add: sample_mined_def sample_header_def sample_validator_def)
  show ?thesis
    by (rule block_mints_reward [OF sample_pedersen sample_mined_accepted, unfolded h, where excesses = "[0, 0]"], unfold one)
       (simp_all add: sample_manager_def proper_decay_def body_opens_def binds_def total_value_def total_fees_def sample_mined_def body_new_def sample_parts)
qed

end
