(* ===== verification/Spec2Isabelle.thy ===== *)
theory Spec2Isabelle
  imports Pool_Selection Reorg_Pool Body_Validation
begin

text \<open>
  Verification of the core logic of Tari, a proof-of-work chain of Mimblewimble transactions with scripts and covenants.

  \<^bold>\<open>The program.\<close> An output of a transaction is locked by a TariScript (\<open>src/infrastructure/tari_script\<close>): the script runs on the
  input stack of the spender and must leave one public key. It may carry a covenant
  (\<open>src/base_layer/core/src/covenants\<close>), a filter expression that selects the outputs a spending transaction must have.
  Inputs, outputs and kernels form aggregate bodies, bodies form transactions and blocks
  (\<open>src/base_layer/core/src/transactions\<close>, \<open>blocks\<close>). The consensus code (\<open>consensus\<close>, \<open>proof_of_work\<close>) fixes the reward and the
  constants of every network, adjusts the difficulty and orders competing chains. The memory pool (\<open>mempool\<close>) keeps transactions
  until they are mined, chooses those of the next block, and keeps the mined ones for a while in case the chain is reorganised.

  \<^bold>\<open>Conventions.\<close> A Rust function that can fail returns an \<open>outcome\<close>: \<open>Ok v\<close>, \<open>Err e\<close> with the error type of the source, or
  \<open>Panic\<close> for an unwrap, an index out of bounds or an arithmetic overflow; the workspace builds with overflow checks in release
  mode, so plain operators panic. Integers are words of their width; a \<open>usize\<close> is a \<open>nat\<close> where it counts items in memory. A
  mutable object is a record passed in and returned. A \<open>HashMap\<close> is an association list with distinct keys; its iteration order
  is that of the list, and results that depend on it are stated as sets or multisets. A loop is a recursive function, total where
  the source terminates. Two loops may run forever: \<open>emission_loop\<close> is a partial function and \<open>get_all_dependent_transactions\<close>
  takes fuel, \<open>None\<close> stands for not returning, and their theorems say when they return. Code of other crates is a field of a parameter record
  (\<open>crypto\<close>, \<open>tx_crypto\<close>, \<open>epoch_ops\<close>, \<open>block_ops\<close>, \<open>validation_ops\<close>); what is assumed of it is a predicate (such as \<open>crypto_laws\<close>, \<open>block_laws\<close> or \<open>pedersen\<close>)
  which a concrete instance in the same theory satisfies (\<open>sample_crypto\<close>, \<open>sample_tx\<close>, \<open>sample_blocks\<close>,
  \<open>sample_validation\<close>). Logging, \<open>Display\<close>
  and serde have no counterpart.

  \<^bold>\<open>Shared theories.\<close>
  \<^item> \<open>Prelude\<close>: outcomes and their combinators, words, checked arithmetic, little and big endian bytes, Borsh lengths.
  \<^item> \<open>Crypto_Interface\<close>: keys, commitments, signatures and digests as parameters, with their laws.
  \<^item> \<open>Codec_Interface\<close>: the locales of a parser that reads a sequence of prefix-free elements; interpreted for stack items,
    opcodes and covenant tokens.
  \<^item> \<open>Pool_Index\<close>: the locale \<open>multi_index\<close> of an index from keys to identifiers, interpreted on the maps of both pools.

  \<^bold>\<open>TariScript.\<close>
  \<^item> \<open>Script_Stack\<close> (\<open>stack.rs\<close>, \<open>error.rs\<close>): items, the bounded stack, and its encodings, which round-trip.
  \<^item> \<open>Script_Opcodes\<close> (\<open>op_codes.rs\<close>, the codecs of \<open>script.rs\<close>): the 36 instructions; the parser never panics and inverts the
    encoder.
  \<^item> \<open>Script_VM\<close> (\<open>script.rs\<close>, \<open>script_context.rs\<close>): every handler, the multi-signature loop and the main loop with its flags for
    conditionals. The flag machine implements the big-step meaning of structured programs, and every script that succeeds is
    such a program; the stack stays within its bound; only \<open>CompareHeight\<close> panics; an accepted multi-signature consists of
    distinct valid signatures, and valid sets are accepted when no signature verifies under two keys.

  \<^bold>\<open>Amounts and consensus parameters.\<close>
  \<^item> \<open>Amounts\<close> (\<open>tari_amount.rs\<close>, \<open>weight.rs\<close>, \<open>fee.rs\<close>, \<open>format_currency.rs\<close>): arithmetic, weights and fees.
  \<^item> \<open>Emission\<close> (\<open>emission.rs\<close>): the schedule; reward and supply equal the documented series while the supply fits in 64 bits,
    and the loops diverge beyond.
  \<^item> \<open>Difficulty\<close> (\<open>lwma_diff.rs\<close>, \<open>target_difficulty_window.rs\<close>, \<open>difficulty.rs\<close>): the moving average, bounded and exact in
    range, and its truncating cast.
  \<^item> \<open>Consensus_Constants\<close> (\<open>consensus_constants.rs\<close>, \<open>network.rs\<close>): the constants of every network, which are well-formed.

  \<^bold>\<open>Transactions and blocks.\<close>
  \<^item> \<open>Transactions\<close> (\<open>transaction_components/\<close>): features, outputs, inputs and kernels.
  \<^item> \<open>Covenant_Codec\<close>, \<open>Covenant_Exec\<close> (\<open>covenants/\<close>): the token encoding, total and a round trip at every depth of nesting, and
    execution, which counts exactly the outputs with the Boolean meaning of the covenant.
  \<^item> \<open>Aggregate_Body\<close> (\<open>aggregated_body.rs\<close>, \<open>transaction.rs\<close>): sorting, duplicates, coinbase and maturity rules, weights.
  \<^item> \<open>Blocks\<close> (\<open>block_header.rs\<close>, \<open>block.rs\<close>, the templates): what the header hash commits to, and the block builder.
  \<^item> \<open>Consensus_Manager\<close> (\<open>accumulated_data.rs\<close>, \<open>chain_strength_comparer.rs\<close>, \<open>consensus_manager.rs\<close>,
    \<open>target_difficulties.rs\<close>, \<open>sha3_pow.rs\<close>, \<open>find_strongest_orphan_tip\<close>): the order of chains, through the locale
    \<open>strength_order\<close>; extending a chain makes it stronger, the chosen tip is maximal, and every network has a working manager.

  \<^bold>\<open>Validation.\<close>
  \<^item> \<open>Body_Validation\<close> (\<open>aggregate_body_internal_validator.rs\<close>, \<open>block_body_internal_validator.rs\<close>,
    \<open>transaction_internal_validator.rs\<close>, the checks of \<open>helpers.rs\<close> without a database, the proofs and signatures of
    \<open>transaction_output.rs\<close>): the internal validators in the order of their checks. An accepted transaction conserves value and an
    accepted block creates exactly the scheduled reward, for opened homomorphic commitments that bind on the two sides of the
    balance equation; the burn check is exact; an accepted body is sorted, spendable and within its weight, with scripts and
    covenants that succeed; fees that overflow abort the node.

  \<^bold>\<open>Memory pool.\<close>
  \<^item> \<open>Unconfirmed_Pool\<close> (\<open>unconfirmed_pool.rs\<close>, \<open>prioritized_transaction.rs\<close>): the invariant that ties the four indexes to the
    stored transactions; insertion refines insertion with eviction on a set; a block removes exactly the conflicting ones.
  \<^item> \<open>Pool_Selection\<close>: the choice of transactions for a block, its weight bound, and the pools on which it goes wrong.
  \<^item> \<open>Reorg_Pool\<close> (\<open>reorg_pool.rs\<close>): the invariant of the pool, exactly what a reorganisation takes out of it, and that every
    transaction expires once a block is published at its expiry height.

  \<^bold>\<open>Bounds.\<close> Identifiers of pool entries are assumed not to wrap around \<open>2^64 - 1\<close>, where the source would reuse keys.
  The fuel of the block selection is one more than the length of the longest dependency path, which the number of pooled
  transactions bounds when there is no cycle.

  \<^bold>\<open>Not modelled.\<close> The database, synchronisation, services, RPC, network and wallet are asynchronous I/O whose meaning
  lies in LMDB, SQLite, sockets and timers; so are the checks of headers and bodies against the database, the Merkle roots and
  the mempool service around the two pools. RandomX and Monero parsing, key derivation and the interactive
  transaction protocol are sequences of calls into other crates;
  the verification of range proofs is a parameter. Protocol buffer conversions depend on generated code. The
  decimal parsing of amounts and the floating-point fee rate are parameters or left out.
\<close>

end
